(* ===== verification/Prelude.thy ===== *)
theory Prelude
  imports Main "HOL-Library.Word" "HOL-Library.Sublist"
begin

text \<open>
  Shared vocabulary of the development: bytes and C strings, the classification functions of
  \<^verbatim>\<open><cctype>\<close> in the C locale, the number parsers of \<^verbatim>\<open><cstdlib>\<close>, decimal printing as
  \<^verbatim>\<open>operator<<\<close> does it, the outcome type of operations that may leave defined behaviour, and the
  generic list lemmas the components share.

  A C \<^verbatim>\<open>char\<close> is a HOL \<^typ>\<open>char\<close> (8 bits), a byte sequence is a \<^typ>\<open>string\<close>; a C string is the
  part of the memory before its first NUL. \<^verbatim>\<open>size_t\<close> is \<^typ>\<open>nat\<close> with the wrap-around written
  out where the code can reach it, \<^verbatim>\<open>int\<close>, \<^verbatim>\<open>long\<close> are \<^typ>\<open>int\<close> with the conversion written out,
  \<^verbatim>\<open>uint8_t\<close>, \<^verbatim>\<open>uint16_t\<close>, \<^verbatim>\<open>uint32_t\<close>, \<^verbatim>\<open>uint64_t\<close> are words.
\<close>

named_theorems buffer_simps \<open>content-level characterisations of the buffer operations\<close>
named_theorems outcome_simps \<open>evaluation of outcome-returning code\<close>

type_synonym u8 = "8 word"
type_synonym u16 = "16 word"
type_synonym u32 = "32 word"
type_synonym u64 = "64 word"

abbreviation NUL :: char where "NUL \<equiv> CHR 0x00"
abbreviation CR :: char where "CR \<equiv> CHR 0x0D"
abbreviation LF :: char where "LF \<equiv> CHR 0x0A"
abbreviation TAB :: char where "TAB \<equiv> CHR 0x09"
abbreviation QUOTE :: char where "QUOTE \<equiv> CHR 0x22"
abbreviation CRLF :: string where "CRLF \<equiv> [CR, LF]"

section \<open>Outcomes\<close>

text \<open>
  Undefined behaviour the code can run into is a value: an access outside an allocation, or a call
  through a null pointer, or through a pointer cast to a class the object
  does not have, or reading a variable that was never set, or touching memory that was given back, or
  counting a signed integer over its range. So is an exception that nobody catches.
\<close>

datatype fault = OutOfBounds | NullDeref | BadCast | Indeterminate | Dangling | SignedOverflow | Uncaught

type_synonym 'a outcome = "fault + 'a"

definition bindO :: "'a outcome \<Rightarrow> ('a \<Rightarrow> 'b outcome) \<Rightarrow> 'b outcome" where
  "bindO m f = (case m of Inl e \<Rightarrow> Inl e | Inr x \<Rightarrow> f x)"

lemma bindO_Inl [simp, outcome_simps]: "bindO (Inl e) f = Inl e"
  by (simp add: bindO_def)

lemma bindO_Inr [simp, outcome_simps]: "bindO (Inr x) f = f x"
  by (simp add: bindO_def)

lemma bindO_eq_Inr_iff: "bindO m f = Inr y \<longleftrightarrow> (\<exists>x. m = Inr x \<and> f x = Inr y)"
  by (cases m) simp_all

lemma bindO_eq_InrE:
  assumes "bindO m f = Inr y"
  obtains x where "m = Inr x" and "f x = Inr y"
  using assms by (auto simp: bindO_eq_Inr_iff)

section \<open>Loggers\<close>

text \<open>
  The log is written with \<^verbatim>\<open>spdlog\<close>, which is not part of the sources. A call through a logger that is
  there is taken to return and to change nothing of the program; the arguments it is given are evaluated.
  Some objects of the program call through a logger pointer that nothing ever set. What such a call does is
  the parameter \<open>nl\<close> (for null logger) of every definition it reaches: \<^term>\<open>Inl NullDeref\<close> for the code
  as it stands, since \<^verbatim>\<open>spdlog\<close> reads the level out of the logger first, and \<^term>\<open>Inr ()\<close> for the code with
  these loggers set. Results about processing say what is done in both cases: \<^term>\<open>bindO nl f\<close> is the
  fault of the call, if it has one, and \<^term>\<open>f ()\<close> otherwise.
\<close>

type_synonym logging = "unit outcome"

lemma bindO_absorb [simp]: "bindO nl (\<lambda>u. bindO nl f) = bindO nl f"
  by (cases nl) (simp_all add: unit_eq)

lemma bindO_assoc: "bindO (bindO m f) g = bindO m (\<lambda>x. bindO (f x) g)"
  by (cases m) simp_all

lemma bindO_unit_eq_Inr_iff [simp]: "bindO nl (\<lambda>u. f) = Inr y \<longleftrightarrow> nl = Inr () \<and> f = Inr y"
  by (cases nl) simp_all

section \<open>Characters\<close>

definition char_code :: "char \<Rightarrow> nat" where
  "char_code c = of_char c"

text \<open>The functions of \<^verbatim>\<open><cctype>\<close> the code calls, in the C locale.\<close>

definition isspace :: "char \<Rightarrow> bool" where
  "isspace c \<longleftrightarrow> char_code c = 32 \<or> (9 \<le> char_code c \<and> char_code c \<le> 13)"

definition isdigit :: "char \<Rightarrow> bool" where
  "isdigit c \<longleftrightarrow> 48 \<le> char_code c \<and> char_code c \<le> 57"

definition isupper :: "char \<Rightarrow> bool" where
  "isupper c \<longleftrightarrow> 65 \<le> char_code c \<and> char_code c \<le> 90"

definition islower :: "char \<Rightarrow> bool" where
  "islower c \<longleftrightarrow> 97 \<le> char_code c \<and> char_code c \<le> 122"

definition isalpha :: "char \<Rightarrow> bool" where
  "isalpha c \<longleftrightarrow> isupper c \<or> islower c"

definition isalnum :: "char \<Rightarrow> bool" where
  "isalnum c \<longleftrightarrow> isalpha c \<or> isdigit c"

definition toupper :: "char \<Rightarrow> char" where
  "toupper c = (if islower c then char_of (char_code c - 32) else c)"

definition tolower :: "char \<Rightarrow> char" where
  "tolower c = (if isupper c then char_of (char_code c + 32) else c)"

lemmas ctype_defs = isspace_def isdigit_def isupper_def islower_def isalpha_def isalnum_def
  toupper_def tolower_def char_code_def

lemma char_code_less [simp]: "char_code c < 256"
  by (simp add: char_code_def)

lemma char_code_char_of [simp]: "n < 256 \<Longrightarrow> char_code (char_of n) = n"
  by (simp add: char_code_def)

lemma char_code_char_of_diff [simp]: "char_code (char_of (char_code c - k)) = char_code c - k"
  by (rule char_code_char_of) (use char_code_less [of c] in linarith)

lemma char_of_char_code [simp]: "char_of (char_code c) = c"
  by (simp add: char_code_def)

lemma char_code_inject: "char_code c = char_code d \<longleftrightarrow> c = d"
  by (metis char_of_char_code)

lemma toupper_NUL_iff [simp]: "toupper c = NUL \<longleftrightarrow> c = NUL"
proof (cases "islower c")
  case True
  then have "char_code (toupper c) \<noteq> 0" and "char_code c \<noteq> 0"
    by (simp_all add: toupper_def islower_def)
  moreover have "char_code NUL = 0"
    by (simp add: char_code_def)
  ultimately show ?thesis
    by metis
next
  case False
  then show ?thesis by (simp add: toupper_def)
qed

lemma not_islower_toupper [simp]: "\<not> islower (toupper c)"
  by (auto simp: toupper_def islower_def)

lemma toupper_idem [simp]: "toupper (toupper c) = toupper c"
  by (simp add: toupper_def [of "toupper c"])

lemma isdigit_not_isspace: "isdigit c \<Longrightarrow> \<not> isspace c"
  by (auto simp: isdigit_def isspace_def)

section \<open>Memory behind a pointer\<close>

text \<open>
  A pointer into an allocation is the list of bytes from it to the end of the allocation; reading
  through a pointer at the end gives NUL, the terminator of the strings and zero-filled arrays the
  code walks over.
\<close>

definition deref :: "string \<Rightarrow> char" where
  "deref p = (case p of [] \<Rightarrow> NUL | c # _ \<Rightarrow> c)"

lemma deref_simps [simp]: "deref [] = NUL" "deref (c # p) = c"
  by (simp_all add: deref_def)

definition mem_at :: "string \<Rightarrow> nat \<Rightarrow> char" where
  "mem_at m i = (if i < length m then m ! i else NUL)"

definition c_str :: "string \<Rightarrow> string" where
  "c_str m = takeWhile (\<lambda>c. c \<noteq> NUL) m"

text \<open>
  \<^verbatim>\<open>strlen\<close> and the copy it bounds, over an array that is known to its end: without a NUL in the array they
  run past it.
\<close>

definition c_string :: "string \<Rightarrow> string outcome" where
  "c_string m = (if NUL \<in> set m then Inr (c_str m) else Inl OutOfBounds)"

lemma c_str_id: "NUL \<notin> set s \<Longrightarrow> c_str s = s"
  by (induction s) (auto simp: c_str_def)

lemma NUL_not_in_c_str [simp]: "NUL \<notin> set (c_str s)"
  by (auto simp: c_str_def dest: set_takeWhileD)

text \<open>\<^verbatim>\<open>memcpy\<close> of \<open>src\<close> to offset \<open>off\<close> of an array.\<close>

definition blit :: "nat \<Rightarrow> 'a list \<Rightarrow> 'a list \<Rightarrow> 'a list" where
  "blit off src d = take off d @ src @ drop (off + length src) d"

lemma blit_Nil [simp]: "blit off [] d = d"
  by (simp add: blit_def)

lemma length_blit [simp]: "off + length src \<le> length d \<Longrightarrow> length (blit off src d) = length d"
  by (simp add: blit_def)

lemma take_blit: "off \<le> length d \<Longrightarrow> take (off + length src) (blit off src d) = take off d @ src"
  by (simp add: blit_def)

lemma take_le_blit: "n \<le> off \<Longrightarrow> off \<le> length d \<Longrightarrow> take n (blit off src d) = take n d"
  by (simp add: blit_def min_def)

lemma drop_ge_blit: "off + length src \<le> n \<Longrightarrow> off \<le> length d \<Longrightarrow> drop n (blit off src d) = drop n d"
  by (simp add: blit_def)

lemma blit_blit: "blit (length s1) s2 (blit 0 s1 d) = blit 0 (s1 @ s2) d"
  by (simp add: blit_def add.commute)

lemma split_first_unique:
  "d \<notin> set t \<Longrightarrow> d \<notin> set t' \<Longrightarrow> t @ d # s = t' @ d # s' \<Longrightarrow> t = t' \<and> s = s'"
proof (induction t arbitrary: t')
  case Nil
  then show ?case by (cases t') auto
next
  case (Cons c t)
  then show ?case by (cases t') auto
qed

section \<open>Tokens\<close>

text \<open>
  The specification of the splitting loops: the maximal non-empty runs of characters that are no
  delimiter.
\<close>

primrec tokens_from :: "('a \<Rightarrow> bool) \<Rightarrow> 'a list \<Rightarrow> 'a list \<Rightarrow> 'a list list" where
  "tokens_from P cur [] = (if cur = [] then [] else [cur])"
| "tokens_from P cur (c # s) =
     (if P c then (if cur = [] then [] else [cur]) @ tokens_from P [] s
      else tokens_from P (cur @ [c]) s)"

definition tokens :: "('a \<Rightarrow> bool) \<Rightarrow> 'a list \<Rightarrow> 'a list list" where
  "tokens P s = tokens_from P [] s"

lemma tokens_Nil [simp]: "tokens P [] = []"
  by (simp add: tokens_def)

lemma tokens_delim [simp]: "P c \<Longrightarrow> tokens P (c # s) = tokens P s"
  by (simp add: tokens_def)

lemma tokens_from_word: "\<forall>c \<in> set t. \<not> P c \<Longrightarrow> tokens_from P cur (t @ s) = tokens_from P (cur @ t) s"
  by (induction t arbitrary: cur) simp_all

lemma tokens_word:
  assumes "t \<noteq> []" and "\<forall>c \<in> set t. \<not> P c" and "P d"
  shows "tokens P (t @ d # s) = t # tokens P s"
  using assms by (simp add: tokens_def tokens_from_word)

lemma tokens_last_word:
  assumes "t \<noteq> []" and "\<forall>c \<in> set t. \<not> P c"
  shows "tokens P t = [t]"
  using assms tokens_from_word [of t P "[]" "[]"] by (simp add: tokens_def)

lemma tokens_from_sound:
  "\<forall>c \<in> set cur. \<not> P c \<Longrightarrow> t \<in> set (tokens_from P cur s) \<Longrightarrow> t \<noteq> [] \<and> (\<forall>c \<in> set t. \<not> P c)"
proof (induction s arbitrary: cur)
  case (Cons c s)
  show ?case
  proof (cases "P c")
    case True
    then have "t = cur \<and> cur \<noteq> [] \<or> t \<in> set (tokens_from P [] s)"
      using Cons.prems(2) by (simp split: if_splits)
    moreover have "t \<in> set (tokens_from P [] s) \<Longrightarrow> t \<noteq> [] \<and> (\<forall>c \<in> set t. \<not> P c)"
      by (rule Cons.IH [of "[]"]) simp_all
    ultimately show ?thesis using Cons.prems(1) by blast
  next
    case False
    then have "t \<in> set (tokens_from P (cur @ [c]) s)"
      using Cons.prems(2) by simp
    moreover have "\<forall>c \<in> set (cur @ [c]). \<not> P c"
      using Cons.prems(1) False by simp
    ultimately show ?thesis by (rule Cons.IH [rotated])
  qed
qed (simp split: if_splits)

lemma tokens_sound: "t \<in> set (tokens P s) \<Longrightarrow> t \<noteq> [] \<and> (\<forall>c \<in> set t. \<not> P c)"
  using tokens_from_sound [of "[]" P t s] by (simp add: tokens_def)

lemma concat_tokens_from: "concat (tokens_from P cur s) = cur @ filter (\<lambda>c. \<not> P c) s"
  by (induction s arbitrary: cur) simp_all

lemma concat_tokens: "concat (tokens P s) = filter (\<lambda>c. \<not> P c) s"
  by (simp add: tokens_def concat_tokens_from)

section \<open>Numbers as text\<close>

definition digit_value :: "char \<Rightarrow> nat" where
  "digit_value c = char_code c - 48"

definition digit_char :: "nat \<Rightarrow> char" where
  "digit_char d = char_of (48 + d)"

fun digits_value :: "nat \<Rightarrow> string \<Rightarrow> nat" where
  "digits_value acc [] = acc"
| "digits_value acc (c # cs) = digits_value (acc * 10 + digit_value c) cs"

text \<open>
  The common part of \<^verbatim>\<open>strtol\<close> and \<^verbatim>\<open>strtoul\<close> in base 10: leading white space, an optional sign,
  the longest run of digits; no digits give 0.
\<close>

definition strto_scan :: "string \<Rightarrow> bool \<times> nat" where
  "strto_scan p =
     (let t = dropWhile isspace p;
          neg = (deref t = CHR ''-'');
          u = (if neg \<or> deref t = CHR ''+'' then tl t else t)
      in (neg, digits_value 0 (takeWhile isdigit u)))"

text \<open>\<^verbatim>\<open>unsigned long\<close> and \<^verbatim>\<open>long\<close> have 64 bits; out-of-range values are clamped.\<close>

definition strtoul :: "string \<Rightarrow> nat" where
  "strtoul p = (case strto_scan p of (neg, v) \<Rightarrow>
     if 2 ^ 64 \<le> v then 2 ^ 64 - 1 else if neg then (2 ^ 64 - v) mod 2 ^ 64 else v)"

definition strtol :: "string \<Rightarrow> int" where
  "strtol p = (case strto_scan p of (neg, v) \<Rightarrow>
     if neg then max (- (2 ^ 63)) (- int v) else min (2 ^ 63 - 1) (int v))"

text \<open>Conversion of a wider integer to \<^verbatim>\<open>int\<close> (32 bits) and to \<^verbatim>\<open>size_t\<close> (64 bits).\<close>

definition to_int32 :: "int \<Rightarrow> int" where
  "to_int32 i = sint (word_of_int i :: 32 word)"

definition to_size_t :: "int \<Rightarrow> nat" where
  "to_size_t i = nat (i mod 2 ^ 64)"

definition atoi :: "string \<Rightarrow> int" where
  "atoi p = to_int32 (strtol p)"

fun show_nat :: "nat \<Rightarrow> string" where
  "show_nat n = (if n < 10 then [digit_char n] else show_nat (n div 10) @ [digit_char (n mod 10)])"

declare show_nat.simps [simp del]

definition show_int :: "int \<Rightarrow> string" where
  "show_int i = (if i < 0 then CHR ''-'' # show_nat (nat (- i)) else show_nat (nat i))"

lemma isdigit_digit_char [simp]: "d < 10 \<Longrightarrow> isdigit (digit_char d)"
  by (simp add: isdigit_def digit_char_def)

lemma digit_value_digit_char [simp]: "d < 10 \<Longrightarrow> digit_value (digit_char d) = d"
  by (simp add: digit_value_def digit_char_def)

lemma show_nat_digits: "\<forall>c \<in> set (show_nat n). isdigit c"
proof (induction n rule: show_nat.induct)
  case (1 n)
  then show ?case by (subst show_nat.simps) auto
qed

lemma show_nat_not_Nil [simp]: "show_nat n \<noteq> []"
  by (subst show_nat.simps) simp

lemma digits_value_append: "digits_value acc (xs @ ys) = digits_value (digits_value acc xs) ys"
  by (induction xs arbitrary: acc) simp_all

lemma digits_value_show_nat [simp]: "digits_value 0 (show_nat n) = n"
proof (induction n rule: show_nat.induct)
  case (1 n)
  show ?case
  proof (cases "n < 10")
    case True
    then show ?thesis by (subst show_nat.simps) simp
  next
    case False
    with "1.IH" have "digits_value 0 (show_nat (n div 10)) = n div 10" by simp
    with False show ?thesis by (subst show_nat.simps) (simp add: digits_value_append)
  qed
qed

lemma takeWhile_digits_show_nat:
  assumes "\<not> isdigit (deref rest)"
  shows "takeWhile isdigit (show_nat n @ rest) = show_nat n"
proof -
  have "takeWhile isdigit rest = []"
    using assms by (cases rest) auto
  then show ?thesis
    using show_nat_digits [of n] by (simp add: takeWhile_append)
qed

lemma hd_show_nat_isdigit: "isdigit (hd (show_nat n))"
  using show_nat_digits [of n] hd_in_set [OF show_nat_not_Nil] by blast

lemma strto_scan_show_nat:
  assumes "\<not> isdigit (deref rest)"
  shows "strto_scan (show_nat n @ rest) = (False, n)"
proof -
  obtain c cs where s: "show_nat n = c # cs"
    by (cases "show_nat n") auto
  have c: "isdigit c"
    using hd_show_nat_isdigit [of n] s by simp
  have "dropWhile isspace (show_nat n @ rest) = show_nat n @ rest"
    using c s by (simp add: isdigit_not_isspace)
  moreover have "c \<noteq> CHR ''-''" and "c \<noteq> CHR ''+''"
    using c by (auto simp: isdigit_def char_code_def)
  ultimately show ?thesis
    using takeWhile_digits_show_nat [OF assms, of n] digits_value_show_nat [of n] s
    by (simp add: strto_scan_def Let_def del: digits_value_show_nat)
qed

lemma strtoul_show_nat:
  "n < 2 ^ 64 \<Longrightarrow> \<not> isdigit (deref rest) \<Longrightarrow> strtoul (show_nat n @ rest) = n"
  by (simp add: strtoul_def strto_scan_show_nat)

lemma strtol_show_nat:
  "n < 2 ^ 63 \<Longrightarrow> \<not> isdigit (deref rest) \<Longrightarrow> strtol (show_nat n @ rest) = int n"
  by (simp add: strtol_def strto_scan_show_nat)

lemma to_int32_id: "- (2 ^ 31) \<le> i \<Longrightarrow> i < 2 ^ 31 \<Longrightarrow> to_int32 i = i"
  by (simp add: to_int32_def sint_sbintrunc' signed_take_bit_int_eq_self)

lemma to_size_t_nat: "0 \<le> i \<Longrightarrow> i < 2 ^ 64 \<Longrightarrow> to_size_t i = nat i"
  by (simp add: to_size_t_def)

section \<open>32-bit counters\<close>

lemma u32_of_nat_unat: "unat (w :: u32) = n \<Longrightarrow> w = of_nat n"
  by (metis of_nat_unat ucast_id)

lemma u32_unat_of_nat: "n < 2 ^ 32 \<Longrightarrow> unat (of_nat n :: u32) = n"
  by (simp add: unat_of_nat)

lemma u32_unat_Suc: "unat (w :: u32) = n \<Longrightarrow> n + 1 < 2 ^ 32 \<Longrightarrow> unat (w + 1) = Suc n"
  by (simp add: unat_word_ariths)

end
