(* ===== verification/Base64.thy ===== *)
theory Base64
  imports Prelude
begin

text \<open>
  Model of \<^verbatim>\<open>src/src/components/utilities/base64.cpp\<close>. \<^verbatim>\<open>byte_t\<close> is an 8-bit word; the arrays
  \<^verbatim>\<open>char_array_3\<close> and \<^verbatim>\<open>char_array_4\<close> are the bytes written to them so far, whose number is the
  code's index \<^verbatim>\<open>i\<close>. The length given to the encoder is an \<^verbatim>\<open>unsigned int\<close>, reading behind the
  memory is out of bounds, and \<^verbatim>\<open>inputIndex\<close> of the decoder is an \<^verbatim>\<open>int\<close> that may not pass \<open>2^31 - 1\<close>. The
  loops are shown to do what recursions without widths do (\<open>encode_bytes\<close>, \<open>decode_text\<close>), as long as
  the widths allow; those undo each other.
\<close>

unbundle bit_operations_syntax

definition base64_chars :: string where
  "base64_chars = ''ABCDEFGHIJKLMNOPQRSTUVWXYZabcdefghijklmnopqrstuvwxyz0123456789+/''"

definition byte_of :: "char \<Rightarrow> u8" where
  "byte_of c = of_nat (char_code c)"

definition is_base64 :: "u8 \<Rightarrow> bool" where
  "is_base64 b =
     (isalnum (char_of (unat b)) \<or> char_of (unat b) = CHR ''+'' \<or> char_of (unat b) = CHR ''/'')"

section \<open>Encoding\<close>

definition encode_group :: "u8 \<Rightarrow> u8 \<Rightarrow> u8 \<Rightarrow> u8 list" where
  "encode_group a b c =
     [drop_bit 2 (a AND 0xfc),
      push_bit 4 (a AND 0x03) + drop_bit 4 (b AND 0xf0),
      push_bit 2 (b AND 0x0f) + drop_bit 6 (c AND 0xc0),
      c AND 0x3f]"

definition encode_chars :: "u8 list \<Rightarrow> string" where
  "encode_chars xs = map (\<lambda>x. base64_chars ! unat x) xs"

definition encode_array :: "u8 list \<Rightarrow> u8 list" where
  "encode_array arr3 = encode_group (arr3 ! 0) (arr3 ! 1) (arr3 ! 2)"

definition encode_tail :: "u8 list \<Rightarrow> string" where
  "encode_tail arr3 =
     (let i = length arr3
      in if i \<noteq> 0 then
           encode_chars (take (i + 1) (encode_array (arr3 @ replicate (3 - i) 0))) @
           replicate (3 - i) (CHR ''='')
         else [])"

text \<open>The memory from \<^verbatim>\<open>buf\<close> on, what is left of \<^verbatim>\<open>bufLen\<close>, the first array and \<^verbatim>\<open>ret\<close>.\<close>

fun encode_loop :: "u8 list \<Rightarrow> u32 \<Rightarrow> u8 list \<Rightarrow> string \<Rightarrow> string outcome" where
  "encode_loop [] bufLen arr3 ret = (if bufLen = 0 then Inr (ret @ encode_tail arr3) else Inl OutOfBounds)"
| "encode_loop (b # bs) bufLen arr3 ret =
     (if bufLen = 0 then Inr (ret @ encode_tail arr3)
      else let arr3 = arr3 @ [b]
           in if length arr3 = 3 then encode_loop bs (bufLen - 1) [] (ret @ encode_chars (encode_array arr3))
              else encode_loop bs (bufLen - 1) arr3 ret)"

definition base64Encode :: "u8 list \<Rightarrow> u32 \<Rightarrow> string outcome" where
  "base64Encode buf bufLen = encode_loop buf bufLen [] []"

section \<open>Decoding\<close>

text \<open>\<^verbatim>\<open>base64_chars.find\<close> cast to a byte: the position, or the low byte of \<^verbatim>\<open>npos\<close>.\<close>

fun find_from :: "string \<Rightarrow> u8 \<Rightarrow> nat \<Rightarrow> u8" where
  "find_from [] b k = 255"
| "find_from (c # cs) b k = (if byte_of c = b then of_nat k else find_from cs b (Suc k))"

definition find_char :: "u8 \<Rightarrow> u8" where
  "find_char b = find_from base64_chars b 0"

definition decode_group :: "u8 \<Rightarrow> u8 \<Rightarrow> u8 \<Rightarrow> u8 \<Rightarrow> u8 list" where
  "decode_group a b c d =
     [push_bit 2 a + drop_bit 4 (b AND 0x30),
      push_bit 4 (b AND 0xf) + drop_bit 2 (c AND 0x3c),
      push_bit 6 (c AND 0x3) + d]"

definition decode_array :: "u8 list \<Rightarrow> u8 list" where
  "decode_array arr4 =
     decode_group (find_char (arr4 ! 0)) (find_char (arr4 ! 1)) (find_char (arr4 ! 2))
       (find_char (arr4 ! 3))"

definition decode_tail :: "u8 list \<Rightarrow> u8 list" where
  "decode_tail arr4 =
     (let i = length arr4
      in if i \<noteq> 0 then take (i - 1) (decode_array (arr4 @ replicate (4 - i) 0)) else [])"

text \<open>What is left of the string, \<^verbatim>\<open>inputIndex\<close>, the array of four and \<^verbatim>\<open>decodedData\<close>.\<close>

fun decode_loop :: "string \<Rightarrow> int \<Rightarrow> u8 list \<Rightarrow> u8 list \<Rightarrow> u8 list outcome" where
  "decode_loop [] inputIndex arr4 decodedData = Inr (decodedData @ decode_tail arr4)"
| "decode_loop (c # cs) inputIndex arr4 decodedData =
     (if c \<noteq> CHR ''='' \<and> is_base64 (byte_of c) then
        (let arr4 = arr4 @ [byte_of c]
         in if inputIndex = 2 ^ 31 - 1 then Inl SignedOverflow
            else if length arr4 = 4 then decode_loop cs (inputIndex + 1) [] (decodedData @ decode_array arr4)
            else decode_loop cs (inputIndex + 1) arr4 decodedData)
      else Inr (decodedData @ decode_tail arr4))"

definition base64Decode :: "string \<Rightarrow> u8 list outcome" where
  "base64Decode encoded_string = decode_loop encoded_string 0 [] []"

section \<open>The loops and the recursions without widths\<close>

fun encode_bytes :: "u8 list \<Rightarrow> u8 list \<Rightarrow> string" where
  "encode_bytes [] arr3 = encode_tail arr3"
| "encode_bytes (b # bs) arr3 =
     (let arr3 = arr3 @ [b]
      in if length arr3 = 3 then encode_chars (encode_array arr3) @ encode_bytes bs [] else encode_bytes bs arr3)"

fun decode_text :: "string \<Rightarrow> u8 list \<Rightarrow> u8 list" where
  "decode_text [] arr4 = decode_tail arr4"
| "decode_text (c # cs) arr4 =
     (if c \<noteq> CHR ''='' \<and> is_base64 (byte_of c) then
        (let arr4 = arr4 @ [byte_of c]
         in if length arr4 = 4 then decode_array arr4 @ decode_text cs [] else decode_text cs arr4)
      else decode_tail arr4)"

definition alphabet_prefix :: "string \<Rightarrow> string" where
  "alphabet_prefix = takeWhile (\<lambda>c. c \<noteq> CHR ''='' \<and> is_base64 (byte_of c))"

lemma encode_loop_bytes:
  "length bs < 2 ^ 32 \<Longrightarrow>
   encode_loop (bs @ behind) (of_nat (length bs)) arr3 ret = Inr (ret @ encode_bytes bs arr3)"
proof (induction bs arbitrary: arr3 ret)
  case Nil
  then show ?case by (cases behind) simp_all
next
  case (Cons b bs)
  have "unat (of_nat (length (b # bs)) :: u32) = length (b # bs)"
    using Cons.prems by (simp add: unat_of_nat del: of_nat_Suc)
  then have "of_nat (length (b # bs)) \<noteq> (0 :: u32)"
    by (metis length_0_conv list.distinct(1) unat_0)
  moreover have "of_nat (length (b # bs)) - 1 = (of_nat (length bs) :: u32)"
    by simp
  ultimately show ?case
    using Cons by (simp only: append_Cons encode_loop.simps) (simp add: Let_def)
qed

lemma encode_loop_short:
  "length bs < unat n \<Longrightarrow> encode_loop bs n arr3 ret = Inl OutOfBounds"
proof (induction bs arbitrary: n arr3 ret)
  case (Cons b bs)
  then have "n \<noteq> 0" by auto
  moreover have "length bs < unat (n - 1)"
    using Cons.prems calculation by (simp add: unat_minus_one)
  ultimately show ?case
    using Cons.IH by (simp add: Let_def)
qed auto

lemma decode_loop_text:
  "0 \<le> k \<Longrightarrow> k < 2 ^ 31 \<Longrightarrow> decode_loop s k arr4 out =
     (if k + int (length (alphabet_prefix s)) < 2 ^ 31 then Inr (out @ decode_text s arr4) else Inl SignedOverflow)"
proof (induction s arbitrary: k arr4 out)
  case Nil
  then show ?case by (simp add: alphabet_prefix_def)
next
  case (Cons c cs)
  show ?case
  proof (cases "c \<noteq> CHR ''='' \<and> is_base64 (byte_of c)")
    case True
    show ?thesis
    proof (cases "k = 2 ^ 31 - 1")
      case False
      then have "0 \<le> k + 1" "k + 1 < 2 ^ 31"
        using Cons.prems by auto
      note IH = Cons.IH [OF this]
      have "decode_loop (c # cs) k arr4 out = (if length arr4 = 3
          then decode_loop cs (k + 1) [] (out @ decode_array (arr4 @ [byte_of c]))
          else decode_loop cs (k + 1) (arr4 @ [byte_of c]) out)"
        using True False by (simp add: Let_def)
      moreover have "decode_text (c # cs) arr4 = (if length arr4 = 3
          then decode_array (arr4 @ [byte_of c]) @ decode_text cs [] else decode_text cs (arr4 @ [byte_of c]))"
        using True by (simp add: Let_def)
      moreover have "length (alphabet_prefix (c # cs)) = length (alphabet_prefix cs) + 1"
        using True by (simp add: alphabet_prefix_def)
      ultimately show ?thesis
        using IH by (simp add: add.assoc [symmetric])
    qed (use True in \<open>simp add: alphabet_prefix_def Let_def\<close>)
  next
    case False
    then have "decode_loop (c # cs) k arr4 out = Inr (out @ decode_tail arr4)"
        "decode_text (c # cs) arr4 = decode_tail arr4" "alphabet_prefix (c # cs) = []"
      by (simp_all only: decode_loop.simps decode_text.simps alphabet_prefix_def takeWhile.simps if_False)
    then show ?thesis
      using Cons.prems by simp
  qed
qed

section \<open>The alphabet\<close>

lemma char_of_byte_of [simp]: "char_of (unat (byte_of c)) = c"
  using char_code_less [of c] by (simp add: byte_of_def unat_of_nat)

lemma byte_of_inject [simp]: "byte_of c = byte_of d \<longleftrightarrow> c = d"
  by (metis char_of_byte_of)

lemma find_from_nth:
  "distinct cs \<Longrightarrow> i < length cs \<Longrightarrow> find_from cs (byte_of (cs ! i)) k = of_nat (k + i)"
proof (induction cs arbitrary: i k)
  case (Cons c cs)
  then show ?case by (cases i) auto
qed simp

lemma base64_chars_facts:
  "length base64_chars = 64" "distinct base64_chars"
  "list_all (\<lambda>c. c \<noteq> CHR ''='' \<and> (isalnum c \<or> c = CHR ''+'' \<or> c = CHR ''/'')) base64_chars"
  by (simp_all add: base64_chars_def ctype_defs)

lemma alphabet:
  assumes "unat x < 64"
  shows "base64_chars ! unat x \<noteq> CHR ''=''" and "is_base64 (byte_of (base64_chars ! unat x))"
    and "find_char (byte_of (base64_chars ! unat x)) = (x :: u8)"
  using assms base64_chars_facts find_from_nth [of base64_chars "unat x" 0]
  by (simp_all add: is_base64_def find_char_def list_all_length)

section \<open>One group of three bytes\<close>

lemma byte_bit_cases: "n < 8 \<longleftrightarrow> n \<in> {0, 1, 2, 3, 4, 5, 6, 7 :: nat}"
  by auto

lemma byte_eqI:
  fixes x y :: u8
  assumes "bit x 0 = bit y 0" "bit x 1 = bit y 1" "bit x 2 = bit y 2" "bit x 3 = bit y 3"
    "bit x 4 = bit y 4" "bit x 5 = bit y 5" "bit x 6 = bit y 6" "bit x 7 = bit y 7"
  shows "x = y"
proof (rule bit_word_eqI)
  fix n
  assume "n < LENGTH(8)"
  then have "n \<in> {0, 1, 2, 3, 4, 5, 6, 7}" by auto
  then show "bit x n = bit y n" using assms by auto
qed

lemma byte_add_or:
  fixes x y :: u8
  assumes "x AND y = 0"
  shows "x + y = x OR y"
  using assms by (rule disjunctive_add_eq_or)

lemma encode_group_or:
  "encode_group a b c =
     [drop_bit 2 (a AND 0xfc),
      push_bit 4 (a AND 0x03) OR drop_bit 4 (b AND 0xf0),
      push_bit 2 (b AND 0x0f) OR drop_bit 6 (c AND 0xc0),
      c AND 0x3f]"
  unfolding encode_group_def list.inject
  by (intro conjI refl byte_add_or byte_eqI) (simp_all add: bit_simps)

lemma decode_encode_group:
  assumes "encode_group a b c = [w, x, y, z]"
  shows "decode_group w x y z = [a, b, c]"
proof -
  have "decode_group w x y z =
      [push_bit 2 w OR drop_bit 4 (x AND 0x30),
       push_bit 4 (x AND 0xf) OR drop_bit 2 (y AND 0x3c),
       push_bit 6 (y AND 0x3) OR z]"
    using assms unfolding decode_group_def encode_group_or list.inject
    by (intro conjI refl byte_add_or byte_eqI) (auto simp: bit_simps)
  also have "\<dots> = [a, b, c]"
    using assms unfolding encode_group_or list.inject
    by (intro conjI refl byte_eqI) (auto simp: bit_simps)
  finally show ?thesis .
qed


lemma encode_group_less:
  "x \<in> set (encode_group a b c) \<Longrightarrow> unat x < 64"
proof -
  assume "x \<in> set (encode_group a b c)"
  then have "\<not> bit x 6" and "\<not> bit x 7"
    unfolding encode_group_or by (auto simp: bit_simps)
  then have "x = x AND mask 6"
    by (intro byte_eqI) (simp_all add: bit_simps)
  then have "x < 2 ^ 6"
    using and_mask_less_size [of 6 x] by (simp add: word_size)
  then show ?thesis
    by (simp add: word_less_nat_alt)
qed

lemma encode_group_cases:
  obtains w x y z where "encode_group a b c = [w, x, y, z]"
    and "unat w < 64" and "unat x < 64" and "unat y < 64" and "unat z < 64"
proof -
  obtain w x y z where g: "encode_group a b c = [w, x, y, z]"
    by (simp add: encode_group_def)
  then show thesis
    using that encode_group_less [of _ a b c] by simp
qed

section \<open>The round trip\<close>

lemma decode_full_group:
  "decode_text (encode_chars (encode_group a b c) @ s) [] = [a, b, c] @ decode_text s []"
proof -
  obtain w x y z where g: "encode_group a b c = [w, x, y, z]"
    and "unat w < 64" "unat x < 64" "unat y < 64" "unat z < 64"
    by (rule encode_group_cases)
  then show ?thesis
    using decode_encode_group [OF g]
    by (simp add: encode_chars_def alphabet Let_def decode_array_def)
qed

text \<open>The last group: the arrays are filled up with zeros, of which the output takes nothing.\<close>

lemma decode_last_two:
  assumes "unat w < 64" and "unat x < 64"
  shows "decode_text (encode_chars [w, x] @ CHR ''='' # s) [] = take 1 (decode_group w x y z)"
  using assms
  by (simp add: encode_chars_def alphabet Let_def decode_array_def decode_tail_def decode_group_def)

lemma decode_last_three:
  assumes "unat w < 64" and "unat x < 64" and "unat y < 64"
  shows "decode_text (encode_chars [w, x, y] @ CHR ''='' # s) [] = take 2 (decode_group w x y z)"
  using assms
  by (simp add: encode_chars_def alphabet Let_def decode_array_def decode_tail_def decode_group_def)

lemma decode_encode_bytes:
  "decode_text (encode_bytes bs []) [] = bs"
proof (induction "length bs" arbitrary: bs rule: less_induct)
  case less
  consider "bs = []" | a where "bs = [a]" | a b where "bs = [a, b]"
    | a b c r where "bs = a # b # c # r"
    by (metis list.exhaust)
  then show ?case
  proof cases
    case 1
    then show ?thesis by (simp add: decode_tail_def encode_tail_def)
  next
    case (2 a)
    obtain w x y z where g: "encode_group a 0 0 = [w, x, y, z]" "unat w < 64" "unat x < 64"
      by (rule encode_group_cases)
    have "encode_bytes bs [] = encode_chars [w, x] @ CHR ''='' # [CHR ''='']"
      using g(1) unfolding 2 by (simp add: encode_array_def encode_tail_def Let_def numeral_2_eq_2)
    then show ?thesis
      using decode_encode_group [OF g(1)] decode_last_two [OF g(2,3), of "[CHR ''='']" y z] 2
      by simp
  next
    case (3 a b)
    obtain w x y z where g: "encode_group a b 0 = [w, x, y, z]"
        "unat w < 64" "unat x < 64" "unat y < 64"
      by (rule encode_group_cases)
    have "encode_bytes bs [] = encode_chars [w, x, y] @ CHR ''='' # []"
      using g(1) unfolding 3 by (simp add: encode_array_def encode_tail_def Let_def numeral_2_eq_2)
    then show ?thesis
      using decode_encode_group [OF g(1)] decode_last_three [OF g(2-4), of "[]" z] 3
      by simp
  next
    case (4 a b c r)
    then have "encode_bytes bs [] = encode_chars (encode_group a b c) @ encode_bytes r []"
      by (simp add: Let_def encode_array_def)
    with 4 less [of r] show ?thesis
      by (simp add: decode_full_group)
  qed
qed

lemma alphabet_prefix_chars:
  "\<forall>x \<in> set xs. unat x < 64 \<Longrightarrow> alphabet_prefix (encode_chars xs @ s) = encode_chars xs @ alphabet_prefix s"
  by (induction xs) (simp_all add: alphabet_prefix_def encode_chars_def alphabet)

lemma alphabet_prefix_encoded:
  "length (alphabet_prefix (encode_bytes bs [])) = (4 * length bs + 2) div 3"
proof (induction "length bs" arbitrary: bs rule: less_induct)
  case less
  have e: "alphabet_prefix [] = []" "alphabet_prefix (CHR ''='' # s) = []" for s
    by (simp_all add: alphabet_prefix_def)
  have g: "\<forall>x \<in> set (take k (encode_group a b c)). unat x < 64" for k a b c
    using encode_group_less by (blast dest: in_set_takeD)
  have p: "alphabet_prefix (encode_chars (take k (encode_group a b c)) @ s) = encode_chars (take k (encode_group a b c)) @ alphabet_prefix s"
    for k a b c s by (rule alphabet_prefix_chars [OF g])
  have n: "length (encode_chars (take k (encode_group a b c))) = min k 4" for k a b c
    by (simp add: encode_chars_def encode_group_def)
  consider "bs = []" | a where "bs = [a]" | a b where "bs = [a, b]"
    | a b c r where "bs = a # b # c # r"
    by (metis list.exhaust)
  then show ?case
  proof cases
    case 1
    then show ?thesis by (simp add: encode_tail_def e)
  next
    case (2 a)
    then have "encode_bytes bs [] = encode_chars (take 2 (encode_group a 0 0)) @ CHR ''='' # [CHR ''='']"
      by (simp add: encode_array_def encode_tail_def Let_def numeral_2_eq_2)
    then show ?thesis
      using 2 by (simp only: p e) (simp add: n)
  next
    case (3 a b)
    then have "encode_bytes bs [] = encode_chars (take 3 (encode_group a b 0)) @ CHR ''='' # []"
      by (simp add: encode_array_def encode_tail_def Let_def numeral_2_eq_2 numeral_3_eq_3)
    then show ?thesis
      using 3 by (simp only: p e) (simp add: n)
  next
    case (4 a b c r)
    have "encode_bytes bs [] = encode_chars (take 4 (encode_group a b c)) @ encode_bytes r []"
      unfolding 4 by (simp add: Let_def encode_array_def encode_group_def)
    then show ?thesis
      using 4 less [of r] by (simp only: p length_append n) simp
  qed
qed

text \<open>
  C29: Encoding the first \<open>n\<close> bytes of a memory, \<open>n\<close> any number an \<^verbatim>\<open>unsigned int\<close> holds, gives a text, and
  decoding the text gives these bytes back, padding included, exactly as long as the \<open>(4 n + 2) div 3\<close>
  characters before the padding are fewer than \<open>2^31\<close>; from then on the index of the decoder overflows.
\<close>

theorem base64_round_trip:
  assumes "length bytes < 2 ^ 32"
  shows "\<exists>t. base64Encode (bytes @ behind) (of_nat (length bytes)) = Inr t \<and>
    base64Decode t = (if (4 * length bytes + 2) div 3 < 2 ^ 31 then Inr bytes else Inl SignedOverflow)"
proof -
  have "int ((4 * length bytes + 2) div 3) < 2 ^ 31 \<longleftrightarrow> (4 * length bytes + 2) div 3 < 2 ^ 31"
    by (rule of_nat_less_numeral_power_cancel_iff)
  then show ?thesis
    by (intro exI [of _ "encode_bytes bytes []"])
      (simp only: base64Encode_def base64Decode_def encode_loop_bytes [OF assms] decode_loop_text [of 0, simplified]
        alphabet_prefix_encoded decode_encode_bytes append_Nil, simp)
qed

theorem base64_round_trip_witness:
  "\<exists>t. base64Encode [77, 97, 0, 255] 4 = Inr t \<and> base64Decode t = Inr [77, 97, 0, 255]"
  using base64_round_trip [of "[77, 97, 0, 255]" "[]"] by simp

end
