(* ===== verification/Util.thy ===== *)
theory Util
  imports Prelude
begin

text \<open>
  Model of \<^verbatim>\<open>src/src/components/utilities/util.cpp\<close>: the comparison \<^verbatim>\<open>areEquivalent\<close> on C strings,
  with its 64-bit countdown, and the two functions that split a \<^verbatim>\<open>std::string\<close>. \<^verbatim>\<open>sleep\<close> and
  \<^verbatim>\<open>printChar\<close> are input and output only and have no model.
\<close>

section \<open>Comparing C strings\<close>

lemma unat_minus_one_eq: "unat (- 1 :: u64) = 2 ^ 64 - 1"
  by (simp only: unsigned_minus_1_eq_mask mask_eq_exp_minus_1 len_bit0 len_num1) simp

fun areEquivalent_loop :: "string \<Rightarrow> string \<Rightarrow> u64 \<Rightarrow> bool" where
  "areEquivalent_loop [] s2 processing = True"
| "areEquivalent_loop (c # s1) s2 processing =
     (let processing = processing - 1
      in if processing \<noteq> 0 \<and> c \<noteq> NUL \<and> deref s2 \<noteq> NUL then
           (if toupper c \<noteq> toupper (deref s2) then False
            else areEquivalent_loop s1 (tl s2) processing)
         else True)"

definition areEquivalent :: "string \<Rightarrow> string \<Rightarrow> u64 \<Rightarrow> bool" where
  "areEquivalent s1 s2 maxChars = areEquivalent_loop s1 s2 maxChars"

lemma areEquivalent_loop_spec:
  "NUL \<notin> set s1 \<Longrightarrow> NUL \<notin> set s2 \<Longrightarrow> length s1 < unat (processing - 1) \<Longrightarrow>
     areEquivalent_loop s1 s2 processing \<longleftrightarrow>
     prefix (map toupper s1) (map toupper s2) \<or> prefix (map toupper s2) (map toupper s1)"
proof (induction s1 arbitrary: s2 processing)
  case (Cons c s1)
  have nz: "processing - 1 \<noteq> 0"
    using Cons.prems(3) by (metis less_nat_zero_code unat_eq_zero)
  then have "unat (processing - 1 - 1) = unat (processing - 1) - 1"
    by (rule unat_minus_one)
  with Cons.prems have len: "length s1 < unat (processing - 1 - 1)"
    by simp
  show ?case
  proof (cases s2)
    case Nil
    then show ?thesis by (simp add: Let_def)
  next
    case (Cons d s2')
    then show ?thesis
      using Cons.IH [of s2' "processing - 1"] Cons.prems len nz by (auto simp: Let_def)
  qed
qed simp

section \<open>Splitting strings\<close>

text \<open>\<^verbatim>\<open>std::getline\<close>: fails on an exhausted stream, else takes up to the delimiter and drops it.\<close>

definition getline :: "string \<Rightarrow> char \<Rightarrow> (string \<times> string) option" where
  "getline s delim =
     (if s = [] then None
      else Some (takeWhile (\<lambda>c. c \<noteq> delim) s, tl (dropWhile (\<lambda>c. c \<noteq> delim) s)))"

function split :: "string \<Rightarrow> char \<Rightarrow> string list" where
  "split s delim =
     (case getline s delim of None \<Rightarrow> [] | Some (item, rest) \<Rightarrow> item # split rest delim)"
  by pat_completeness auto

termination
proof (relation "measure (\<lambda>(s, _). length s)")
  fix s delim p item rest
  assume "getline s delim = Some p" and "(item, rest) = p"
  then have "s \<noteq> []" and rest: "rest = tl (dropWhile (\<lambda>c. c \<noteq> delim) s)"
    by (auto simp: getline_def split: if_splits)
  have "length (dropWhile (\<lambda>c. c \<noteq> delim) s) \<le> length s"
    by (rule length_dropWhile_le)
  with \<open>s \<noteq> []\<close> have "length rest < length s"
    unfolding rest length_tl length_greater_0_conv [symmetric] by linarith
  then show "((rest, delim), s, delim) \<in> measure (\<lambda>(s, _). length s)" by simp
qed simp

declare split.simps [simp del]

definition split_on_first :: "string \<Rightarrow> char \<Rightarrow> string list" where
  "split_on_first s delim =
     (if delim \<in> set s
      then [takeWhile (\<lambda>c. c \<noteq> delim) s, tl (dropWhile (\<lambda>c. c \<noteq> delim) s)]
      else [s, []])"

lemma split_Nil [simp]: "split [] d = []"
  by (subst split.simps) (simp add: getline_def)

lemma split_word: "d \<notin> set t \<Longrightarrow> split (t @ d # s) d = t # split s d"
proof -
  assume "d \<notin> set t"
  then have "takeWhile (\<lambda>c. c \<noteq> d) (t @ d # s) = t" and "dropWhile (\<lambda>c. c \<noteq> d) (t @ d # s) = d # s"
    by (induction t) auto
  then show ?thesis
    by (subst split.simps) (simp add: getline_def)
qed

lemma split_last: "d \<notin> set t \<Longrightarrow> t \<noteq> [] \<Longrightarrow> split t d = [t]"
proof -
  assume "d \<notin> set t" and "t \<noteq> []"
  then have "takeWhile (\<lambda>c. c \<noteq> d) t = t" "dropWhile (\<lambda>c. c \<noteq> d) t = []"
    by (auto simp: takeWhile_eq_all_conv dropWhile_eq_Nil_conv)
  with \<open>t \<noteq> []\<close> show ?thesis
    by (subst split.simps) (simp only: getline_def if_False option.case prod.case list.sel split_Nil)
qed

text \<open>Putting the delimiters back, as the inverse of \<^const>\<open>split\<close>.\<close>

fun join :: "char \<Rightarrow> string list \<Rightarrow> string" where
  "join d [] = []"
| "join d [w] = w"
| "join d (w # v # ws) = w @ d # join d (v # ws)"

lemma split_join:
  "\<forall>w \<in> set ws. d \<notin> set w \<Longrightarrow> ws = [] \<or> last ws \<noteq> [] \<Longrightarrow> split (join d ws) d = ws"
  by (induction d ws rule: join.induct) (auto simp: split_last split_word)

lemma join_split:
  "join d (split s d) = (if s \<noteq> [] \<and> last s = d then butlast s else s)"
proof (induction "length s" arbitrary: s rule: less_induct)
  case less
  show ?case
  proof (cases "d \<in> set s")
    case False
    then show ?thesis
      by (cases "s = []") (auto simp: split_last)
  next
    case True
    then obtain t r where s: "s = t @ d # r" "d \<notin> set t"
      using split_list_first by fastforce
    have IH: "join d (split r d) = (if r \<noteq> [] \<and> last r = d then butlast r else r)"
      using less [of r] s by simp
    show ?thesis
    proof (cases r)
      case Nil
      then show ?thesis using s by (simp add: split_word butlast_append)
    next
      case (Cons c r')
      then obtain w ws where w: "split r d = w # ws"
        by (subst (asm) split.simps) (auto simp: getline_def)
      then have "join d (split s d) = t @ d # join d (split r d)"
        using s by (simp add: split_word)
      then show ?thesis
        using IH s Cons by (auto simp: butlast_append)
    qed
  qed
qed

text \<open>
  With the default limit, \<^verbatim>\<open>areEquivalent\<close> is not equality of two C strings up to letter case
  but accepts exactly the pairs where one is, up to letter case, a prefix of the other: the loop ends
  with \<^verbatim>\<open>true\<close> at the first terminator of either. (The limit 0 wraps to 2^64 - 1 characters.)
\<close>

theorem areEquivalent_prefix:
  assumes "NUL \<notin> set s1" and "NUL \<notin> set s2" and "length s1 < 2 ^ 64 - 1"
  shows "areEquivalent s1 s2 0 \<longleftrightarrow>
    prefix (map toupper s1) (map toupper s2) \<or> prefix (map toupper s2) (map toupper s1)"
  unfolding areEquivalent_def
  by (rule areEquivalent_loop_spec) (use assms in \<open>simp_all add: unat_minus_one_eq\<close>)

theorem areEquivalent_prefix_witness:
  "areEquivalent ''cseq'' ''CSeq-Extra'' 0 \<longleftrightarrow>
    prefix (map toupper ''cseq'') (map toupper ''CSeq-Extra'') \<or>
    prefix (map toupper ''CSeq-Extra'') (map toupper ''cseq'')"
  by (rule areEquivalent_prefix) simp_all

end
