(* ===== verification/StdMap.thy ===== *)
theory StdMap
  imports Prelude "HOL-Library.List_Lexorder" "HOL-Library.Char_ord"
begin

text \<open>
  \<^verbatim>\<open>std::map\<close> as the code uses it: an association list in ascending key order, with \<^verbatim>\<open>find\<close>
  (\<^const>\<open>map_of\<close>), assignment through \<^verbatim>\<open>operator[]\<close>, \<^verbatim>\<open>insert\<close> (which keeps an existing entry)
  and iteration in key order (the list itself). Strings are compared as \<^verbatim>\<open>std::string\<close> compares
  them, by unsigned byte.
\<close>

type_synonym ('k, 'v) std_map = "('k \<times> 'v) list"

definition std_wf :: "('k::linorder, 'v) std_map \<Rightarrow> bool" where
  "std_wf m \<longleftrightarrow> sorted_wrt (<) (map fst m)"

fun std_put :: "'k::linorder \<Rightarrow> 'v \<Rightarrow> ('k, 'v) std_map \<Rightarrow> ('k, 'v) std_map" where
  "std_put k v [] = [(k, v)]"
| "std_put k v ((a, b) # m) =
     (if k < a then (k, v) # (a, b) # m
      else if k = a then (k, v) # m
      else (a, b) # std_put k v m)"

definition std_insert :: "'k::linorder \<Rightarrow> 'v \<Rightarrow> ('k, 'v) std_map \<Rightarrow> ('k, 'v) std_map" where
  "std_insert k v m = (if map_of m k = None then std_put k v m else m)"

text \<open>The contract the components rely on.\<close>

locale ordered_map =
  fixes lookup :: "'m \<Rightarrow> 'k::linorder \<Rightarrow> 'v option"
    and put :: "'k \<Rightarrow> 'v \<Rightarrow> 'm \<Rightarrow> 'm"
    and ins :: "'k \<Rightarrow> 'v \<Rightarrow> 'm \<Rightarrow> 'm"
    and elems :: "'m \<Rightarrow> ('k \<times> 'v) list"
    and wf :: "'m \<Rightarrow> bool"
  assumes lookup_put: "lookup (put k v m) = (lookup m)(k \<mapsto> v)"
    and lookup_ins: "lookup (ins k v m) = (if lookup m k = None then (lookup m)(k \<mapsto> v) else lookup m)"
    and wf_put: "wf m \<Longrightarrow> wf (put k v m)"
    and wf_ins: "wf m \<Longrightarrow> wf (ins k v m)"
    and elems_sorted: "wf m \<Longrightarrow> sorted_wrt (<) (map fst (elems m))"
    and elems_lookup: "wf m \<Longrightarrow> (k, v) \<in> set (elems m) \<longleftrightarrow> lookup m k = Some v"
begin

lemma lookup_put_same [simp]: "lookup (put k v m) k = Some v"
  by (simp add: lookup_put)

lemma lookup_put_other [simp]: "j \<noteq> k \<Longrightarrow> lookup (put k v m) j = lookup m j"
  by (simp add: lookup_put)

lemma ins_keeps: "lookup m j = Some w \<Longrightarrow> lookup (ins k v m) j = Some w"
  by (auto simp: lookup_ins)

lemma ins_new: "lookup m k = None \<Longrightarrow> lookup (ins k v m) k = Some v"
  by (simp add: lookup_ins)

lemma ins_idem: "lookup (ins k v' (ins k v m)) = lookup (ins k v m)"
  by (simp add: lookup_ins)

lemma elems_distinct: "wf m \<Longrightarrow> distinct (map fst (elems m))"
  by (frule elems_sorted) (simp add: strict_sorted_iff)

lemma elems_put:
  "wf m \<Longrightarrow> (j, w) \<in> set (elems (put k v m)) \<longleftrightarrow> (if j = k then w = v else (j, w) \<in> set (elems m))"
  by (auto simp: elems_lookup wf_put lookup_put)

end

lemma map_of_std_put [simp]: "map_of (std_put k v m) = (map_of m)(k \<mapsto> v)"
  by (induction k v m rule: std_put.induct) (auto simp: fun_eq_iff)

lemma set_fst_std_put: "fst ` set (std_put k v m) = insert k (fst ` set m)"
  by (induction k v m rule: std_put.induct) auto

lemma std_wf_put: "std_wf m \<Longrightarrow> std_wf (std_put k v m)"
proof (induction k v m rule: std_put.induct)
  case (2 k v a b m)
  then show ?case
    using set_fst_std_put [of k v m] by (fastforce simp: std_wf_def)
qed (simp add: std_wf_def)

lemma std_wf_distinct: "std_wf m \<Longrightarrow> distinct (map fst m)"
  by (simp add: std_wf_def strict_sorted_iff)

interpretation sm: ordered_map map_of std_put std_insert "\<lambda>m. m" std_wf
  by unfold_locales
    (auto simp: std_insert_def std_wf_put std_wf_distinct std_wf_def [symmetric]
      dest: std_wf_distinct)

lemmas std_map_simps = sm.lookup_put sm.lookup_ins

lemma std_wf_Nil [simp]: "std_wf []"
  by (simp add: std_wf_def)

end
