(* ===== verification/XmlParsing.thy ===== *)
theory XmlParsing
  imports Util StdMap
begin

text \<open>
  Model of \<^verbatim>\<open>src/src/components/utilities/XmlDocument.cpp\<close>. The parser walks over the memory \<open>m\<close> the
  document is in; a pointer is an offset, \<open>n\<close> the number of bytes given. The code reads up to and
  including the byte at \<open>n\<close>, the terminator of a C string, so the memory may be longer; an access
  behind it is a fault. What it prints on the error stream is left out.
\<close>

section \<open>Reading characters\<close>

definition at :: "string \<Rightarrow> nat \<Rightarrow> char outcome" where
  "at m i = (if i < length m then Inr (m ! i) else Inl OutOfBounds)"

abbreviation line_end :: "char \<Rightarrow> bool" where
  "line_end c \<equiv> c = LF \<or> c = CR"

lemma bindO_cong [fundef_cong]: "m = m' \<Longrightarrow> (\<And>x. m' = Inr x \<Longrightarrow> f x = g x) \<Longrightarrow> bindO m f = bindO m' g"
  by (cases m') simp_all

text \<open>The loop at the start of \<^verbatim>\<open>read\<close> and \<^verbatim>\<open>lookAhead\<close>.\<close>

function skip_loop :: "string \<Rightarrow> nat \<Rightarrow> bool \<Rightarrow> nat \<Rightarrow> nat outcome" where
  "skip_loop m n skipSpaces i =
     (if n < i then Inr i
      else bindO (at m i) (\<lambda>c. if line_end c \<or> skipSpaces \<and> c = CHR '' '' then skip_loop m n skipSpaces (Suc i) else Inr i))"
  by pat_completeness auto
termination
  by (relation "measure (\<lambda>(m, n, _, i). Suc n - i)") auto

definition xml_read :: "string \<Rightarrow> nat \<Rightarrow> bool \<Rightarrow> nat \<Rightarrow> (nat option \<times> nat) outcome" where
  "xml_read m n skipSpaces i = bindO (skip_loop m n skipSpaces i) (\<lambda>j.
     Inr (if j \<le> n then (Some j, Suc j) else (None, j)))"

definition lookAhead :: "string \<Rightarrow> nat \<Rightarrow> nat \<Rightarrow> char outcome" where
  "lookAhead m n i = bindO (skip_loop m n False i) (\<lambda>j. if j \<le> n then at m j else Inr NUL)"

function white_loop :: "string \<Rightarrow> nat \<Rightarrow> nat \<Rightarrow> nat outcome" where
  "white_loop m n i =
     (if n < i then Inr i
      else bindO (at m i) (\<lambda>c. if line_end c \<or> isspace c then white_loop m n (Suc i) else Inr i))"
  by pat_completeness auto
termination
  by (relation "measure (\<lambda>(m, n, i). Suc n - i)") auto

text \<open>White space is skipped up to its last character, where the pointer stays.\<close>

definition skipWhiteSpace :: "string \<Rightarrow> nat \<Rightarrow> nat \<Rightarrow> nat outcome" where
  "skipWhiteSpace m n i =
     bindO (at m i) (\<lambda>c. if isspace c then bindO (white_loop m n i) (\<lambda>j. Inr (j - 1)) else Inr i)"

fun back_loop :: "string \<Rightarrow> nat \<Rightarrow> nat outcome" where
  "back_loop m 0 = Inr 0"
| "back_loop m (Suc i) = bindO (at m (Suc i)) (\<lambda>c. if line_end c then back_loop m i else Inr (Suc i))"

definition unread :: "string \<Rightarrow> nat \<Rightarrow> nat outcome" where
  "unread m i = bindO (back_loop m i) (\<lambda>j. Inr (j - 1))"

declare skip_loop.simps [simp del] white_loop.simps [simp del]

lemma skip_loop_ge: "skip_loop m n sp i = Inr j \<Longrightarrow> i \<le> j"
proof (induction m n sp i rule: skip_loop.induct)
  case (1 m n sp i)
  show ?case
  proof (cases "n < i")
    case True
    then show ?thesis using "1.prems" by (simp add: skip_loop.simps [of m n])
  next
    case False
    then obtain c where c: "at m i = Inr c"
      using "1.prems" by (subst (asm) skip_loop.simps) (auto simp: bindO_eq_Inr_iff)
    then show ?thesis
      using "1.IH" [OF False c] "1.prems" False by (subst (asm) skip_loop.simps) (auto split: if_splits)
  qed
qed

lemma xml_read_advances: "xml_read m n sp i = Inr (Some p, j) \<Longrightarrow> i \<le> p \<and> p \<le> n \<and> j = Suc p"
  by (auto simp: xml_read_def bindO_eq_Inr_iff dest: skip_loop_ge split: if_splits)

section \<open>Values and properties\<close>

text \<open>
  The loop of \<^verbatim>\<open>readValue\<close>: where the value starts and ends, if it does, and the pointer. A backslash only
  sets a flag nothing reads.
\<close>

function value_loop :: "string \<Rightarrow> nat \<Rightarrow> char \<Rightarrow> bool \<Rightarrow> nat \<Rightarrow> nat option \<Rightarrow> bool \<Rightarrow>
    (nat option \<times> nat option \<times> nat) outcome" where
  "value_loop m n termChar allowSpaces i pStart isQuoted =
     bindO (xml_read m n False i) (\<lambda>(p, j).
       case p of
         None \<Rightarrow> Inr (pStart, None, j)
       | Some p \<Rightarrow>
           bindO (at m p) (\<lambda>c.
           bindO (if c = termChar then lookAhead m n j else Inr NUL) (\<lambda>ahead.
             let pStart = (case pStart of None \<Rightarrow> Some p | Some s \<Rightarrow> Some s)
             in if c = CHR ''>'' \<or> c = CHR ''<'' then bindO (unread m j) (\<lambda>j. Inr (pStart, Some j, j))
                else if c = termChar \<and> ahead = CHR ''>'' then Inr (pStart, Some (j - 1), j)
                else if c = CHR 0x5C then value_loop m n termChar allowSpaces j pStart isQuoted
                else if c = QUOTE then value_loop m n termChar allowSpaces j pStart (\<not> isQuoted)
                else if isspace c \<and> \<not> isQuoted \<and> \<not> allowSpaces then bindO (unread m j) (\<lambda>j. Inr (pStart, Some j, j))
                else value_loop m n termChar allowSpaces j pStart isQuoted)))"
  by pat_completeness auto
termination
  by (relation "measure (\<lambda>(m, n, _, _, i, _). Suc n - i)") (auto dest!: xml_read_advances)

text \<open>
  \<^verbatim>\<open>std::string(pStart, pEnd - pStart)\<close>: a negative length, or that from a pointer to null, is too large for
  a string.
\<close>

definition text_between :: "string \<Rightarrow> nat option \<Rightarrow> nat option \<Rightarrow> string outcome" where
  "text_between m pStart pEnd =
     (case (pStart, pEnd) of
        (Some s, Some e) \<Rightarrow> (if e < s then Inl Uncaught else Inr (take (e - s) (drop s m)))
      | (None, None) \<Rightarrow> Inr []
      | _ \<Rightarrow> Inl Uncaught)"

definition xml_readValue :: "string \<Rightarrow> nat \<Rightarrow> char \<Rightarrow> bool \<Rightarrow> nat \<Rightarrow> (string \<times> nat) outcome" where
  "xml_readValue m n termChar allowSpaces i =
     bindO (skipWhiteSpace m n i) (\<lambda>i.
     bindO (value_loop m n termChar allowSpaces i None False) (\<lambda>(pStart, pEnd, i).
     bindO (text_between m pStart pEnd) (\<lambda>t. Inr (t, i))))"

text \<open>The loop of \<^verbatim>\<open>parseProperty\<close>; its end is not set when the characters run out.\<close>

function property_loop :: "string \<Rightarrow> nat \<Rightarrow> char \<Rightarrow> nat \<Rightarrow> bool \<Rightarrow> bool \<Rightarrow> (nat option \<times> nat) outcome" where
  "property_loop m n termChar i quoted escaped =
     bindO (xml_read m n False i) (\<lambda>(p, j).
       case p of
         None \<Rightarrow> Inr (None, j)
       | Some p \<Rightarrow>
           bindO (at m p) (\<lambda>c.
           bindO (if c = termChar then lookAhead m n j else Inr NUL) (\<lambda>ahead.
             if c = CHR ''>'' \<or> c = termChar \<and> ahead = CHR ''>'' then bindO (unread m j) (\<lambda>k. Inr (Some (j - 1), k))
             else if c = CHR 0x5C then property_loop m n termChar j quoted (\<not> escaped)
             else if c = QUOTE then property_loop m n termChar j (if escaped then quoted else \<not> quoted) escaped
             else if isspace c \<and> \<not> quoted then Inr (Some p, j)
             else property_loop m n termChar j quoted escaped)))"
  by pat_completeness auto
termination
  by (relation "measure (\<lambda>(m, n, _, i, _). Suc n - i)") (auto dest!: xml_read_advances)

declare value_loop.simps [simp del] property_loop.simps [simp del]

definition unquote :: "string \<Rightarrow> string" where
  "unquote v =
     (let front = (if v \<noteq> [] \<and> hd v = QUOTE then 1 else 0); back = (if v \<noteq> [] \<and> last v = QUOTE then 1 else 0)
      in take (length v - (front + back)) (drop front v))"

definition parseProperty :: "string \<Rightarrow> nat \<Rightarrow> char \<Rightarrow> nat \<Rightarrow> ((string \<times> string) option \<times> nat) outcome" where
  "parseProperty m n termChar i =
     bindO (xml_read m n True i) (\<lambda>(p, j).
       case p of
         None \<Rightarrow> Inl NullDeref
       | Some p \<Rightarrow>
           bindO (at m p) (\<lambda>c.
           bindO (if c = termChar then lookAhead m n j else Inr NUL) (\<lambda>ahead.
             if c = CHR ''>'' \<or> c = termChar \<and> ahead = CHR ''>'' then bindO (unread m j) (\<lambda>k. Inr (None, k))
             else bindO (property_loop m n termChar j False False) (\<lambda>(pEnd, k).
               case pEnd of
                 None \<Rightarrow> Inl Indeterminate
               | Some e \<Rightarrow> bindO (text_between m (Some p) (Some e)) (\<lambda>kvp.
                   case split_on_first kvp (CHR ''='') of
                     [name, v] \<Rightarrow> Inr (Some (name, unquote v), k)
                   | _ \<Rightarrow> Inr (None, k))))))"

section \<open>Nodes\<close>

type_synonym properties = "(string, string) std_map"

datatype xml_node = XmlNode (nodeValid: bool) (nodeName: string) (nodeValue: string) (nodeDepth: u16)
  (nodeProperties: properties) (subNodes: "xml_node list")

text \<open>Whether the loops below return is a property, so what they give is an option.\<close>

type_synonym 'a parsing = "('a \<times> nat) outcome option"

abbreviation then_parse :: "'a parsing \<Rightarrow> ('a \<Rightarrow> nat \<Rightarrow> 'b parsing) \<Rightarrow> 'b parsing" where
  "then_parse p f \<equiv> Option.bind p (\<lambda>r. case r of Inl e \<Rightarrow> Some (Inl e) | Inr (x, i) \<Rightarrow> f x i)"

partial_function (option) parseProperties :: "string \<Rightarrow> nat \<Rightarrow> char \<Rightarrow> nat \<Rightarrow> properties \<Rightarrow> properties parsing" where
  "parseProperties m n termChar i props =
     (case parseProperty m n termChar i of
        Inl e \<Rightarrow> Some (Inl e)
      | Inr (None, i) \<Rightarrow> Some (Inr (props, i))
      | Inr (Some (name, v), i) \<Rightarrow> parseProperties m n termChar i (std_insert name v props))"

text \<open>The start of \<^verbatim>\<open>parseNode\<close>: no node, or the terminating character and the name.\<close>

definition node_head :: "string \<Rightarrow> nat \<Rightarrow> nat \<Rightarrow> ((char \<times> string) option \<times> nat) outcome" where
  "node_head m n i =
     bindO (skipWhiteSpace m n i) (\<lambda>i.
     bindO (xml_read m n True i) (\<lambda>(p, i).
       case p of
         None \<Rightarrow> Inl NullDeref
       | Some p \<Rightarrow>
           bindO (at m p) (\<lambda>c.
             if c \<noteq> CHR ''<'' then Inr (None, i)
             else bindO (lookAhead m n i) (\<lambda>ahead.
               if ahead = CHR ''?'' then
                 bindO (xml_read m n False i) (\<lambda>(_, i).
                 bindO (xml_readValue m n (CHR ''?'') False i) (\<lambda>(name, i). Inr (Some (CHR ''?'', name), i)))
               else if ahead \<noteq> CHR ''/'' then
                 bindO (xml_readValue m n (CHR ''/'') False i) (\<lambda>(name, i). Inr (Some (CHR ''/'', name), i))
               else bindO (unread m i) (\<lambda>i. Inr (None, i))))))"

datatype node_body = NoBody bool | BodyNodes | BodyText

definition node_middle :: "string \<Rightarrow> nat \<Rightarrow> char \<Rightarrow> nat \<Rightarrow> (node_body \<times> nat) outcome" where
  "node_middle m n termChar i =
     bindO (skipWhiteSpace m n i) (\<lambda>i.
     bindO (xml_read m n False i) (\<lambda>(p, i).
       case p of
         None \<Rightarrow> Inl NullDeref
       | Some p \<Rightarrow>
           bindO (at m p) (\<lambda>c.
           bindO (if c = termChar then lookAhead m n i else Inr NUL) (\<lambda>ahead.
             if c = termChar \<and> ahead = CHR ''>'' then
               bindO (xml_read m n False i) (\<lambda>(q, i).
                 case q of None \<Rightarrow> Inl NullDeref | Some q \<Rightarrow> bindO (at m q) (\<lambda>c. Inr (NoBody (c = CHR ''>''), i)))
             else if c = CHR ''>'' then
               bindO (skipWhiteSpace m n i) (\<lambda>i.
               bindO (lookAhead m n i) (\<lambda>ahead. Inr (if ahead = CHR ''<'' then BodyNodes else BodyText, i)))
             else Inr (NoBody False, i)))))"

text \<open>The closing tag: whether it is the one of the node.\<close>

definition node_tail :: "string \<Rightarrow> nat \<Rightarrow> string \<Rightarrow> nat \<Rightarrow> (bool \<times> nat) outcome" where
  "node_tail m n name i =
     bindO (xml_read m n False i) (\<lambda>(p, i).
       case p of
         None \<Rightarrow> Inl NullDeref
       | Some p \<Rightarrow>
           bindO (at m p) (\<lambda>c.
           bindO (if c = CHR ''<'' then
                    bindO (xml_read m n False i) (\<lambda>(q, i).
                      case q of None \<Rightarrow> Inl NullDeref | Some q \<Rightarrow> bindO (at m q) (\<lambda>c. Inr (c = CHR ''/'', i)))
                  else Inr (False, i)) (\<lambda>(closing, i).
           bindO (if closing then bindO (xml_readValue m n NUL False i) (\<lambda>(endTag, i). Inr (name = endTag, i))
                  else Inr (False, i)) (\<lambda>(valid, i).
           bindO (xml_read m n False i) (\<lambda>(_, i). Inr (valid, i))))))"

abbreviation no_node :: "u16 \<Rightarrow> xml_node" where
  "no_node depth \<equiv> XmlNode False [] [] depth [] []"

abbreviation close_node :: "string \<Rightarrow> nat \<Rightarrow> u16 \<Rightarrow> string \<Rightarrow> properties \<Rightarrow> string \<Rightarrow> xml_node list \<Rightarrow> nat \<Rightarrow> xml_node parsing" where
  "close_node m n depth name props v nodes i \<equiv>
     Some (bindO (node_tail m n name i) (\<lambda>(valid, i). Inr (XmlNode valid name v depth props nodes, i)))"

text \<open>\<^verbatim>\<open>parseNode\<close>; \<open>sub\<close> is the loop over the nodes within it.\<close>

abbreviation parse_node_with :: "(u16 \<Rightarrow> nat \<Rightarrow> xml_node list parsing) \<Rightarrow> string \<Rightarrow> nat \<Rightarrow> u16 \<Rightarrow> nat \<Rightarrow> xml_node parsing" where
  "parse_node_with sub m n depth i \<equiv>
     then_parse (Some (node_head m n i)) (\<lambda>h i.
       case h of
         None \<Rightarrow> Some (Inr (no_node depth, i))
       | Some (termChar, name) \<Rightarrow>
           then_parse (parseProperties m n termChar i []) (\<lambda>props i.
           then_parse (Some (node_middle m n termChar i)) (\<lambda>body i.
             case body of
               NoBody valid \<Rightarrow> Some (Inr (XmlNode valid name [] depth props [], i))
             | BodyNodes \<Rightarrow> then_parse (sub (depth + 1) i) (\<lambda>nodes i. close_node m n depth name props [] nodes i)
             | BodyText \<Rightarrow> then_parse (Some (xml_readValue m n NUL True i)) (\<lambda>v i. close_node m n depth name props v [] i))))"

text \<open>The loop over nodes at one depth, up to the first that is none.\<close>

partial_function (option) parse_nodes :: "string \<Rightarrow> nat \<Rightarrow> u16 \<Rightarrow> nat \<Rightarrow> xml_node list parsing" where
  "parse_nodes m n depth i =
     then_parse (parse_node_with (parse_nodes m n) m n depth i) (\<lambda>node i.
       if nodeValid node then then_parse (parse_nodes m n depth i) (\<lambda>nodes i. Some (Inr (node # nodes, i)))
       else Some (Inr ([], i)))"

definition parseNode :: "string \<Rightarrow> nat \<Rightarrow> u16 \<Rightarrow> nat \<Rightarrow> xml_node parsing" where
  "parseNode m n depth i = parse_node_with (parse_nodes m n) m n depth i"

record xml_document =
  xmlValid :: bool
  xmlRoot :: xml_node

text \<open>\<^verbatim>\<open>parse\<close>: the nodes go under an unnamed root; the document is valid when there is one.\<close>

definition xml_parse :: "string \<Rightarrow> nat \<Rightarrow> nat \<Rightarrow> xml_document outcome option" where
  "xml_parse m n i = map_option (\<lambda>r. bindO r (\<lambda>(nodes, _).
     Inr \<lparr>xmlValid = nodes \<noteq> [], xmlRoot = XmlNode False [] [] 0 [] nodes\<rparr>)) (parse_nodes m n 0 i)"

definition XmlDocument :: "string \<Rightarrow> nat \<Rightarrow> xml_document outcome option" where
  "XmlDocument m n = xml_parse m n 0"

section \<open>Looking up\<close>

abbreviation node_named :: "string \<Rightarrow> xml_node \<Rightarrow> xml_node option" where
  "node_named name node \<equiv> find (\<lambda>n. nodeName n = name) (subNodes node)"

fun value_at :: "string list \<Rightarrow> xml_node \<Rightarrow> string \<Rightarrow> string" where
  "value_at [] node dflt = dflt"
| "value_at [e] node dflt =
     (case map_of (nodeProperties node) e of
        Some v \<Rightarrow> v
      | None \<Rightarrow> (case node_named e node of Some n \<Rightarrow> nodeValue n | None \<Rightarrow> dflt))"
| "value_at (e # es) node dflt = (case node_named e node of None \<Rightarrow> dflt | Some n \<Rightarrow> value_at es n dflt)"

definition getValue :: "string \<Rightarrow> string \<Rightarrow> xml_document \<Rightarrow> string" where
  "getValue path dflt doc = value_at (split path (CHR ''.'')) (xmlRoot doc) dflt"

text \<open>
  \<^verbatim>\<open>getProperties\<close> never resets the flag that a node was found and does not set it at first: an element
  that is not there is passed over when one before it was.
\<close>

definition with_values :: "xml_node \<Rightarrow> properties" where
  "with_values node = fold (\<lambda>n. if nodeValue n \<noteq> [] then std_insert (nodeName n) (nodeValue n) else id)
     (subNodes node) (nodeProperties node)"

fun properties_at :: "string list \<Rightarrow> bool \<Rightarrow> xml_node \<Rightarrow> properties outcome" where
  "properties_at [] found node = Inr []"
| "properties_at (e # es) found node =
     (let (found, node) = (case node_named e node of Some n \<Rightarrow> (True, n) | None \<Rightarrow> (found, node))
      in if \<not> found then Inl Indeterminate
         else if es = [] then Inr (with_values node)
         else properties_at es found node)"

definition getProperties :: "string \<Rightarrow> xml_document \<Rightarrow> properties outcome" where
  "getProperties path doc = properties_at (split path (CHR ''.'')) False (xmlRoot doc)"

section \<open>One character at a time\<close>

lemma at_drop: "drop i m = c # s \<Longrightarrow> at m i = Inr c" "drop i m = c # s \<Longrightarrow> drop (Suc i) m = s"
  by (simp_all add: at_def nth_via_drop) (metis drop_eq_Nil list.discI not_le_imp_less, metis drop_Suc drop_tl list.sel(3))

lemma skip_here: "drop i m = c # s \<Longrightarrow> \<not> line_end c \<Longrightarrow> (sp \<longrightarrow> c \<noteq> CHR '' '') \<Longrightarrow> skip_loop m n sp i = Inr i"
  by (subst skip_loop.simps) (auto simp: at_drop)

lemma skip_space: "drop i m = CHR '' '' # s \<Longrightarrow> i \<le> n \<Longrightarrow> skip_loop m n True i = skip_loop m n True (Suc i)"
  by (subst skip_loop.simps) (simp add: at_drop)

lemma read_here: "drop i m = c # s \<Longrightarrow> i \<le> n \<Longrightarrow> \<not> line_end c \<Longrightarrow> (sp \<longrightarrow> c \<noteq> CHR '' '') \<Longrightarrow>
    xml_read m n sp i = Inr (Some i, Suc i)"
  by (simp add: xml_read_def skip_here)

lemma read_after_space: "drop i m = CHR '' '' # c # s \<Longrightarrow> i < n \<Longrightarrow> \<not> line_end c \<Longrightarrow> c \<noteq> CHR '' '' \<Longrightarrow>
    xml_read m n True i = Inr (Some (Suc i), Suc (Suc i))"
  by (simp add: xml_read_def skip_space skip_here [of "Suc i" m c s] at_drop(2))

lemma look_here: "drop i m = c # s \<Longrightarrow> i \<le> n \<Longrightarrow> \<not> line_end c \<Longrightarrow> lookAhead m n i = Inr c"
  by (simp add: lookAhead_def skip_here at_drop)

lemma white_here: "drop i m = c # s \<Longrightarrow> \<not> isspace c \<Longrightarrow> skipWhiteSpace m n i = Inr i"
  by (simp add: skipWhiteSpace_def at_drop)

lemma unread_here: "drop i m = c # s \<Longrightarrow> \<not> line_end c \<Longrightarrow> unread m i = Inr (i - 1)"
  by (cases i) (simp_all add: unread_def at_drop)

lemma unread_line: "drop i m = d # c # s \<Longrightarrow> line_end c \<Longrightarrow> \<not> line_end d \<Longrightarrow> unread m (Suc i) = Inr (i - 1)"
  by (cases i) (auto simp: unread_def at_drop)

definition plain_char :: "char \<Rightarrow> bool" where
  "plain_char c \<longleftrightarrow> \<not> isspace c \<and> c \<notin> {NUL, CHR ''<'', CHR ''>'', CHR ''/'', CHR ''?'', QUOTE, CHR 0x5C}"

lemma line_end_space: "line_end c \<Longrightarrow> isspace c"
  by (auto simp: isspace_def char_code_def)

lemma isspace_space [simp]: "isspace (CHR '' '')"
  by (simp add: isspace_def char_code_def)

lemma plain_line: "plain_char c \<Longrightarrow> \<not> line_end c \<and> c \<noteq> CHR '' ''"
  using line_end_space [of c] isspace_space unfolding plain_char_def by metis

lemma value_word:
  assumes "drop i m = w @ s" and "\<forall>c \<in> set w. plain_char c" and "i + length w \<le> Suc n"
    and "t \<in> {NUL, CHR ''/'', CHR ''?''}"
  shows "value_loop m n t allow i st q =
    value_loop m n t allow (i + length w) (if w = [] then st else Some (case st of None \<Rightarrow> i | Some x \<Rightarrow> x)) q"
  using assms(1-3)
proof (induction w arbitrary: i st)
  case (Cons c w)
  have c: "plain_char c" "drop i m = c # w @ s" "i \<le> n"
    using Cons.prems by simp_all
  have "c \<noteq> t" using c(1) assms(4) by (auto simp: plain_char_def)
  moreover have "xml_read m n False i = Inr (Some i, Suc i)" "at m i = Inr c"
    using read_here [OF c(2,3)] at_drop(1) [OF c(2)] plain_line [OF c(1)] by simp_all
  moreover have "c \<noteq> CHR ''>''" "c \<noteq> CHR ''<''" "c \<noteq> CHR 0x5C" "c \<noteq> QUOTE" "\<not> isspace c"
    using c(1) unfolding plain_char_def by simp_all
  ultimately have "value_loop m n t allow i st q = value_loop m n t allow (Suc i) (case st of None \<Rightarrow> Some i | Some x \<Rightarrow> Some x) q"
    by (simp only: value_loop.simps [of m n t allow i] bindO_Inr prod.case option.case if_False Let_def simp_thms)
  also have "\<dots> = value_loop m n t allow (Suc i) (Some (case st of None \<Rightarrow> i | Some x \<Rightarrow> x)) q"
    by (cases st) (simp_all only: option.case)
  also have "\<dots> = value_loop m n t allow (i + length (c # w)) (Some (case st of None \<Rightarrow> i | Some x \<Rightarrow> x)) q"
  proof -
    have "drop (Suc i) m = w @ s" "Suc i + length w \<le> Suc n" "\<forall>c \<in> set w. plain_char c"
      using at_drop(2) [OF c(2)] Cons.prems(2,3) by simp_all
    from Cons.IH [OF this(1,3,2), of "Some (case st of None \<Rightarrow> i | Some x \<Rightarrow> x)"] show ?thesis
      by (cases "w = []") (simp_all only: option.case if_True if_False list.size add_Suc_right add_Suc add_0_right)
  qed
  finally show ?case by (simp only: list.distinct if_False)
qed simp

lemma drop_word: "drop i m = w @ s \<Longrightarrow> drop (i + length w) m = s"
  by (metis append_eq_conv_conj drop_drop add.commute)

section \<open>A line break behind a tag\<close>

lemma split_on_first_pair: "\<exists>a b. split_on_first s d = [a, b]"
  by (simp add: split_on_first_def)

lemma property_before_line_break:
  assumes "drop i m = [c, CHR ''>'', LF] @ s" and "plain_char c" and "0 < i" and "Suc i \<le> n"
  shows "\<exists>k v. parseProperty m n (CHR ''/'') i = Inr (Some (k, v), i)"
proof -
  have 0: "drop i m = c # CHR ''>'' # LF # s" using assms(1) by simp
  have 1: "drop (Suc i) m = CHR ''>'' # LF # s" by (rule at_drop(2) [OF 0])
  have c: "c \<noteq> CHR ''>''" "c \<noteq> CHR ''/''" "\<not> line_end c" "c \<noteq> CHR '' ''"
    using assms(2) plain_line [OF assms(2)] by (auto simp: plain_char_def)
  have "property_loop m n (CHR ''/'') (Suc i) False False = Inr (Some (Suc i), i)"
    using assms(4) unread_line [OF 1] by (subst property_loop.simps) (simp add: read_here [OF 1] at_drop(1) [OF 1])
  moreover have "xml_read m n True i = Inr (Some i, Suc i)"
    using 0 c assms(4) by (intro read_here) simp_all
  moreover obtain a b where "split_on_first [c] (CHR ''='') = [a, b]"
    using split_on_first_pair by blast
  ultimately show ?thesis
    using c by (simp add: parseProperty_def at_drop(1) [OF 0] text_between_def 0)
qed

lemma properties_before_line_break:
  assumes "drop i m = [c, CHR ''>'', LF] @ s" and "plain_char c" and "0 < i" and "Suc i \<le> n"
  shows "parseProperties m n (CHR ''/'') i props = None"
proof -
  obtain k v where stuck: "parseProperty m n (CHR ''/'') i = Inr (Some (k, v), i)"
    using property_before_line_break [OF assms] by blast
  have "(m, n, CHR ''/'', i) \<noteq> (m, n, CHR ''/'', i)" if "parseProperties m n (CHR ''/'') i props = Some r" for r
    by (rule parseProperties.raw_induct [where P = "\<lambda>m' n' t j ps r. (m', n', t, j) \<noteq> (m, n, CHR ''/'', i)", OF _ that]) (clarsimp simp: stuck, blast)
  then show ?thesis
    by (cases "parseProperties m n (CHR ''/'') i props") auto
qed

text \<open>
  C37: A line break directly behind the opening tag of the first element keeps the parser in its loop over
  the properties for ever: taking the \<open>>\<close> back goes one character too far, so the last character of the
  name is read as a property, and again.
\<close>

theorem line_break_behind_tag_hangs:
  assumes "name \<noteq> []" and "\<forall>c \<in> set name. plain_char c" and "length name + 2 \<le> n"
  shows "XmlDocument (''<'' @ name @ ''>'' @ LF # rest) n = None"
proof -
  define m where "m = ''<'' @ name @ ''>'' @ LF # rest"
  obtain w c where name: "name = w @ [c]" using assms(1) by (cases name rule: rev_cases) auto
  let ?k = "Suc (length name)"
  have m0: "drop 0 m = CHR ''<'' # name @ CHR ''>'' # LF # rest" by (simp add: m_def)
  have m1: "drop (Suc 0) m = name @ CHR ''>'' # LF # rest" by (simp add: m_def)
  have mk: "drop ?k m = CHR ''>'' # LF # rest" using drop_word [OF m1] by simp
  have ml: "drop (length name) m = [c, CHR ''>'', LF] @ rest"
    using drop_word [of "Suc 0" m w] m1 name by simp
  have c: "plain_char c" "length name = Suc (length w)" using assms(2) name by simp_all
  obtain d u where d: "drop (Suc 0) m = d # u" "plain_char d"
    using m1 assms(1,2) by (cases name) auto
  have "value_loop m n (CHR ''/'') False (Suc 0) None False = value_loop m n (CHR ''/'') False ?k (Some (Suc 0)) False"
    using value_word [OF m1 assms(2)] assms(1,3) by simp
  also have "\<dots> = Inr (Some (Suc 0), Some (length name), length name)"
    using assms(3) unread_line [OF mk] by (subst value_loop.simps) (simp add: read_here [OF mk] at_drop(1) [OF mk])
  finally have "xml_readValue m n (CHR ''/'') False (Suc 0) = Inr (take (length name - Suc 0) (drop (Suc 0) m), length name)"
    using white_here [OF d(1)] d(2) assms(1) by (simp add: xml_readValue_def text_between_def plain_char_def Suc_le_eq)
  moreover have "lookAhead m n (Suc 0) = Inr d"
    using look_here [OF d(1)] plain_line [OF d(2)] assms(3) by simp
  moreover have "skipWhiteSpace m n 0 = Inr 0"
    using m0 by (rule white_here) (simp add: isspace_def char_code_def)
  moreover have "xml_read m n True 0 = Inr (Some 0, Suc 0)"
    using m0 by (rule read_here) simp_all
  ultimately have "\<exists>x. node_head m n 0 = Inr (Some (CHR ''/'', x), length name)"
    using d(2) at_drop(1) [OF m0] by (simp add: node_head_def plain_char_def)
  then have "parse_nodes m n 0 0 = None"
    using properties_before_line_break [OF ml c(1)] assms(3) c(2) by (subst parse_nodes.simps) auto
  then show ?thesis
    by (simp add: XmlDocument_def xml_parse_def m_def)
qed

theorem line_break_behind_tag_hangs_witness:
  "XmlDocument (''<'' @ ''a'' @ ''>'' @ LF # ''</a>'') 8 = None"
  by (rule line_break_behind_tag_hangs) (simp_all add: plain_char_def isspace_def char_code_def)

end
