(* ===== verification/XmlText.thy ===== *)
theory XmlText
  imports XmlParsing
begin

section \<open>Documents without line breaks\<close>

text \<open>
  The memory is a C string: it ends with its terminator, at \<open>n\<close>. The lemmas follow the pointer through
  the document by what is left of it, \<open>drop i m\<close>.
\<close>

lemma in_memory: "drop i (m :: string) = c # s \<Longrightarrow> length m = Suc n \<Longrightarrow> i \<le> n"
  by (metis drop_eq_Nil list.discI not_less_eq_eq)

lemma read_char: "drop i m = c # s \<Longrightarrow> length m = Suc n \<Longrightarrow> \<not> line_end c \<Longrightarrow> xml_read m n False i = Inr (Some i, Suc i)"
  by (rule read_here) (simp_all add: in_memory)

lemma look_char: "drop i m = c # s \<Longrightarrow> length m = Suc n \<Longrightarrow> \<not> line_end c \<Longrightarrow> lookAhead m n i = Inr c"
  by (rule look_here) (simp_all add: in_memory)

lemma unread_char: "drop i m = d # c # s \<Longrightarrow> \<not> line_end c \<Longrightarrow> unread m (Suc i) = Inr i"
  using unread_here [OF at_drop(2), of i m d c s] by simp

lemma take_word: "drop i m = w @ s \<Longrightarrow> text_between m (Some i) (Some (i + length w)) = Inr w"
  by (simp add: text_between_def)

lemma value_end:
  assumes "drop i m = x # y # s" and "length m = Suc n" and "\<not> line_end y"
    and "x = CHR ''>'' \<or> x = CHR ''<'' \<or> x = CHR '' '' \<and> \<not> allow \<and> \<not> q" and "t \<in> {NUL, CHR ''/'', CHR ''?''}"
  shows "value_loop m n t allow i (Some b) q = Inr (Some b, Some i, i)"
proof -
  have x: "\<not> line_end x" "x \<noteq> t" "x \<noteq> CHR 0x5C" "x \<noteq> QUOTE" "isspace x \<or> x = CHR ''>'' \<or> x = CHR ''<''"
    using assms(4,5) by auto
  have "xml_read m n False i = Inr (Some i, Suc i)" "at m i = Inr x" "unread m (Suc i) = Inr i"
    using read_char [OF assms(1,2) x(1)] at_drop(1) [OF assms(1)] unread_char [OF assms(1,3)] by simp_all
  with x(2-5) assms(4) show ?thesis
    by (subst value_loop.simps) (auto simp only: bindO_Inr prod.case option.case if_False if_True Let_def simp_thms split: if_split)
qed

lemma read_word:
  assumes "drop i m = w @ x # y # s" and "length m = Suc n" and "\<not> line_end y" and "x \<in> {CHR ''>'', CHR ''<'', CHR '' ''}"
    and "w \<noteq> []" and "\<forall>c \<in> set w. plain_char c" and "t \<in> {NUL, CHR ''/'', CHR ''?''}"
  shows "xml_readValue m n t False i = Inr (w, i + length w)"
proof -
  obtain c v where w: "w = c # v" using assms(5) by (cases w) auto
  have 0: "drop i m = c # v @ x # y # s" "\<not> isspace c"
    using assms(1,6) w by (simp_all add: plain_char_def)
  have e: "drop (i + length w) m = x # y # s" by (rule drop_word [OF assms(1)])
  have "i + length w \<le> Suc n" using in_memory [OF e assms(2)] by simp
  then have "value_loop m n t False i None False = value_loop m n t False (i + length w) (Some i) False"
    using value_word [OF assms(1,6) _ assms(7), of n False None False] assms(5) by simp
  also have "\<dots> = Inr (Some i, Some (i + length w), i + length w)"
    using assms(4) by (intro value_end [OF e assms(2,3) _ assms(7)]) auto
  finally show ?thesis
    by (simp only: xml_readValue_def white_here [OF 0] bindO_Inr prod.case take_word [OF assms(1)])
qed

text \<open>In the body of an element only the angle brackets end the value.\<close>

definition body_char :: "char \<Rightarrow> bool" where
  "body_char c \<longleftrightarrow> \<not> line_end c \<and> c \<notin> {NUL, CHR ''<'', CHR ''>''}"

lemma value_body:
  assumes "drop i m = w @ CHR ''<'' # y # s" and "length m = Suc n" and "\<not> line_end y" and "\<forall>c \<in> set w. body_char c"
  shows "value_loop m n NUL True i (Some b) q = Inr (Some b, Some (i + length w), i + length w)"
  using assms(1,4)
proof (induction w arbitrary: i q)
  case Nil
  then show ?case using value_end [of i m "CHR ''<''" y s n True q NUL b] assms(2,3) by simp
next
  case (Cons c w)
  have c: "drop i m = c # w @ CHR ''<'' # y # s" "body_char c" using Cons.prems by simp_all
  have b: "\<not> line_end c" "c \<noteq> NUL" "c \<noteq> CHR ''<''" "c \<noteq> CHR ''>''" using c(2) by (simp_all add: body_char_def)
  have r: "xml_read m n False i = Inr (Some i, Suc i)" "at m i = Inr c"
    using read_char [OF c(1) assms(2) b(1)] at_drop(1) [OF c(1)] by simp_all
  have "\<exists>p. value_loop m n NUL True i (Some b) q = value_loop m n NUL True (Suc i) (Some b) p"
    unfolding value_loop.simps [of m n NUL True i] r bindO_Inr prod.case option.case Let_def
    using b by (simp only: if_False simp_thms bindO_Inr) metis
  then obtain p where "value_loop m n NUL True i (Some b) q = value_loop m n NUL True (Suc i) (Some b) p" ..
  also have "\<dots> = Inr (Some b, Some (Suc i + length w), Suc i + length w)"
    using Cons.IH [OF at_drop(2) [OF c(1)]] Cons.prems(2) by simp
  finally show ?case by simp
qed


section \<open>Properties in a tag\<close>

lemma property_word:
  assumes "drop i m = w @ s" and "length m = Suc n" and "\<forall>c \<in> set w. plain_char c"
  shows "property_loop m n (CHR ''/'') i q False = property_loop m n (CHR ''/'') (i + length w) q False"
  using assms(1,3)
proof (induction w arbitrary: i)
  case (Cons c w)
  have c: "drop i m = c # w @ s" "plain_char c" using Cons.prems by simp_all
  have b: "c \<noteq> CHR ''/''" "c \<noteq> CHR ''>''" "c \<noteq> CHR 0x5C" "c \<noteq> QUOTE" "\<not> isspace c"
    using c(2) unfolding plain_char_def by simp_all
  have r: "xml_read m n False i = Inr (Some i, Suc i)" "at m i = Inr c"
    using read_char [OF c(1) assms(2)] plain_line [OF c(2)] at_drop(1) [OF c(1)] by simp_all
  have "property_loop m n (CHR ''/'') i q False = property_loop m n (CHR ''/'') (Suc i) q False"
    unfolding property_loop.simps [of m n "CHR ''/''" i] r bindO_Inr prod.case option.case
    using b by (simp only: if_False simp_thms bindO_Inr)
  also have "\<dots> = property_loop m n (CHR ''/'') (Suc i + length w) q False"
    using Cons.IH [OF at_drop(2) [OF c(1)]] Cons.prems(2) by simp
  finally show ?case by simp
qed simp

text \<open>Between quotes only a line break, the closing bracket, a quote and a backslash are special.\<close>

definition quoted_char :: "char \<Rightarrow> bool" where
  "quoted_char c \<longleftrightarrow> \<not> line_end c \<and> c \<notin> {CHR ''>'', QUOTE, CHR 0x5C}"

lemma quoted_next:
  assumes "drop i m = w @ QUOTE # s" and "length m = Suc n" and "\<forall>c \<in> set w. quoted_char c"
  obtains d where "lookAhead m n i = Inr d" "d \<noteq> CHR ''>''"
proof (cases w)
  case Nil
  then have d: "drop i m = QUOTE # s" using assms(1) by simp
  show ?thesis by (rule that [OF look_char [OF d assms(2)]]) simp_all
next
  case (Cons c v)
  then have d: "drop i m = c # v @ QUOTE # s" and c: "quoted_char c" using assms(1,3) by simp_all
  show ?thesis by (rule that [OF look_char [OF d assms(2)]]) (use c in \<open>simp_all add: quoted_char_def\<close>)
qed

lemma property_quoted:
  assumes "drop i m = w @ QUOTE # s" and "length m = Suc n" and "\<forall>c \<in> set w. quoted_char c"
  shows "property_loop m n (CHR ''/'') i True False = property_loop m n (CHR ''/'') (i + length w) True False"
  using assms(1,3)
proof (induction w arbitrary: i)
  case (Cons c w)
  have c: "drop i m = c # w @ QUOTE # s" "\<forall>c \<in> set w. quoted_char c" using Cons.prems by simp_all
  have b: "\<not> line_end c" "c \<noteq> CHR ''>''" "c \<noteq> CHR 0x5C" "c \<noteq> QUOTE" using Cons.prems(2) by (simp_all add: quoted_char_def)
  have r: "xml_read m n False i = Inr (Some i, Suc i)" "at m i = Inr c"
    using read_char [OF c(1) assms(2) b(1)] at_drop(1) [OF c(1)] by simp_all
  obtain e where e: "lookAhead m n (Suc i) = Inr e" "e \<noteq> CHR ''>''"
    by (rule quoted_next [OF at_drop(2) [OF c(1)] assms(2) c(2)])
  obtain d where d: "(if c = CHR ''/'' then lookAhead m n (Suc i) else Inr NUL) = Inr d" "d \<noteq> CHR ''>''"
  proof
    show "(if c = CHR ''/'' then lookAhead m n (Suc i) else Inr NUL) = Inr (if c = CHR ''/'' then e else NUL)"
      using e(1) by simp
  qed (use e(2) in simp)
  have "property_loop m n (CHR ''/'') i True False = property_loop m n (CHR ''/'') (Suc i) True False"
    unfolding property_loop.simps [of m n "CHR ''/''" i] r bindO_Inr prod.case option.case d(1)
    using b d(2) by (simp only: if_False simp_thms bindO_Inr)
  also have "\<dots> = property_loop m n (CHR ''/'') (Suc i + length w) True False"
    using Cons.IH [OF at_drop(2) [OF c(1)]] c(2) by simp
  finally show ?case by simp
qed simp

lemma property_quote:
  assumes "drop i m = QUOTE # s" and "length m = Suc n"
  shows "property_loop m n (CHR ''/'') i q False = property_loop m n (CHR ''/'') (Suc i) (\<not> q) False"
proof -
  have "xml_read m n False i = Inr (Some i, Suc i)" "at m i = Inr QUOTE"
    using read_char [OF assms] at_drop(1) [OF assms(1)] by simp_all
  then show ?thesis
    by (subst property_loop.simps) simp
qed

lemma property_end:
  assumes "drop i m = x # y # s" and "length m = Suc n" and "\<not> line_end y" and "x \<in> {CHR ''>'', CHR '' ''}"
  shows "property_loop m n (CHR ''/'') i False False = Inr (Some i, if x = CHR ''>'' then i else Suc i)"
proof -
  have x: "\<not> line_end x" "x \<noteq> CHR ''/''" using assms(4) by auto
  have "xml_read m n False i = Inr (Some i, Suc i)" "at m i = Inr x" "unread m (Suc i) = Inr i"
    using read_char [OF assms(1,2) x(1)] at_drop(1) [OF assms(1)] unread_char [OF assms(1,3)] by simp_all
  with x(2) assms(4) show ?thesis
    by (subst property_loop.simps) auto
qed

definition property_text :: "string \<times> string \<Rightarrow> string" where
  "property_text p = fst p @ CHR ''='' # QUOTE # snd p @ [QUOTE]"

definition property_ok :: "string \<times> string \<Rightarrow> bool" where
  "property_ok p \<longleftrightarrow> fst p \<noteq> [] \<and> (\<forall>c \<in> set (fst p). plain_char c \<and> c \<noteq> CHR ''='') \<and>
     (\<forall>c \<in> set (snd p). quoted_char c)"

lemma unquote_quoted: "unquote (QUOTE # v @ [QUOTE]) = v"
  by (simp add: unquote_def)

lemma property_over_text:
  assumes "drop i m = property_text p @ x # y # s" and "length m = Suc n" and "\<not> line_end y" and "x \<in> {CHR ''>'', CHR '' ''}"
    and "property_ok p"
  shows "property_loop m n (CHR ''/'') i False False =
    Inr (Some (i + length (property_text p)), i + length (property_text p) + (if x = CHR ''>'' then 0 else 1))"
proof -
  obtain k v where p: "p = (k, v)" by (cases p)
  let ?L = "property_loop m n (CHR ''/'')"
  let ?j = "i + length (k @ ''='')"
  have 1: "drop i m = (k @ ''='') @ QUOTE # v @ QUOTE # x # y # s"
    using assms(1) by (simp add: p property_text_def)
  have 2: "drop ?j m = QUOTE # v @ QUOTE # x # y # s" by (rule drop_word [OF 1])
  have 3: "drop (Suc ?j) m = v @ QUOTE # x # y # s" by (rule at_drop(2) [OF 2])
  have 4: "drop (Suc ?j + length v) m = QUOTE # x # y # s" by (rule drop_word [OF 3])
  have 5: "drop (Suc (Suc ?j + length v)) m = x # y # s" by (rule at_drop(2) [OF 4])
  have eq: "plain_char (CHR ''='')" by (simp add: plain_char_def isspace_def char_code_def)
  have "\<forall>c \<in> set (k @ ''=''). plain_char c"
    using assms(5) eq by (auto simp: p property_ok_def)
  then have "?L i False False = ?L ?j False False" by (rule property_word [OF 1 assms(2)])
  also have "\<dots> = ?L (Suc ?j) True False" using property_quote [OF 2 assms(2)] by simp
  also have "\<dots> = ?L (Suc ?j + length v) True False"
    by (rule property_quoted [OF 3 assms(2)]) (use assms(5) in \<open>simp add: p property_ok_def\<close>)
  also have "\<dots> = ?L (Suc (Suc ?j + length v)) False False" using property_quote [OF 4 assms(2)] by simp
  also have "\<dots> = Inr (Some (Suc (Suc ?j + length v)),
      if x = CHR ''>'' then Suc (Suc ?j + length v) else Suc (Suc (Suc ?j + length v)))"
    by (rule property_end [OF 5 assms(2-4)])
  finally show ?thesis by (simp add: p property_text_def)
qed

lemma parse_property:
  assumes "xml_read m n True i = Inr (Some b, Suc b)" and "drop b m = property_text p @ x # y # s"
    and "length m = Suc n" and "\<not> line_end y" and "x \<in> {CHR ''>'', CHR '' ''}" and "property_ok p"
  shows "\<exists>j. parseProperty m n (CHR ''/'') i = Inr (Some p, j) \<and> drop j m = (if x = CHR ''>'' then x # y # s else y # s)"
proof -
  obtain k v where p: "p = (k, v)" by (cases p)
  obtain c w where k: "k = c # w" using assms(6) by (cases k) (auto simp: p property_ok_def)
  have c: "plain_char c" using assms(6) by (simp add: p k property_ok_def)
  have first: "drop b m = [c] @ w @ CHR ''='' # QUOTE # v @ QUOTE # x # y # s"
    using assms(2) by (simp add: p k property_text_def)
  let ?e = "b + length (property_text p)"
  let ?j = "?e + (if x = CHR ''>'' then 0 else 1)"
  have "property_loop m n (CHR ''/'') b False False = property_loop m n (CHR ''/'') (b + length [c]) False False"
    by (rule property_word [OF first assms(3)]) (simp add: c)
  then have loop: "property_loop m n (CHR ''/'') (Suc b) False False = Inr (Some ?e, ?j)"
    using property_over_text [OF assms(2-6)] by simp
  have "split_on_first (property_text p) (CHR ''='') = [k, QUOTE # v @ [QUOTE]]"
    using assms(6) by (simp add: p property_text_def property_ok_def split_on_first_def)
  moreover have "c \<noteq> CHR ''>''" "c \<noteq> CHR ''/''" using c by (auto simp: plain_char_def)
  moreover have "at m b = Inr c" using first by (auto intro: at_drop(1))
  ultimately have "parseProperty m n (CHR ''/'') i = Inr (Some p, ?j)"
    unfolding parseProperty_def assms(1) bindO_Inr prod.case option.case
    by (simp add: loop take_word [OF assms(2), unfolded p] unquote_quoted p)
  moreover have "drop ?e m = x # y # s" by (rule drop_word [OF assms(2)])
  ultimately show ?thesis
    using at_drop(2) [of ?e m x "y # s"] by auto
qed


text \<open>What follows the name in a tag: the properties, and the end of an opening or of a closed tag.\<close>

abbreviation tag_end :: "bool \<Rightarrow> string" where
  "tag_end closed \<equiv> if closed then ''/>'' else ''>''"

fun tag_rest :: "(string \<times> string) list \<Rightarrow> bool \<Rightarrow> string" where
  "tag_rest [] closed = (if closed then '' '' else []) @ tag_end closed"
| "tag_rest (p # ps) closed = CHR '' '' # property_text p @ tag_rest ps closed"

abbreviation insert_all :: "(string \<times> string) list \<Rightarrow> properties \<Rightarrow> properties" where
  "insert_all ps acc \<equiv> fold (\<lambda>p. std_insert (fst p) (snd p)) ps acc"

lemma property_text_first:
  assumes "property_ok p"
  obtains c w where "property_text p = c # w" "plain_char c"
  using assms by (cases p; cases "fst p") (auto simp: property_text_def property_ok_def)

lemma tag_rest_first:
  assumes "\<forall>p \<in> set ps. property_ok p" and "\<not> line_end y"
  obtains (last) "tag_rest ps closed = ''>''" "ps = []" "\<not> closed"
    | (more) y' s' where "tag_rest ps closed @ y # s = CHR '' '' # y' # s'" "tag_rest ps closed = CHR '' '' # tl (tag_rest ps closed)"
      "\<not> line_end y'"
proof (cases ps)
  case Nil
  then show ?thesis using last more by (cases closed) auto
next
  case (Cons p qs)
  then have "property_ok p" using assms(1) by simp
  then obtain c w where p: "property_text p = c # w" "plain_char c" by (rule property_text_first)
  show ?thesis by (rule more [of c "w @ tag_rest qs closed @ y # s"]) (use p plain_line in \<open>simp_all add: Cons\<close>)
qed

lemma properties_step:
  "parseProperty m n t i = Inr (Some p, j) \<Longrightarrow>
    parseProperties m n t i acc = parseProperties m n t j (std_insert (fst p) (snd p) acc)"
  by (subst parseProperties.simps) (cases p, simp)

lemma properties_stop: "parseProperty m n t i = Inr (None, j) \<Longrightarrow> parseProperties m n t i acc = Some (Inr (acc, j))"
  by (subst parseProperties.simps) simp

lemma property_stop:
  assumes "xml_read m n True i = Inr (Some b, Suc b)" and "drop b m = tag_end closed @ y # s" and "length m = Suc n" and "\<not> line_end y"
  shows "parseProperty m n (CHR ''/'') i = Inr (None, b)"
proof (cases closed)
  case False
  then have d: "drop b m = CHR ''>'' # y # s" using assms(2) by simp
  show ?thesis
    using at_drop(1) [OF d] unread_char [OF d assms(4)] by (simp add: parseProperty_def assms(1))
next
  case True
  then have d: "drop b m = CHR ''/'' # CHR ''>'' # y # s" using assms(2) by simp
  have "lookAhead m n (Suc b) = Inr (CHR ''>'')" by (rule look_char [OF at_drop(2) [OF d] assms(3)]) simp
  then show ?thesis
    using at_drop(1) [OF d] unread_char [OF d] by (simp add: parseProperty_def assms(1))
qed

text \<open>The parser may stand on the space in front of a property or behind it.\<close>

definition stands_at :: "string \<Rightarrow> nat \<Rightarrow> string \<Rightarrow> bool" where
  "stands_at m i s \<longleftrightarrow> drop i m = s \<or> (\<exists>t. s = CHR '' '' # t \<and> drop i m = t)"

lemma stands_at_read:
  assumes "stands_at m i (CHR '' '' # c # s)" and "length m = Suc n" and "\<not> line_end c" and "c \<noteq> CHR '' ''"
  obtains b where "xml_read m n True i = Inr (Some b, Suc b)" "drop b m = c # s"
proof (cases "drop i m = c # s")
  case True
  then show ?thesis using that [of i] read_here [OF True in_memory [OF True assms(2)] assms(3)] assms(4) by simp
next
  case False
  then have d: "drop i m = CHR '' '' # c # s" using assms(1) by (auto simp: stands_at_def)
  have "i < n" using in_memory [OF at_drop(2) [OF d] assms(2)] by simp
  then show ?thesis using that [of "Suc i"] read_after_space [OF d _ assms(3,4)] at_drop(2) [OF d] by simp
qed

lemma properties_read:
  assumes "stands_at m i (tag_rest ps closed @ y # s)" and "length m = Suc n" and "\<not> line_end y" and "\<forall>p \<in> set ps. property_ok p"
  shows "\<exists>j. parseProperties m n (CHR ''/'') i acc = Some (Inr (insert_all ps acc, j)) \<and> drop j m = tag_end closed @ y # s"
  using assms(1,4)
proof (induction ps arbitrary: i acc)
  case Nil
  have "\<exists>b. xml_read m n True i = Inr (Some b, Suc b) \<and> drop b m = tag_end closed @ y # s"
  proof (cases closed)
    case False
    then have d: "drop i m = CHR ''>'' # y # s" using Nil.prems by (simp add: stands_at_def)
    have "xml_read m n True i = Inr (Some i, Suc i)"
      by (rule read_here [OF d in_memory [OF d assms(2)]]) simp_all
    with d show ?thesis using False by auto
  next
    case True
    then have "stands_at m i (CHR '' '' # CHR ''/'' # CHR ''>'' # y # s)" using Nil.prems by simp
    then obtain b where "xml_read m n True i = Inr (Some b, Suc b)" "drop b m = CHR ''/'' # CHR ''>'' # y # s"
      using assms(2) by (rule stands_at_read) simp_all
    then show ?thesis using True by auto
  qed
  then obtain b where b: "xml_read m n True i = Inr (Some b, Suc b)" "drop b m = tag_end closed @ y # s" by blast
  show ?case using properties_stop [OF property_stop [OF b assms(2,3)]] b(2) by auto
next
  case (Cons p ps)
  have ok: "property_ok p" "\<forall>p \<in> set ps. property_ok p" using Cons.prems(2) by simp_all
  obtain c w where p: "property_text p = c # w" "plain_char c" using ok(1) by (rule property_text_first)
  have "stands_at m i (CHR '' '' # c # w @ tag_rest ps closed @ y # s)" using Cons.prems(1) p(1) by simp
  then obtain b where b: "xml_read m n True i = Inr (Some b, Suc b)" "drop b m = c # w @ tag_rest ps closed @ y # s"
    using assms(2) plain_line [OF p(2)] by (elim stands_at_read) auto
  have d: "drop b m = property_text p @ tag_rest ps closed @ y # s" using b(2) p(1) by simp
  have "\<exists>j. parseProperty m n (CHR ''/'') i = Inr (Some p, j) \<and> stands_at m j (tag_rest ps closed @ y # s)"
    using ok(2) assms(3)
  proof (cases rule: tag_rest_first [where closed = closed and s = s])
    case last
    then show ?thesis
      using parse_property [OF b(1) _ assms(2,3) _ ok(1), of "CHR ''>''" s] d by (auto simp: stands_at_def)
  next
    case (more y' s')
    then show ?thesis
      using parse_property [OF b(1) _ assms(2) more(3) _ ok(1), of "CHR '' ''" s'] d by (auto simp: stands_at_def)
  qed
  then obtain j where j: "parseProperty m n (CHR ''/'') i = Inr (Some p, j)" "stands_at m j (tag_rest ps closed @ y # s)" by blast
  show ?case using Cons.IH [OF j(2) ok(2)] by (simp add: properties_step [OF j(1)])
qed


section \<open>Elements\<close>

text \<open>
  The elements of a document: a closed tag, an element with a text in it, or one with elements in it;
  each with its name and properties.
\<close>

datatype element = Closed string "(string \<times> string) list" | Body string "(string \<times> string) list" string
  | Within string "(string \<times> string) list" "element list"

abbreviation closing_tag :: "string \<Rightarrow> string" where
  "closing_tag nm \<equiv> ''</'' @ nm @ ''>''"

fun element_text :: "element \<Rightarrow> string" where
  "element_text (Closed nm ps) = CHR ''<'' # nm @ tag_rest ps True"
| "element_text (Body nm ps v) = CHR ''<'' # nm @ tag_rest ps False @ v @ closing_tag nm"
| "element_text (Within nm ps es) = CHR ''<'' # nm @ tag_rest ps False @ concat (map element_text es) @ closing_tag nm"

fun element_node :: "u16 \<Rightarrow> element \<Rightarrow> xml_node" where
  "element_node d (Closed nm ps) = XmlNode True nm [] d (insert_all ps []) []"
| "element_node d (Body nm ps v) = XmlNode True nm v d (insert_all ps []) []"
| "element_node d (Within nm ps es) = XmlNode True nm [] d (insert_all ps []) (map (element_node (d + 1)) es)"

definition tag_ok :: "string \<Rightarrow> (string \<times> string) list \<Rightarrow> bool" where
  "tag_ok nm ps \<longleftrightarrow> nm \<noteq> [] \<and> (\<forall>c \<in> set nm. plain_char c) \<and> (\<forall>p \<in> set ps. property_ok p)"

fun element_ok :: "element \<Rightarrow> bool" where
  "element_ok (Closed nm ps) = tag_ok nm ps"
| "element_ok (Body nm ps v) = (tag_ok nm ps \<and> v \<noteq> [] \<and> \<not> isspace (hd v) \<and> (\<forall>c \<in> set v. body_char c))"
| "element_ok (Within nm ps es) = (tag_ok nm ps \<and> (\<forall>e \<in> set es. element_ok e))"

lemma nodeValid_element [simp]: "nodeValid (element_node d e)"
  by (cases e) simp_all

lemma element_text_first: "element_ok e \<Longrightarrow> \<exists>c s. element_text e = CHR ''<'' # c # s \<and> \<not> isspace c \<and> c \<noteq> CHR ''/'' \<and> c \<noteq> CHR ''?''"
  by (cases e; cases "hd (tl (element_text e))") (auto simp: tag_ok_def neq_Nil_conv plain_char_def)

text \<open>The head of a node, up to its properties.\<close>

lemma head_read:
  assumes "drop i m = CHR ''<'' # nm @ tag_rest ps closed @ y # s" and "length m = Suc n" and "\<not> line_end y" and "tag_ok nm ps"
  shows "\<exists>j. node_head m n i = Inr (Some (CHR ''/'', nm), j) \<and> stands_at m j (tag_rest ps closed @ y # s)"
proof -
  obtain c w where nm: "nm = c # w" "plain_char c" using assms(4) by (cases nm) (auto simp: tag_ok_def)
  have c: "\<not> line_end c" "c \<noteq> CHR ''/''" "c \<noteq> CHR ''?''"
    using plain_line [OF nm(2)] nm(2) by (auto simp: plain_char_def)
  have d: "drop (Suc i) m = nm @ tag_rest ps closed @ y # s" by (rule at_drop(2) [OF assms(1)])
  have ok: "\<forall>p \<in> set ps. property_ok p" using assms(4) by (simp add: tag_ok_def)
  have "\<exists>x y' s'. tag_rest ps closed @ y # s = x # y' # s' \<and> \<not> line_end y' \<and> x \<in> {CHR ''>'', CHR ''<'', CHR '' ''}"
    using ok assms(3)
  proof (cases rule: tag_rest_first [where closed = closed and s = s])
    case last
    with assms(3) show ?thesis by (intro exI [of _ "CHR ''>''"] exI [of _ y]) simp
  next
    case (more y' s')
    then show ?thesis by (intro exI [of _ "CHR '' ''"] exI [of _ y']) simp
  qed
  then obtain x y' s' where x: "tag_rest ps closed @ y # s = x # y' # s'" "\<not> line_end y'" "x \<in> {CHR ''>'', CHR ''<'', CHR '' ''}"
    by blast
  have "xml_readValue m n (CHR ''/'') False (Suc i) = Inr (nm, Suc i + length nm)"
    using d assms(4) x by (intro read_word [OF _ assms(2) x(2,3)]) (simp_all add: tag_ok_def)
  moreover have "lookAhead m n (Suc i) = Inr c"
    using d c(1) by (intro look_char [OF _ assms(2)]) (simp_all add: nm(1))
  moreover have "skipWhiteSpace m n i = Inr i"
    using assms(1) by (rule white_here) (simp add: isspace_def char_code_def)
  moreover have "xml_read m n True i = Inr (Some i, Suc i)"
    by (rule read_here [OF assms(1) in_memory [OF assms(1,2)]]) simp_all
  ultimately have "node_head m n i = Inr (Some (CHR ''/'', nm), Suc i + length nm)"
    using c at_drop(1) [OF assms(1)] by (simp add: node_head_def)
  moreover have "drop (Suc i + length nm) m = tag_rest ps closed @ y # s" by (rule drop_word [OF d])
  ultimately show ?thesis by (auto simp: stands_at_def)
qed

lemma middle_closed:
  assumes "drop i m = ''/>'' @ y # s" and "length m = Suc n" and "\<not> line_end y"
  shows "node_middle m n (CHR ''/'') i = Inr (NoBody True, i + 2)"
proof -
  have 0: "drop i m = CHR ''/'' # CHR ''>'' # y # s" using assms(1) by simp
  have 1: "drop (Suc i) m = CHR ''>'' # y # s" by (rule at_drop(2) [OF 0])
  have "skipWhiteSpace m n i = Inr i"
    using 0 by (rule white_here) (simp add: isspace_def char_code_def)
  then show ?thesis
    using read_char [OF 0 assms(2)] read_char [OF 1 assms(2)] look_char [OF 1 assms(2)] at_drop(1) [OF 0] at_drop(1) [OF 1]
    by (simp add: node_middle_def)
qed

lemma middle_open:
  assumes "drop i m = CHR ''>'' # c # s" and "length m = Suc n" and "\<not> isspace c"
  shows "node_middle m n (CHR ''/'') i = Inr (if c = CHR ''<'' then BodyNodes else BodyText, Suc i)"
proof -
  have 1: "drop (Suc i) m = c # s" by (rule at_drop(2) [OF assms(1)])
  have "skipWhiteSpace m n i = Inr i"
    using assms(1) by (rule white_here) (simp add: isspace_def char_code_def)
  moreover have "skipWhiteSpace m n (Suc i) = Inr (Suc i)" by (rule white_here [OF 1 assms(3)])
  moreover have "lookAhead m n (Suc i) = Inr c" using line_end_space assms(3) by (intro look_char [OF 1 assms(2)]) blast
  ultimately show ?thesis
    using read_char [OF assms(1,2)] at_drop(1) [OF assms(1)] by (simp add: node_middle_def)
qed

lemma tail_read:
  assumes "drop i m = closing_tag nm @ y # s" and "length m = Suc n" and "\<not> line_end y" and "tag_ok nm ps"
  shows "node_tail m n nm i = Inr (True, i + length (closing_tag nm))"
proof -
  have 0: "drop i m = CHR ''<'' # CHR ''/'' # nm @ CHR ''>'' # y # s" using assms(1) by simp
  have 1: "drop (Suc i) m = CHR ''/'' # nm @ CHR ''>'' # y # s" by (rule at_drop(2) [OF 0])
  have 2: "drop (Suc (Suc i)) m = nm @ CHR ''>'' # y # s" by (rule at_drop(2) [OF 1])
  have 3: "drop (Suc (Suc i) + length nm) m = CHR ''>'' # y # s" by (rule drop_word [OF 2])
  have "xml_readValue m n NUL False (Suc (Suc i)) = Inr (nm, Suc (Suc i) + length nm)"
    using assms(4) by (intro read_word [OF 2 assms(2,3)]) (simp_all add: tag_ok_def)
  then show ?thesis
    using read_char [OF 0 assms(2)] read_char [OF 1 assms(2)] read_char [OF 3 assms(2)] at_drop(1) [OF 0] at_drop(1) [OF 1]
    by (simp add: node_tail_def)
qed

lemma body_read:
  assumes "drop i m = v @ CHR ''<'' # y # s" and "length m = Suc n" and "\<not> line_end y"
    and "v \<noteq> []" and "\<not> isspace (hd v)" and "\<forall>c \<in> set v. body_char c"
  shows "xml_readValue m n NUL True i = Inr (v, i + length v)"
proof -
  obtain c w where v: "v = c # w" using assms(4) by (cases v) auto
  have d: "drop i m = c # w @ CHR ''<'' # y # s" using assms(1) v by simp
  have c: "\<not> line_end c" "c \<noteq> NUL" "c \<noteq> CHR ''<''" "c \<noteq> CHR ''>''" using assms(6) by (simp_all add: v body_char_def)
  have r: "xml_read m n False i = Inr (Some i, Suc i)" "at m i = Inr c"
    using read_char [OF d assms(2) c(1)] at_drop(1) [OF d] by simp_all
  have "\<exists>p. value_loop m n NUL True i None False = value_loop m n NUL True (Suc i) (Some i) p"
    unfolding value_loop.simps [of m n NUL True i] r bindO_Inr prod.case option.case Let_def
    using c by (simp only: if_False simp_thms bindO_Inr) metis
  then obtain p where "value_loop m n NUL True i None False = value_loop m n NUL True (Suc i) (Some i) p" ..
  also have "\<dots> = Inr (Some i, Some (Suc i + length w), Suc i + length w)"
    using assms(6) v by (intro value_body [OF at_drop(2) [OF d] assms(2,3)]) simp
  finally have "value_loop m n NUL True i None False = Inr (Some i, Some (i + length v), i + length v)"
    by (simp add: v)
  moreover have "skipWhiteSpace m n i = Inr i" using assms(5) v by (intro white_here [OF d]) simp
  ultimately show ?thesis
    by (simp only: xml_readValue_def bindO_Inr prod.case take_word [OF assms(1)])
qed


section \<open>The round trip\<close>

lemma parse_nodes_step:
  "parse_nodes m n depth i = then_parse (parseNode m n depth i) (\<lambda>node i.
     if nodeValid node then then_parse (parse_nodes m n depth i) (\<lambda>nodes i. Some (Inr (node # nodes, i)))
     else Some (Inr ([], i)))"
  unfolding parseNode_def by (rule parse_nodes.simps)

lemma stop_at_closing_tag:
  assumes "drop i m = CHR ''<'' # CHR ''/'' # s" and "length m = Suc n"
  shows "parseNode m n depth i = Some (Inr (no_node depth, i))"
proof -
  have 1: "drop (Suc i) m = CHR ''/'' # s" by (rule at_drop(2) [OF assms(1)])
  have "skipWhiteSpace m n i = Inr i"
    using assms(1) by (rule white_here) (simp add: isspace_def char_code_def)
  moreover have "xml_read m n True i = Inr (Some i, Suc i)"
    by (rule read_here [OF assms(1) in_memory [OF assms]]) simp_all
  moreover have "unread m (Suc i) = Inr i" by (rule unread_char [OF assms(1)]) simp
  ultimately show ?thesis
    using look_char [OF 1 assms(2)] at_drop(1) [OF assms(1)] by (simp add: parseNode_def node_head_def)
qed

lemma stop_at_end:
  assumes "drop i m = NUL # s" and "length m = Suc n"
  shows "parseNode m n depth i = Some (Inr (no_node depth, Suc i))"
proof -
  have "skipWhiteSpace m n i = Inr i"
    using assms(1) by (rule white_here) (simp add: isspace_def char_code_def)
  moreover have "xml_read m n True i = Inr (Some i, Suc i)"
    by (rule read_here [OF assms(1) in_memory [OF assms]]) simp_all
  ultimately show ?thesis
    using at_drop(1) [OF assms(1)] by (simp add: parseNode_def node_head_def)
qed

lemma elements_first:
  assumes "\<forall>e \<in> set es. element_ok e" and "\<not> line_end y"
  obtains y' s' where "concat (map element_text es) @ y # s = y' # s'" "\<not> line_end y'"
proof (cases es)
  case Nil
  then show ?thesis using that assms(2) by simp
next
  case (Cons e fs)
  then obtain c t where "element_text e = CHR ''<'' # c # t" using element_text_first [of e] assms(1) by auto
  then show ?thesis using that [of "CHR ''<''"] Cons by simp
qed

definition parsed_as_written :: "element \<Rightarrow> bool" where
  "parsed_as_written e \<longleftrightarrow> (\<forall>m n depth i y s. length m = Suc n \<longrightarrow> drop i m = element_text e @ y # s \<longrightarrow> \<not> line_end y \<longrightarrow> element_ok e \<longrightarrow>
     (\<exists>j. parseNode m n depth i = Some (Inr (element_node depth e, j)) \<and> drop j m = y # s))"

lemma as_written:
  "parsed_as_written e \<Longrightarrow> length m = Suc n \<Longrightarrow> drop i m = element_text e @ y # s \<Longrightarrow> \<not> line_end y \<Longrightarrow> element_ok e \<Longrightarrow>
    \<exists>j. parseNode m n depth i = Some (Inr (element_node depth e, j)) \<and> drop j m = y # s"
  unfolding parsed_as_written_def by metis

lemma elements_read:
  assumes "drop i m = concat (map element_text es) @ y # s" and "length m = Suc n" and "\<not> line_end y"
    and "\<forall>e \<in> set es. element_ok e \<and> parsed_as_written e"
    and "\<And>j. drop j m = y # s \<Longrightarrow> parseNode m n depth j = Some (Inr (no_node depth, k j))"
  shows "\<exists>j. parse_nodes m n depth i = Some (Inr (map (element_node depth) es, k j)) \<and> drop j m = y # s"
  using assms(1,4)
proof (induction es arbitrary: i)
  case Nil
  then have "drop i m = y # s" by simp
  with assms(5) [OF this] show ?case by (auto simp: parse_nodes_step [of m n depth i])
next
  case (Cons e es)
  have ok: "\<forall>e \<in> set es. element_ok e" using Cons.prems(2) by simp
  obtain y' s' where y': "concat (map element_text es) @ y # s = y' # s'" "\<not> line_end y'"
    using elements_first [OF ok assms(3)] by blast
  have "drop i m = element_text e @ y' # s'" using Cons.prems(1) y'(1) by simp
  then obtain j where j: "parseNode m n depth i = Some (Inr (element_node depth e, j))" "drop j m = y' # s'"
    using as_written [OF _ assms(2) _ y'(2)] Cons.prems(2) by (metis list.set_intros(1))
  then show ?case
    using Cons.IH [of j] Cons.prems(2) y'(1) by (auto simp: parse_nodes_step [of m n depth i])
qed

lemma closed_written: "parsed_as_written (Closed nm ps)"
  unfolding parsed_as_written_def
proof (intro allI impI)
  fix m n depth i y s
  assume m: "length m = Suc n" and d: "drop i m = element_text (Closed nm ps) @ y # s" and y: "\<not> line_end y"
    and "element_ok (Closed nm ps)"
  then have ok: "tag_ok nm ps" "\<forall>p \<in> set ps. property_ok p" by (simp_all add: tag_ok_def)
  obtain j where j: "node_head m n i = Inr (Some (CHR ''/'', nm), j)" "stands_at m j (tag_rest ps True @ y # s)"
    using head_read [of i m nm ps True y s n] d m y ok(1) by auto
  obtain k where k: "parseProperties m n (CHR ''/'') j [] = Some (Inr (insert_all ps [], k))" "drop k m = ''/>'' @ y # s"
    using properties_read [OF j(2) m y ok(2), of "[]"] by auto
  have "drop (k + 2) m = y # s" using drop_word [of k m "''/>''"] k(2) by simp
  then show "\<exists>j. parseNode m n depth i = Some (Inr (element_node depth (Closed nm ps), j)) \<and> drop j m = y # s"
    by (simp add: parseNode_def j(1) k(1) middle_closed [OF k(2) m y])
qed

lemma body_written: "parsed_as_written (Body nm ps v)"
  unfolding parsed_as_written_def
proof (intro allI impI)
  fix m n depth i y s
  assume m: "length m = Suc n" and d: "drop i m = element_text (Body nm ps v) @ y # s" and y: "\<not> line_end y"
    and "element_ok (Body nm ps v)"
  then have ok: "tag_ok nm ps" "\<forall>p \<in> set ps. property_ok p" and v: "v \<noteq> []" "\<not> isspace (hd v)" "\<forall>c \<in> set v. body_char c"
    by (simp_all add: tag_ok_def)
  obtain c w where c: "v = c # w" using v(1) by (cases v) auto
  then have c': "\<not> line_end c" "\<not> isspace c" "c \<noteq> CHR ''<''" using v(2,3) by (simp_all add: body_char_def)
  obtain j where j: "node_head m n i = Inr (Some (CHR ''/'', nm), j)" "stands_at m j (tag_rest ps False @ c # w @ closing_tag nm @ y # s)"
    using head_read [of i m nm ps False c "w @ closing_tag nm @ y # s" n] d m c c'(1) ok(1) by auto
  obtain k where k: "parseProperties m n (CHR ''/'') j [] = Some (Inr (insert_all ps [], k))"
      "drop k m = CHR ''>'' # c # w @ closing_tag nm @ y # s"
    using properties_read [OF j(2) m c'(1) ok(2), of "[]"] by auto
  have b: "drop (Suc k) m = v @ CHR ''<'' # CHR ''/'' # nm @ CHR ''>'' # y # s" using at_drop(2) [OF k(2)] c by simp
  have e: "drop (Suc k + length v) m = closing_tag nm @ y # s" using drop_word [OF b] by simp
  have "xml_readValue m n NUL True (Suc k) = Inr (v, Suc k + length v)" by (rule body_read [OF b m _ v]) simp
  moreover note middle_open [OF k(2) m c'(2)] tail_read [OF e m y ok(1)] drop_word [OF e]
  ultimately show "\<exists>j. parseNode m n depth i = Some (Inr (element_node depth (Body nm ps v), j)) \<and> drop j m = y # s"
    using c'(3) by (simp add: parseNode_def j(1) k(1))
qed

lemma within_written:
  assumes "\<forall>e \<in> set es. parsed_as_written e"
  shows "parsed_as_written (Within nm ps es)"
  unfolding parsed_as_written_def
proof (intro allI impI)
  fix m n depth i y s
  assume m: "length m = Suc n" and d: "drop i m = element_text (Within nm ps es) @ y # s" and y: "\<not> line_end y"
    and "element_ok (Within nm ps es)"
  then have ok: "tag_ok nm ps" "\<forall>p \<in> set ps. property_ok p" "\<forall>e \<in> set es. element_ok e" by (simp_all add: tag_ok_def)
  let ?in = "concat (map element_text es) @ CHR ''<'' # CHR ''/'' # nm @ CHR ''>'' # y # s"
  have "\<exists>w. ?in = CHR ''<'' # w"
    using ok(3) element_text_first by (cases es) fastforce+
  then obtain w where w: "?in = CHR ''<'' # w" ..
  obtain j where j: "node_head m n i = Inr (Some (CHR ''/'', nm), j)" "stands_at m j (tag_rest ps False @ CHR ''<'' # w)"
    using head_read [of i m nm ps False "CHR ''<''" w n] d m ok(1) w by auto
  obtain k where k: "parseProperties m n (CHR ''/'') j [] = Some (Inr (insert_all ps [], k))" "drop k m = CHR ''>'' # CHR ''<'' # w"
    using properties_read [OF j(2) m _ ok(2), of "[]"] by auto
  have b: "drop (Suc k) m = ?in" using at_drop(2) [OF k(2)] w by simp
  have "\<exists>l. parse_nodes m n (depth + 1) (Suc k) = Some (Inr (map (element_node (depth + 1)) es, l)) \<and>
      drop l m = CHR ''<'' # CHR ''/'' # nm @ CHR ''>'' # y # s"
    using ok(3) assms stop_at_closing_tag [OF _ m]
    by (intro elements_read [OF b m, where k = "\<lambda>j. j"]) simp_all
  then obtain l where l: "parse_nodes m n (depth + 1) (Suc k) = Some (Inr (map (element_node (depth + 1)) es, l))"
      "drop l m = closing_tag nm @ y # s" by auto
  have "\<not> isspace (CHR ''<'')" by (simp add: isspace_def char_code_def)
  note middle_open [OF k(2) m this] tail_read [OF l(2) m y ok(1)] drop_word [OF l(2)]
  then show "\<exists>j. parseNode m n depth i = Some (Inr (element_node depth (Within nm ps es), j)) \<and> drop j m = y # s"
    by (simp add: parseNode_def j(1) k(1) l(1))
qed

lemma element_written: "parsed_as_written e"
  by (induction e) (simp_all add: closed_written body_written within_written)

text \<open>
  C28: A document of elements, written without line breaks and with a space in front of the end of each
  closed tag, is parsed into exactly those elements: the names, the properties (the first of each name),
  the texts and the nesting.
\<close>

theorem document_round_trip:
  assumes "\<forall>e \<in> set es. element_ok e"
  shows "XmlDocument (concat (map element_text es) @ [NUL]) (length (concat (map element_text es))) =
    Some (Inr \<lparr>xmlValid = es \<noteq> [], xmlRoot = XmlNode False [] [] 0 [] (map (element_node 0) es)\<rparr>)"
proof -
  let ?m = "concat (map element_text es) @ [NUL]"
  let ?n = "length (concat (map element_text es))"
  have "\<exists>j. parse_nodes ?m ?n 0 0 = Some (Inr (map (element_node 0) es, Suc j)) \<and> drop j ?m = [NUL]"
    using assms element_written stop_at_end
    by (intro elements_read [where k = Suc]) simp_all
  then show ?thesis by (auto simp: XmlDocument_def xml_parse_def)
qed

theorem document_round_trip_witness:
  "XmlDocument (concat (map element_text [Within ''a'' [(''k'', ''a b/c'')] [Body ''b'' [] ''x'', Closed ''c'' []]]) @ [NUL])
      (length (concat (map element_text [Within ''a'' [(''k'', ''a b/c'')] [Body ''b'' [] ''x'', Closed ''c'' []]]))) =
    Some (Inr \<lparr>xmlValid = [Within ''a'' [(''k'', ''a b/c'')] [Body ''b'' [] ''x'', Closed ''c'' []]] \<noteq> [],
      xmlRoot = XmlNode False [] [] 0 [] (map (element_node 0) [Within ''a'' [(''k'', ''a b/c'')] [Body ''b'' [] ''x'', Closed ''c'' []]])\<rparr>)"
  by (rule document_round_trip)
    (simp add: tag_ok_def property_ok_def plain_char_def quoted_char_def body_char_def isspace_def char_code_def)


section \<open>A closed tag without a space\<close>

lemma head_of_closed_tag:
  assumes "drop i m = CHR ''<'' # nm @ ''/>'' @ s" and "length m = Suc n" and "tag_ok nm []"
  shows "node_head m n i = Inr (Some (CHR ''/'', nm), Suc i + length nm + 1)"
proof -
  obtain c w where nm: "nm = c # w" "plain_char c" using assms(3) by (cases nm) (auto simp: tag_ok_def)
  have c: "\<not> line_end c" "c \<noteq> CHR ''/''" "c \<noteq> CHR ''?''" "\<not> isspace c"
    using plain_line [OF nm(2)] nm(2) by (auto simp: plain_char_def)
  have d: "drop (Suc i) m = nm @ ''/>'' @ s" by (rule at_drop(2) [OF assms(1)])
  have e: "drop (Suc i + length nm) m = CHR ''/'' # CHR ''>'' # s" using drop_word [OF d] by simp
  let ?e = "Suc i + length nm"
  have "value_loop m n (CHR ''/'') False (Suc i) None False = value_loop m n (CHR ''/'') False ?e (Some (Suc i)) False"
    using value_word [OF d, of n "CHR ''/''" False None False] in_memory [OF e assms(2)] assms(3) by (simp add: tag_ok_def)
  also have "\<dots> = Inr (Some (Suc i), Some ?e, Suc ?e)"
  proof -
    have "xml_read m n False ?e = Inr (Some ?e, Suc ?e)" by (rule read_char [OF e assms(2)]) simp
    moreover have "lookAhead m n (Suc ?e) = Inr (CHR ''>'')" by (rule look_char [OF at_drop(2) [OF e] assms(2)]) simp
    ultimately show ?thesis using at_drop(1) [OF e] by (subst value_loop.simps) simp
  qed
  finally have "xml_readValue m n (CHR ''/'') False (Suc i) = Inr (nm, Suc ?e)"
    using white_here [OF _ c(4), of "Suc i" m "w @ ''/>'' @ s" n] d take_word [OF d] by (simp add: xml_readValue_def nm(1))
  moreover have "lookAhead m n (Suc i) = Inr c"
    using d c(1) by (intro look_char [OF _ assms(2)]) (simp_all add: nm(1))
  moreover have "skipWhiteSpace m n i = Inr i"
    using assms(1) by (rule white_here) (simp add: isspace_def char_code_def)
  moreover have "xml_read m n True i = Inr (Some i, Suc i)"
    by (rule read_here [OF assms(1) in_memory [OF assms(1,2)]]) simp_all
  ultimately show ?thesis
    using c at_drop(1) [OF assms(1)] by (simp add: node_head_def)
qed

lemma value_at_terminator:
  assumes "drop n m = [NUL]" and "length m = Suc n"
  shows "xml_readValue m n NUL True n = Inl Uncaught"
proof -
  have "xml_read m n False n = Inr (Some n, Suc n)" by (rule read_char [OF assms]) simp
  moreover have "lookAhead m n (Suc n) = Inr NUL" by (simp add: lookAhead_def skip_loop.simps)
  moreover have "value_loop m n NUL True (Suc n) (Some n) False = Inr (Some n, None, Suc n)"
    by (subst value_loop.simps) (simp add: xml_read_def skip_loop.simps)
  moreover have "\<not> isspace NUL" by (simp add: isspace_def char_code_def)
  ultimately have "value_loop m n NUL True n None False = Inr (Some n, None, Suc n)"
    using at_drop(1) [OF assms(1)] by (subst value_loop.simps) simp
  moreover have "skipWhiteSpace m n n = Inr n" by (rule white_here [OF assms(1)]) (simp add: isspace_def char_code_def)
  ultimately show ?thesis by (simp add: xml_readValue_def text_between_def)
qed

text \<open>
  A document that is a closed tag with no space in front of its end is not parsed: the slash is read
  with the name, the tag taken for an opening one, and the search for its text ends in an exception.
\<close>

theorem closed_tag_without_space_throws:
  assumes "nm \<noteq> []" and "\<forall>c \<in> set nm. plain_char c"
  shows "XmlDocument (''<'' @ nm @ ''/>'' @ [NUL]) (length nm + 3) = Some (Inl Uncaught)"
proof -
  define m where "m = ''<'' @ nm @ ''/>'' @ [NUL]"
  let ?n = "length nm + 3" and ?k = "length nm + 2"
  have m: "length m = Suc ?n" "drop 0 m = CHR ''<'' # nm @ ''/>'' @ [NUL]" by (simp_all add: m_def)
  have k: "drop ?k m = CHR ''>'' # NUL # []" by (simp add: m_def)
  have n: "drop ?n m = [NUL]" using at_drop(2) [OF k] by (simp add: numeral_3_eq_3)
  have "tag_ok nm []" using assms by (simp add: tag_ok_def)
  then have "node_head m ?n 0 = Inr (Some (CHR ''/'', nm), ?k)"
    using head_of_closed_tag [OF m(2,1)] by simp
  moreover have "parseProperties m ?n (CHR ''/'') ?k [] = Some (Inr ([], ?k))"
  proof -
    have "xml_read m ?n True ?k = Inr (Some ?k, Suc ?k)" by (rule read_here [OF k]) simp_all
    then show ?thesis
      using property_stop [of m ?n ?k ?k False NUL "[]"] k m(1) by (intro properties_stop) simp
  qed
  moreover have "node_middle m ?n (CHR ''/'') ?k = Inr (BodyText, ?n)"
    using middle_open [OF k m(1)] by (simp add: isspace_def char_code_def)
  moreover note value_at_terminator [OF n m(1)]
  ultimately have "parseNode m ?n 0 0 = Some (Inl Uncaught)" by (simp add: parseNode_def)
  then have "parse_nodes m ?n 0 0 = Some (Inl Uncaught)" by (simp add: parse_nodes_step [of m ?n 0 0])
  then show ?thesis by (simp add: XmlDocument_def xml_parse_def m_def)
qed

theorem closed_tag_without_space_throws_witness:
  "XmlDocument (''<'' @ ''br'' @ ''/>'' @ [NUL]) (length ''br'' + 3) = Some (Inl Uncaught)"
  by (rule closed_tag_without_space_throws) (simp_all add: plain_char_def isspace_def char_code_def)

end
