(* ===== verification/Streams.thy ===== *)
theory Streams
  imports Prelude
begin

text \<open>
  What lies under the messages: the memory the three stream interfaces (\<^verbatim>\<open>control/ControlInterface.cpp\<close>,
  \<^verbatim>\<open>media/MediaServerInterface.cpp\<close>, \<^verbatim>\<open>media/MediaClientInterface.cpp\<close>) and the SIP interface take and give back
  around the calls of libuv. The memory is an explicit store of blocks, a pointer is an address. What
  libuv does is not defined here: it chooses the next event (a read, a completed write, a connection) and
  the results of the calls, which are arguments. \<^verbatim>\<open>malloc\<close> is taken to succeed.
\<close>

section \<open>Memory\<close>

datatype block = Chars string | UvBuf "nat option" nat | UvReq "nat option" | ReadBuffer nat | TcpHandle | Connection

record memory =
  blocks :: "nat \<rightharpoonup> block"
  nextAddress :: nat

definition new_memory :: memory where
  "new_memory = \<lparr>blocks = Map.empty, nextAddress = 0\<rparr>"

definition malloc :: "block \<Rightarrow> memory \<Rightarrow> nat \<times> memory" where
  "malloc b m = (nextAddress m, m\<lparr>blocks := (blocks m)(nextAddress m \<mapsto> b), nextAddress := Suc (nextAddress m)\<rparr>)"

definition load :: "nat \<Rightarrow> memory \<Rightarrow> block outcome" where
  "load a m = (case blocks m a of None \<Rightarrow> Inl Dangling | Some b \<Rightarrow> Inr b)"

definition assign :: "nat \<Rightarrow> block \<Rightarrow> memory \<Rightarrow> memory outcome" where
  "assign a b m = (if blocks m a = None then Inl Dangling else Inr (m\<lparr>blocks := (blocks m)(a \<mapsto> b)\<rparr>))"

definition free :: "nat option \<Rightarrow> memory \<Rightarrow> memory outcome" where
  "free p m = (case p of
       None \<Rightarrow> Inr m
     | Some a \<Rightarrow> if blocks m a = None then Inl Dangling else Inr (m\<lparr>blocks := (blocks m)(a := None)\<rparr>))"

section \<open>Writing\<close>

text \<open>
  The requests handed to libuv and not completed, with their streams; the handles it was given and that
  were not closed; the texts handed to the handler.
\<close>

record streams =
  mem :: memory
  pending :: "(nat \<times> nat) list"
  handles :: "nat list"
  received :: "string list"

definition new_streams :: streams where
  "new_streams = \<lparr>mem = new_memory, pending = [], handles = [], received = []\<rparr>"

text \<open>
  The body of the three \<^verbatim>\<open>Send\<close> functions: the buffer description, its characters, the request. \<open>err\<close> is what
  \<^verbatim>\<open>uv_write\<close> returns; with an error libuv keeps nothing.
\<close>

definition write_text :: "int \<Rightarrow> nat \<Rightarrow> string \<Rightarrow> streams \<Rightarrow> streams outcome" where
  "write_text err stream message s =
     (let (uvBuf, m) = malloc (UvBuf None 0) (mem s);
          (base, m) = malloc (Chars message) m
      in bindO (assign uvBuf (UvBuf (Some base) (length message)) m) (\<lambda>m.
         let (req, m) = malloc (UvReq None) m
         in bindO (assign req (UvReq (Some uvBuf)) m) (\<lambda>m.
            Inr (s\<lparr>mem := m, pending := (if err = 0 then pending s @ [(stream, req)] else pending s)\<rparr>))))"

text \<open>The control interface looks at its stream, the others pass it on; their results differ.\<close>

definition Control_Send :: "int \<Rightarrow> nat option \<Rightarrow> string \<Rightarrow> streams \<Rightarrow> (int \<times> streams) outcome" where
  "Control_Send err stream message s =
     (case stream of
        None \<Rightarrow> Inr (- 1, s)
      | Some st \<Rightarrow> bindO (write_text err st message s) (\<lambda>s. Inr (0, s)))"

definition MediaServer_Send :: "int \<Rightarrow> nat option \<Rightarrow> string \<Rightarrow> streams \<Rightarrow> (int \<times> streams) outcome" where
  "MediaServer_Send err stream message s =
     (case stream of
        None \<Rightarrow> Inl NullDeref
      | Some st \<Rightarrow> bindO (write_text err st message s) (\<lambda>s. Inr (err, s)))"

definition MediaClient_Send :: "int \<Rightarrow> nat option \<Rightarrow> string \<Rightarrow> streams \<Rightarrow> (int \<times> streams) outcome" where
  "MediaClient_Send err stream message s =
     (case stream of
        None \<Rightarrow> Inl NullDeref
      | Some st \<Rightarrow> bindO (write_text err st message s) (\<lambda>s. Inr (0, s)))"

text \<open>\<^verbatim>\<open>on_write\<close>, the same in the three interfaces: after an error it returns before it gives anything back.\<close>

definition on_write :: "nat \<Rightarrow> int \<Rightarrow> memory \<Rightarrow> memory outcome" where
  "on_write req status m =
     bindO (load req m) (\<lambda>r.
       case r of
         UvReq uvBuf \<Rightarrow>
           if status \<noteq> 0 then Inr m
           else (case uvBuf of
                   None \<Rightarrow> Inr m
                 | Some b \<Rightarrow>
                     bindO (load b m) (\<lambda>x.
                       case x of
                         UvBuf base n \<Rightarrow>
                           bindO (case base of
                                    None \<Rightarrow> Inr m
                                  | Some a \<Rightarrow> bindO (free (Some a) m) (\<lambda>m. assign b (UvBuf None 0) m)) (\<lambda>m.
                           bindO (free (Some b) m) (\<lambda>m.
                           bindO (assign req (UvReq None) m) (\<lambda>m.
                             free (Some req) m)))
                       | _ \<Rightarrow> Inl BadCast))
       | _ \<Rightarrow> Inl BadCast)"

definition MediaServer_on_write :: "nat \<Rightarrow> int \<Rightarrow> memory \<Rightarrow> memory outcome" where
  "MediaServer_on_write = on_write"

definition MediaClient_on_write :: "nat \<Rightarrow> int \<Rightarrow> memory \<Rightarrow> memory outcome" where
  "MediaClient_on_write = on_write"

section \<open>Reading and accepting\<close>

text \<open>The interfaces differ in the room of their buffers.\<close>

definition alloc_buffer :: "nat \<Rightarrow> memory \<Rightarrow> nat \<times> memory" where
  "alloc_buffer room m = malloc (ReadBuffer room) m"

definition Control_alloc_buffer :: "memory \<Rightarrow> nat \<times> memory" where
  "Control_alloc_buffer = alloc_buffer 8192"

definition MediaServer_alloc_buffer :: "memory \<Rightarrow> nat \<times> memory" where
  "MediaServer_alloc_buffer = alloc_buffer 16192"

definition MediaClient_alloc_buffer :: "memory \<Rightarrow> nat \<times> memory" where
  "MediaClient_alloc_buffer = alloc_buffer 4096"

text \<open>
  The start of the three \<^verbatim>\<open>on_read\<close> functions: on an error (no text) the stream is closed, and the buffer
  stays; else the text is copied out of it, and it is given back.
\<close>

definition on_read_memory :: "nat \<Rightarrow> string option \<Rightarrow> streams \<Rightarrow> streams outcome" where
  "on_read_memory base r s =
     (case r of
        None \<Rightarrow> Inr s
      | Some message \<Rightarrow>
          bindO (load base (mem s)) (\<lambda>b.
          bindO (free (Some base) (mem s)) (\<lambda>m. Inr (s\<lparr>mem := m, received := received s @ [message]\<rparr>))))"

text \<open>
  \<^verbatim>\<open>on_connect\<close> of the two servers, with the results of the three calls. A handle that was initialised is
  libuv's until it is closed; deleting it does not close it.
\<close>

definition on_connect :: "int \<Rightarrow> int \<Rightarrow> int \<Rightarrow> streams \<Rightarrow> streams outcome" where
  "on_connect init accept start s =
     (let (client, m) = malloc TcpHandle (mem s);
          delete = (\<lambda>s. bindO (free (Some client) (mem s)) (\<lambda>m. Inr (s\<lparr>mem := m\<rparr>)));
          s = s\<lparr>mem := m\<rparr>
      in if init \<noteq> 0 then delete s
         else let s = s\<lparr>handles := handles s @ [client]\<rparr>
              in if accept \<noteq> 0 \<or> start \<noteq> 0 then delete s else Inr s)"

definition MediaServer_on_connect :: "int \<Rightarrow> int \<Rightarrow> int \<Rightarrow> streams \<Rightarrow> streams outcome" where
  "MediaServer_on_connect = on_connect"

section \<open>Runs of a stream interface\<close>

datatype stream_event = Sends nat string int | Completes nat int | Reads "string option" | Connects int int int

definition remove_nth :: "nat \<Rightarrow> 'a list \<Rightarrow> 'a list" where
  "remove_nth k xs = take k xs @ drop (Suc k) xs"

definition stream_step :: "nat \<Rightarrow> stream_event \<Rightarrow> streams \<Rightarrow> streams outcome" where
  "stream_step room e s =
     (case e of
        Sends stream message err \<Rightarrow> write_text err stream message s
      | Completes k status \<Rightarrow>
          bindO (on_write (snd (pending s ! k)) status (mem s)) (\<lambda>m. Inr (s\<lparr>mem := m, pending := remove_nth k (pending s)\<rparr>))
      | Reads r \<Rightarrow> (let (base, m) = alloc_buffer room (mem s) in on_read_memory base r (s\<lparr>mem := m\<rparr>))
      | Connects init accept start \<Rightarrow> on_connect init accept start s)"

text \<open>libuv completes only what was handed to it, and reads no more than the buffer holds.\<close>

fun enabled :: "nat \<Rightarrow> stream_event \<Rightarrow> streams \<Rightarrow> bool" where
  "enabled room (Completes k status) s = (k < length (pending s))"
| "enabled room (Reads (Some message)) s = (length message \<le> room)"
| "enabled room _ s = True"

inductive stream_run :: "nat \<Rightarrow> stream_event list \<Rightarrow> streams \<Rightarrow> bool" for room where
  start: "stream_run room [] new_streams"
| event: "stream_run room es s \<Longrightarrow> enabled room e s \<Longrightarrow> stream_step room e s = Inr s' \<Longrightarrow> stream_run room (es @ [e]) s'"


section \<open>What a message holds\<close>

text \<open>A message on its way: the addresses of request, description and characters, and the text.\<close>

definition holds :: "memory \<Rightarrow> nat \<times> nat \<times> nat \<times> string \<Rightarrow> bool" where
  "holds m x = (case x of (r, b, d, t) \<Rightarrow>
     blocks m r = Some (UvReq (Some b)) \<and> blocks m b = Some (UvBuf (Some d) (length t)) \<and> blocks m d = Some (Chars t))"

definition fresh_above :: "memory \<Rightarrow> bool" where
  "fresh_above m \<longleftrightarrow> (\<forall>a. nextAddress m \<le> a \<longrightarrow> blocks m a = None)"

definition used :: "memory \<Rightarrow> nat" where
  "used m = card (dom (blocks m))"

lemma finite_blocks: "fresh_above m \<Longrightarrow> finite (dom (blocks m))"
  by (rule finite_subset [of _ "{..<nextAddress m}"]) (auto simp: fresh_above_def dom_def, metis not_less option.distinct(1))

definition layout :: "memory \<Rightarrow> (nat \<times> nat \<times> nat \<times> string) list \<Rightarrow> bool" where
  "layout m L \<longleftrightarrow> (\<forall>x \<in> set L. holds m x) \<and> distinct (map fst L) \<and> distinct (map (fst \<circ> snd) L) \<and> distinct (map (fst \<circ> snd \<circ> snd) L)"

definition stream_inv :: "(nat \<times> string) list \<Rightarrow> streams \<Rightarrow> bool" where
  "stream_inv out s \<longleftrightarrow> fresh_above (mem s) \<and> (\<exists>L. layout (mem s) L \<and> map snd (pending s) = map fst L \<and>
     map snd out = map (snd \<circ> snd \<circ> snd) L \<and> map fst out = map fst (pending s))"

lemma holds_kept:
  assumes "holds m x" and "\<And>a. blocks m a \<noteq> None \<Longrightarrow> blocks m' a = blocks m a"
  shows "holds m' x"
  using assms(1) assms(2) [of "fst x"] assms(2) [of "fst (snd x)"] assms(2) [of "fst (snd (snd x))"]
  by (auto simp: holds_def split: prod.splits)

lemma layout_kept:
  assumes "layout m L" and "\<And>a. blocks m a \<noteq> None \<Longrightarrow> blocks m' a = blocks m a"
  shows "layout m' L"
  using assms holds_kept [of m _ m'] unfolding layout_def by blast

lemma malloc_effect:
  assumes "fresh_above m" and "malloc b m = (a, m')"
  shows "fresh_above m'" "blocks m' a = Some b" "blocks m a = None" "used m' = Suc (used m)"
    "\<And>a'. blocks m a' \<noteq> None \<Longrightarrow> blocks m' a' = blocks m a'"
proof -
  have a: "a = nextAddress m" "m' = m\<lparr>blocks := (blocks m)(a \<mapsto> b), nextAddress := Suc a\<rparr>"
    using assms(2) by (auto simp: malloc_def)
  show new: "blocks m a = None" using assms(1) a(1) by (simp add: fresh_above_def)
  then have "a \<notin> dom (blocks m)" by (simp add: dom_def)
  then show "used m' = Suc (used m)" using finite_blocks [OF assms(1)] by (simp add: used_def a(2) del: dom_def)
  show "fresh_above m'" using assms(1) by (simp add: fresh_above_def a)
  show "blocks m' a = Some b" by (simp add: a(2))
  show "\<And>a'. blocks m a' \<noteq> None \<Longrightarrow> blocks m' a' = blocks m a'" using new by (auto simp: a(2))
qed

lemma free_effect:
  assumes "blocks m a \<noteq> None"
  shows "free (Some a) m = Inr (m\<lparr>blocks := (blocks m)(a := None)\<rparr>)"
    and "fresh_above m \<Longrightarrow> fresh_above (m\<lparr>blocks := (blocks m)(a := None)\<rparr>)"
    and "fresh_above m \<Longrightarrow> used m = Suc (used (m\<lparr>blocks := (blocks m)(a := None)\<rparr>))"
proof -
  show "free (Some a) m = Inr (m\<lparr>blocks := (blocks m)(a := None)\<rparr>)" using assms by (simp add: free_def)
  show "fresh_above (m\<lparr>blocks := (blocks m)(a := None)\<rparr>)" if "fresh_above m" using that by (simp add: fresh_above_def)
  have "a \<in> dom (blocks m)" using assms by auto
  then show "used m = Suc (used (m\<lparr>blocks := (blocks m)(a := None)\<rparr>))" if "fresh_above m"
    using card_Suc_Diff1 [OF finite_blocks [OF that], of a] by (simp add: used_def)
qed

text \<open>Sending takes three blocks, next to each other.\<close>

definition sent_memory :: "string \<Rightarrow> memory \<Rightarrow> memory" where
  "sent_memory t m = (let n = nextAddress m in
     m\<lparr>blocks := (blocks m)(n \<mapsto> UvBuf (Some (Suc n)) (length t), Suc n \<mapsto> Chars t, Suc (Suc n) \<mapsto> UvReq (Some n)),
       nextAddress := Suc (Suc (Suc n))\<rparr>)"

lemma write_text_effect:
  "write_text err st t s = Inr (s\<lparr>mem := sent_memory t (mem s),
     pending := (if err = 0 then pending s @ [(st, Suc (Suc (nextAddress (mem s))))] else pending s)\<rparr>)"
  by (simp add: write_text_def malloc_def assign_def sent_memory_def Let_def fun_upd_twist)

lemma sent_memory_effect:
  assumes "fresh_above m"
  defines "n \<equiv> nextAddress m"
  shows "fresh_above (sent_memory t m)" "used (sent_memory t m) = used m + 3"
    "holds (sent_memory t m) (Suc (Suc n), n, Suc n, t)"
    "\<And>a. blocks m a \<noteq> None \<Longrightarrow> blocks (sent_memory t m) a = blocks m a"
proof -
  have new: "blocks m a = None" if "n \<le> a" for a using assms that by (simp add: fresh_above_def)
  show "fresh_above (sent_memory t m)" using assms by (simp add: fresh_above_def sent_memory_def Let_def)
  show "holds (sent_memory t m) (Suc (Suc n), n, Suc n, t)" by (simp add: holds_def sent_memory_def Let_def n_def)
  show "blocks (sent_memory t m) a = blocks m a" if "blocks m a \<noteq> None" for a
    using that new by (auto simp: sent_memory_def Let_def n_def)
  have "dom (blocks (sent_memory t m)) = insert (Suc (Suc n)) (insert (Suc n) (insert n (dom (blocks m))))"
    by (simp add: sent_memory_def Let_def n_def)
  moreover have "n \<notin> dom (blocks m)" "Suc n \<notin> dom (blocks m)" "Suc (Suc n) \<notin> dom (blocks m)"
    using new by auto
  ultimately show "used (sent_memory t m) = used m + 3"
    using finite_blocks [OF assms(1)] by (simp add: used_def)
qed

text \<open>A completed write gives the three blocks of its message back, and a failed one none.\<close>

definition without :: "memory \<Rightarrow> nat \<times> nat \<times> nat \<times> string \<Rightarrow> memory" where
  "without m x = (case x of (r, b, d, _) \<Rightarrow> m\<lparr>blocks := (blocks m)(r := None, b := None, d := None)\<rparr>)"

lemma on_write_effect:
  assumes "holds m (r, b, d, t)"
  shows "on_write r status m = Inr (if status = 0 then without m (r, b, d, t) else m)"
proof -
  have "r \<noteq> b" "r \<noteq> d" "b \<noteq> d" using assms by (auto simp: holds_def)
  then show ?thesis
    using assms by (auto simp: on_write_def load_def free_def assign_def holds_def without_def fun_upd_twist)
qed

lemma without_effect:
  assumes "holds m x" and "fresh_above m"
  shows "fresh_above (without m x)" "used m = used (without m x) + 3"
proof -
  obtain r b d t where x: "x = (r, b, d, t)" by (cases x)
  have ne: "r \<noteq> b" "r \<noteq> d" "b \<noteq> d" using assms(1) by (auto simp: holds_def x)
  show fresh: "fresh_above (without m x)" using assms(2) by (simp add: fresh_above_def without_def x)
  have "dom (blocks m) = insert r (insert b (insert d (dom (blocks (without m x)))))"
    using assms(1) by (auto simp: holds_def without_def x)
  moreover have "r \<notin> dom (blocks (without m x))" "b \<notin> dom (blocks (without m x))" "d \<notin> dom (blocks (without m x))"
    by (simp_all add: without_def x)
  moreover have "finite (dom (blocks (without m x)))"
    by (rule finite_blocks [OF fresh])
  ultimately show "used m = used (without m x) + 3"
    using ne by (simp add: used_def)
qed

lemma without_keeps: "holds m x \<Longrightarrow> holds m y \<Longrightarrow> fst x \<noteq> fst y \<Longrightarrow> fst (snd x) \<noteq> fst (snd y) \<Longrightarrow>
    fst (snd (snd x)) \<noteq> fst (snd (snd y)) \<Longrightarrow> holds (without m x) y"
  by (auto simp: holds_def without_def split: prod.splits)

section \<open>Every run\<close>

text \<open>The messages handed over and not completed, from the events alone.\<close>

definition outstanding_step :: "(nat \<times> string) list \<Rightarrow> stream_event \<Rightarrow> (nat \<times> string) list" where
  "outstanding_step out e = (case e of
       Sends stream message err \<Rightarrow> if err = 0 then out @ [(stream, message)] else out
     | Completes k status \<Rightarrow> remove_nth k out
     | _ \<Rightarrow> out)"

definition outstanding :: "stream_event list \<Rightarrow> (nat \<times> string) list" where
  "outstanding es = foldl outstanding_step [] es"

text \<open>What an event leaves in use: three blocks for a message, one for a failed read and for a connection.\<close>

fun taken :: "stream_event \<Rightarrow> nat" where
  "taken (Sends _ _ _) = 3"
| "taken (Completes _ _) = 0"
| "taken (Reads r) = (if r = None then 1 else 0)"
| "taken (Connects init accept start) = (if init = 0 \<and> accept = 0 \<and> start = 0 then 1 else 0)"

fun returned :: "stream_event \<Rightarrow> nat" where
  "returned (Completes _ status) = (if status = 0 then 3 else 0)"
| "returned _ = 0"

lemma map_remove_nth: "map f (remove_nth k xs) = remove_nth k (map f xs)"
  by (simp add: remove_nth_def take_map drop_map)

lemma set_remove_nth: "set (remove_nth k xs) \<subseteq> set xs"
  by (auto simp: remove_nth_def dest: in_set_takeD in_set_dropD)

lemma distinct_remove_nth:
  assumes "distinct xs"
  shows "distinct (remove_nth k xs)" and "k < length xs \<Longrightarrow> xs ! k \<notin> set (remove_nth k xs)"
proof -
  have split: "k < length xs \<Longrightarrow> xs = take k xs @ xs ! k # drop (Suc k) xs" by (rule id_take_nth_drop)
  have "set (take k xs) \<inter> set (drop k xs) = {}"
    using assms by (metis append_take_drop_id distinct_append)
  moreover have "set (drop (Suc k) xs) \<subseteq> set (drop k xs)" by (rule set_drop_subset_set_drop) simp
  ultimately have "set (take k xs) \<inter> set (drop (Suc k) xs) = {}" by blast
  then show "distinct (remove_nth k xs)" using assms by (simp add: remove_nth_def)
  show "xs ! k \<notin> set (remove_nth k xs)" if "k < length xs"
    using assms split [OF that] unfolding remove_nth_def by (metis distinct.simps(2) distinct_append
        Un_iff disjoint_iff list.set_intros(1) set_append)
qed

lemma inv_sends:
  assumes "stream_inv out s"
  shows "stream_inv (outstanding_step out (Sends st t err)) (s\<lparr>mem := sent_memory t (mem s),
     pending := (if err = 0 then pending s @ [(st, Suc (Suc (nextAddress (mem s))))] else pending s)\<rparr>)"
proof -
  let ?n = "nextAddress (mem s)" and ?m = "sent_memory t (mem s)"
  obtain L where fresh: "fresh_above (mem s)" and L: "layout (mem s) L" "map snd (pending s) = map fst L"
      "map snd out = map (snd \<circ> snd \<circ> snd) L" "map fst out = map fst (pending s)"
    using assms by (auto simp: stream_inv_def)
  note m = sent_memory_effect [OF fresh, where t = t]
  have kept: "layout ?m L" by (rule layout_kept [OF L(1) m(4)])
  have old: "fst x < ?n \<and> fst (snd x) < ?n \<and> fst (snd (snd x)) < ?n" if "x \<in> set L" for x
  proof -
    have "holds (mem s) x" using L(1) that by (simp add: layout_def)
    then show ?thesis using fresh unfolding holds_def fresh_above_def
      by (auto split: prod.splits) (metis not_le option.distinct(1))+
  qed
  have "layout ?m (L @ [(Suc (Suc ?n), ?n, Suc ?n, t)])"
    using kept m(3) old unfolding layout_def by fastforce
  then show ?thesis
    using kept m(1) L(2-4)
    by (cases "err = 0")
      (auto simp: stream_inv_def outstanding_step_def intro: exI [of _ "L @ [(Suc (Suc ?n), ?n, Suc ?n, t)]"])
qed

lemma inv_completes:
  assumes "stream_inv out s" and "k < length (pending s)"
  shows "\<exists>m. on_write (snd (pending s ! k)) status (mem s) = Inr m \<and> used (mem s) = used m + (if status = 0 then 3 else 0) \<and>
    stream_inv (remove_nth k out) (s\<lparr>mem := m, pending := remove_nth k (pending s)\<rparr>)"
proof -
  obtain L where fresh: "fresh_above (mem s)" and L: "layout (mem s) L" "map snd (pending s) = map fst L"
      "map snd out = map (snd \<circ> snd \<circ> snd) L" "map fst out = map fst (pending s)"
    using assms(1) by (auto simp: stream_inv_def)
  have k: "k < length L" using assms(2) L(2) by (metis length_map)
  define x where "x = L ! k"
  have x: "holds (mem s) x" "x \<in> set L" using L(1) k by (simp_all add: layout_def x_def)
  have "snd (pending s ! k) = fst x" using L(2) k assms(2) by (metis nth_map x_def)
  then have step: "on_write (snd (pending s ! k)) status (mem s) = Inr (if status = 0 then without (mem s) x else mem s)"
    using on_write_effect x(1) by (cases x) simp
  let ?L = "remove_nth k L"
  have other: "f x \<notin> set (map f ?L)" if "distinct (map f L)" for f :: "nat \<times> nat \<times> nat \<times> string \<Rightarrow> nat"
    using distinct_remove_nth(2) [OF that, of k] k by (simp add: map_remove_nth x_def)
  have "holds (without (mem s) x) y" if "y \<in> set ?L" for y
  proof (rule without_keeps [OF x(1)])
    show "holds (mem s) y" using L(1) subsetD [OF set_remove_nth that] by (simp add: layout_def)
    show "fst x \<noteq> fst y" using other [of fst] L(1) that unfolding layout_def by auto
    show "fst (snd x) \<noteq> fst (snd y)" using other [of "fst \<circ> snd"] L(1) that unfolding layout_def by auto
    show "fst (snd (snd x)) \<noteq> fst (snd (snd y))" using other [of "fst \<circ> snd \<circ> snd"] L(1) that unfolding layout_def by auto
  qed
  moreover have "holds (mem s) y" if "y \<in> set ?L" for y
    using L(1) subsetD [OF set_remove_nth that] by (simp add: layout_def)
  ultimately have "layout (if status = 0 then without (mem s) x else mem s) ?L"
    using L(1) unfolding layout_def map_remove_nth by (auto intro: distinct_remove_nth(1))
  moreover have "map snd (remove_nth k (pending s)) = map fst ?L" "map snd (remove_nth k out) = map (snd \<circ> snd \<circ> snd) ?L"
    "map fst (remove_nth k out) = map fst (remove_nth k (pending s))"
    using L(2-4) by (simp_all add: map_remove_nth)
  ultimately show ?thesis
    unfolding step stream_inv_def using fresh without_effect [OF x(1) fresh] by auto
qed

lemma inv_memory:
  assumes "stream_inv out s" and "fresh_above m" and "\<And>a. blocks (mem s) a \<noteq> None \<Longrightarrow> blocks m a = blocks (mem s) a"
    and "pending s' = pending s" and "mem s' = m"
  shows "stream_inv out s'"
  using assms layout_kept [of "mem s" _ m] unfolding stream_inv_def by auto

lemma malloc_free:
  assumes "fresh_above m" and "malloc b m = (a, m')"
  obtains m'' where "free (Some a) m' = Inr m''" "fresh_above m''" "used m'' = used m" "load a m' = Inr b"
    "\<And>a'. blocks m a' \<noteq> None \<Longrightarrow> blocks m'' a' = blocks m a'"
proof -
  note e = malloc_effect [OF assms]
  have live: "blocks m' a \<noteq> None" using e(2) by simp
  show thesis
  proof (rule that [OF free_effect(1) [OF live] free_effect(2) [OF live e(1)]])
    show "used (m'\<lparr>blocks := (blocks m')(a := None)\<rparr>) = used m"
      using free_effect(3) [OF live e(1)] e(4) by simp
    show "load a m' = Inr b" using e(2) by (simp add: load_def)
    show "blocks (m'\<lparr>blocks := (blocks m')(a := None)\<rparr>) a' = blocks m a'" if "blocks m a' \<noteq> None" for a'
      using that e(3) e(5) [OF that] by auto
  qed
qed

lemma step_reads:
  assumes "stream_inv out s"
  shows "\<exists>s'. stream_step room (Reads r) s = Inr s' \<and> stream_inv out s' \<and> used (mem s') = used (mem s) + taken (Reads r)"
proof -
  obtain a m' where a: "malloc (ReadBuffer room) (mem s) = (a, m')" by (cases "malloc (ReadBuffer room) (mem s)")
  have fresh: "fresh_above (mem s)" using assms by (simp add: stream_inv_def)
  show ?thesis
  proof (cases r)
    case None
    have "stream_inv out (s\<lparr>mem := m'\<rparr>)"
      by (rule inv_memory [OF assms malloc_effect(1) [OF fresh a] malloc_effect(5) [OF fresh a]]) simp_all
    then show ?thesis
      using None a malloc_effect(4) [OF fresh a] by (simp add: stream_step_def alloc_buffer_def on_read_memory_def)
  next
    case (Some t)
    obtain m'' where m'': "free (Some a) m' = Inr m''" "fresh_above m''" "used m'' = used (mem s)" "load a m' = Inr (ReadBuffer room)"
        "\<And>a'. blocks (mem s) a' \<noteq> None \<Longrightarrow> blocks m'' a' = blocks (mem s) a'"
      using malloc_free [OF fresh a] by blast
    have "stream_inv out (s\<lparr>mem := m'', received := received s @ [t]\<rparr>)"
      by (rule inv_memory [OF assms m''(2,5)]) simp_all
    then show ?thesis
      using Some a m''(1,3,4) by (simp add: stream_step_def alloc_buffer_def on_read_memory_def)
  qed
qed

lemma step_connects:
  assumes "stream_inv out s"
  shows "\<exists>s'. stream_step room (Connects i c d) s = Inr s' \<and> stream_inv out s' \<and> used (mem s') = used (mem s) + taken (Connects i c d)"
proof -
  obtain a m' where a: "malloc TcpHandle (mem s) = (a, m')" by (cases "malloc TcpHandle (mem s)")
  have fresh: "fresh_above (mem s)" using assms by (simp add: stream_inv_def)
  obtain m'' where m'': "free (Some a) m' = Inr m''" "fresh_above m''" "used m'' = used (mem s)"
      "\<And>a'. blocks (mem s) a' \<noteq> None \<Longrightarrow> blocks m'' a' = blocks (mem s) a'"
    using malloc_free [OF fresh a] by blast
  have kept: "stream_inv out (s\<lparr>mem := m', handles := h\<rparr>)" for h
    by (rule inv_memory [OF assms malloc_effect(1) [OF fresh a] malloc_effect(5) [OF fresh a]]) simp_all
  have "stream_inv out (s\<lparr>handles := h, mem := m''\<rparr>)" for h
    by (rule inv_memory [OF assms m''(2,4)]) simp_all
  from this [of "handles s"] this [of "handles s @ [a]"] kept [of "handles s @ [a]"] show ?thesis
    using a m''(1,3) malloc_effect(4) [OF fresh a] by (simp add: stream_step_def on_connect_def Let_def)
qed

lemma step_ok:
  assumes "stream_inv out s" and "enabled room e s"
  shows "\<exists>s'. stream_step room e s = Inr s' \<and> stream_inv (outstanding_step out e) s' \<and>
    used (mem s') + returned e = used (mem s) + taken e"
proof (cases e)
  case (Sends st t err)
  have "fresh_above (mem s)" using assms(1) by (simp add: stream_inv_def)
  then show ?thesis
    using inv_sends [OF assms(1)] by (simp add: Sends stream_step_def write_text_effect sent_memory_effect)
next
  case (Completes k status)
  then show ?thesis
    using inv_completes [OF assms(1), of k status] assms(2) by (auto simp: stream_step_def outstanding_step_def)
next
  case (Reads r)
  then show ?thesis using step_reads [OF assms(1)] by (simp add: outstanding_step_def)
next
  case (Connects i c d)
  then show ?thesis using step_connects [OF assms(1)] by (simp add: outstanding_step_def del: taken.simps)
qed

lemma stream_run_inv:
  "stream_run room es s \<Longrightarrow> stream_inv (outstanding es) s \<and> used (mem s) + sum_list (map returned es) = sum_list (map taken es)"
proof (induction rule: stream_run.induct)
  case start
  show ?case by (simp add: stream_inv_def layout_def outstanding_def new_streams_def new_memory_def fresh_above_def used_def)
next
  case (event es s e s')
  then show ?case using step_ok [of "outstanding es" s room e] by (auto simp: outstanding_def)
qed

text \<open>The text libuv reads for a request: it follows the pointers of the request and its description.\<close>

definition text_at :: "memory \<Rightarrow> nat \<Rightarrow> string option" where
  "text_at m req = (case blocks m req of
       Some (UvReq (Some b)) \<Rightarrow> (case blocks m b of
           Some (UvBuf (Some d) n) \<Rightarrow> (case blocks m d of Some (Chars t) \<Rightarrow> Some (take n t) | _ \<Rightarrow> None)
         | _ \<Rightarrow> None)
     | _ \<Rightarrow> None)"

lemma text_at_holds: "holds m x \<Longrightarrow> text_at m (fst x) = Some (snd (snd (snd x)))"
  by (auto simp: holds_def text_at_def split: prod.splits)

lemma inv_texts:
  assumes "stream_inv out s"
  shows "map (\<lambda>(st, r). (st, text_at (mem s) r)) (pending s) = map (\<lambda>(st, t). (st, Some t)) out"
proof -
  obtain L where L: "layout (mem s) L" "map snd (pending s) = map fst L" "map snd out = map (snd \<circ> snd \<circ> snd) L"
      "map fst out = map fst (pending s)"
    using assms by (auto simp: stream_inv_def)
  have "map (text_at (mem s)) (map snd (pending s)) = map Some (map snd out)"
    unfolding L(2,3) using L(1) text_at_holds by (simp add: layout_def)
  then have "zip (map fst (pending s)) (map (text_at (mem s)) (map snd (pending s))) = zip (map fst out) (map Some (map snd out))"
    using L(4) by simp
  then show ?thesis
    by (simp add: zip_map_map case_prod_unfold zip_same_conv_map comp_def)
qed

text \<open>
  C20: Whatever libuv reports, the texts of the messages on their way lie in memory as they were sent: what a
  request leads to through its pointers is, request by request, what was handed over and not completed.
\<close>

theorem messages_on_their_way_intact:
  assumes "stream_run room es s"
  shows "map (\<lambda>(st, r). (st, text_at (mem s) r)) (pending s) = map (\<lambda>(st, t). (st, Some t)) (outstanding es)"
  using stream_run_inv [OF assms] by (intro inv_texts) simp

text \<open>
  C21: In every run no event a stream interface can get touches memory that was given back, and what is
  in use is accounted for: three blocks for each message sent, given back by a completed write only, so
  that each failed write and each failed read leaves its blocks behind.
\<close>

theorem stream_memory_accounted:
  assumes "stream_run room es s" and "enabled room e s"
  shows "\<exists>s'. stream_step room e s = Inr s' \<and>
    used (mem s') + sum_list (map returned (es @ [e])) = sum_list (map taken (es @ [e]))"
  using step_ok [OF _ assms(2), of "outstanding es"] stream_run_inv [OF assms(1)] by fastforce

text \<open>A failed accept deletes a handle that was initialised and never closed.\<close>

theorem failed_accept_dangles:
  assumes "accept \<noteq> 0 \<or> start \<noteq> 0"
  shows "\<exists>s'. on_connect 0 accept start s = Inr s' \<and> (\<exists>a \<in> set (handles s'). blocks (mem s') a = None)"
  using assms by (auto simp: on_connect_def malloc_def free_def Let_def)

section \<open>The SIP interface\<close>

text \<open>
  \<^verbatim>\<open>sendMessage\<close> takes three blocks, and \<^verbatim>\<open>onUdpSend\<close> gives none back. The buffer of a datagram is given
  back; that of a TCP read only when nothing was read. A connection is an object (with the message buffer
  and the parser it owns, one block here) and a handle.
\<close>

definition sendMessage_memory :: "string \<Rightarrow> memory \<Rightarrow> memory outcome" where
  "sendMessage_memory message m =
     (let (buf, m) = malloc (UvBuf None (length message)) m;
          (base, m) = malloc (Chars message) m
      in bindO (assign buf (UvBuf (Some base) (length message)) m) (\<lambda>m.
         let (req, m) = malloc (UvReq None) m in Inr m))"

definition onUdpSend :: "nat \<Rightarrow> int \<Rightarrow> memory \<Rightarrow> memory outcome" where
  "onUdpSend req status m = Inr m"

abbreviation sip_room :: nat where "sip_room \<equiv> 8192"

definition sip_alloc_buffer :: "memory \<Rightarrow> nat \<times> memory" where
  "sip_alloc_buffer = alloc_buffer sip_room"

definition udp_read_memory :: "memory \<Rightarrow> memory outcome" where
  "udp_read_memory m = (let (base, m) = sip_alloc_buffer m in if sip_room \<noteq> 0 then free (Some base) m else Inr m)"

definition tcp_read_memory :: "int \<Rightarrow> memory \<Rightarrow> memory outcome" where
  "tcp_read_memory bytes_read m =
     (let (base, m) = sip_alloc_buffer m in if bytes_read = 0 then free (Some base) m else Inr m)"

definition onTcpConnection_memory :: "int \<Rightarrow> memory \<Rightarrow> memory outcome" where
  "onTcpConnection_memory status m =
     (if status \<noteq> 0 then Inr m
      else let (sipConnection, m) = malloc Connection m; (client, m) = malloc TcpHandle m in Inr m)"

datatype sip_event = SipSends string | SipSent nat int | UdpReads int | TcpReads int | TcpConnects int

definition sip_memory_step :: "sip_event \<Rightarrow> memory \<Rightarrow> memory outcome" where
  "sip_memory_step e m = (case e of
       SipSends message \<Rightarrow> sendMessage_memory message m
     | SipSent req status \<Rightarrow> onUdpSend req status m
     | UdpReads n \<Rightarrow> udp_read_memory m
     | TcpReads n \<Rightarrow> tcp_read_memory n m
     | TcpConnects status \<Rightarrow> onTcpConnection_memory status m)"

fun sip_memory_run :: "sip_event list \<Rightarrow> memory \<Rightarrow> memory outcome" where
  "sip_memory_run [] m = Inr m"
| "sip_memory_run (e # es) m = bindO (sip_memory_step e m) (sip_memory_run es)"

fun left_behind :: "sip_event \<Rightarrow> nat" where
  "left_behind (SipSends _) = 3"
| "left_behind (SipSent _ _) = 0"
| "left_behind (UdpReads _) = 0"
| "left_behind (TcpReads n) = (if n = 0 then 0 else 1)"
| "left_behind (TcpConnects status) = (if status = 0 then 2 else 0)"

lemma take_one: "fresh_above m \<Longrightarrow> \<exists>a m'. malloc b m = (a, m') \<and> fresh_above m' \<and> used m' = Suc (used m) \<and> blocks m' a = Some b"
  using malloc_effect [of m b] by (cases "malloc b m") auto

lemma sip_memory_step_ok:
  assumes "fresh_above m"
  shows "\<exists>m'. sip_memory_step e m = Inr m' \<and> fresh_above m' \<and> used m' = used m + left_behind e"
proof (cases e)
  case (SipSends t)
  have "fresh_above (m\<lparr>blocks := b, nextAddress := nextAddress (sent_memory t m)\<rparr>) \<longleftrightarrow> fresh_above (sent_memory t m)"
    if "b = blocks (sent_memory t m)" for b
    using that by (simp add: fresh_above_def)
  obtain a m1 where 1: "malloc (UvBuf None (length t)) m = (a, m1)" "fresh_above m1" "used m1 = Suc (used m)" "blocks m1 a = Some (UvBuf None (length t))"
    using take_one [OF assms] by blast
  obtain d m2 where 2: "malloc (Chars t) m1 = (d, m2)" "fresh_above m2" "used m2 = Suc (used m1)"
    using take_one [OF 1(2)] by blast
  have live: "blocks m2 a \<noteq> None" using malloc_effect(5) [OF 1(2) 2(1), of a] 1(4) by simp
  let ?m3 = "m2\<lparr>blocks := (blocks m2)(a \<mapsto> UvBuf (Some d) (length t))\<rparr>"
  have "a < nextAddress m2" using live 2(2) by (metis fresh_above_def not_le)
  then have 3: "fresh_above ?m3" using 2(2) by (simp add: fresh_above_def)
  have "dom (blocks ?m3) = dom (blocks m2)" using live by auto
  then have used3: "used ?m3 = used m2" by (simp add: used_def)
  obtain r m4 where 4: "malloc (UvReq None) ?m3 = (r, m4)" "fresh_above m4" "used m4 = Suc (used ?m3)"
    using take_one [OF 3] by blast
  show ?thesis
    using SipSends 1(1,3) 2(1,3) live used3 4 by (simp add: sip_memory_step_def sendMessage_memory_def assign_def)
next
  case (SipSent r status)
  then show ?thesis using assms by (simp add: sip_memory_step_def onUdpSend_def)
next
  case (UdpReads n)
  obtain a m' where a: "malloc (ReadBuffer sip_room) m = (a, m')" by (cases "malloc (ReadBuffer sip_room) m")
  obtain m'' where "free (Some a) m' = Inr m''" "fresh_above m''" "used m'' = used m" using malloc_free [OF assms a] by blast
  then show ?thesis
    using a UdpReads by (simp add: sip_memory_step_def udp_read_memory_def sip_alloc_buffer_def alloc_buffer_def)
next
  case (TcpReads n)
  obtain a m' where a: "malloc (ReadBuffer sip_room) m = (a, m')" by (cases "malloc (ReadBuffer sip_room) m")
  obtain m'' where "free (Some a) m' = Inr m''" "fresh_above m''" "used m'' = used m" using malloc_free [OF assms a] by blast
  then show ?thesis
    using a malloc_effect(1,4) [OF assms a] TcpReads by (simp add: sip_memory_step_def tcp_read_memory_def sip_alloc_buffer_def alloc_buffer_def)
next
  case (TcpConnects status)
  obtain a m1 where 1: "malloc Connection m = (a, m1)" "fresh_above m1" "used m1 = Suc (used m)"
    using take_one [OF assms] by blast
  obtain d m2 where 2: "malloc TcpHandle m1 = (d, m2)" "fresh_above m2" "used m2 = Suc (used m1)"
    using take_one [OF 1(2)] by blast
  show ?thesis using TcpConnects assms 1(1,3) 2 by (simp add: sip_memory_step_def onTcpConnection_memory_def)
qed

lemma sip_memory_run_ok:
  assumes "fresh_above m"
  shows "\<exists>m'. sip_memory_run es m = Inr m' \<and> used m' = used m + sum_list (map left_behind es)"
  using assms
proof (induction es arbitrary: m)
  case (Cons e es)
  obtain m' where m': "sip_memory_step e m = Inr m'" "fresh_above m'" "used m' = used m + left_behind e"
    using sip_memory_step_ok [OF Cons.prems] by blast
  then show ?case using Cons.IH [OF m'(2)] by (simp add: add.assoc)
qed simp

text \<open>
  The memory of the SIP interface only grows: every message sent leaves three blocks, every TCP
  read with something in it one, every connection two, whatever libuv reports.
\<close>

theorem sip_memory_only_grows:
  "\<exists>m. sip_memory_run es new_memory = Inr m \<and> used m = sum_list (map left_behind es)"
  using sip_memory_run_ok [of new_memory es] by (simp add: new_memory_def fresh_above_def used_def)

section \<open>Witnesses\<close>

lemma example_run: "\<exists>s. stream_run 8192 [Sends 7 ''a'' 0, Sends 7 ''b'' 0, Completes 0 0] s \<and> enabled 8192 (Completes 0 0) s"
proof -
  have "stream_run 8192 [] new_streams" by (rule stream_run.start)
  from stream_run.event [OF this, of "Sends 7 ''a'' 0"]
  obtain s1 where 1: "stream_run 8192 [Sends 7 ''a'' 0] s1" "pending s1 = [(7, Suc (Suc 0))]" "nextAddress (mem s1) = 3"
    by (simp add: stream_step_def write_text_effect new_streams_def new_memory_def sent_memory_def)
  from stream_run.event [OF this(1), of "Sends 7 ''b'' 0"] 1(2,3)
  obtain s2 where 2: "stream_run 8192 [Sends 7 ''a'' 0, Sends 7 ''b'' 0] s2" "pending s2 = [(7, Suc (Suc 0)), (7, 5)]"
    by (simp add: stream_step_def write_text_effect)
  have inv: "stream_inv (outstanding [Sends 7 ''a'' 0, Sends 7 ''b'' 0]) s2" using stream_run_inv [OF 2(1)] by simp
  obtain m where "on_write (snd (pending s2 ! 0)) 0 (mem s2) = Inr m"
    using inv_completes [OF inv, of 0 0] 2(2) by auto
  then have "stream_step 8192 (Completes 0 0) s2 = Inr (s2\<lparr>mem := m, pending := remove_nth 0 (pending s2)\<rparr>)"
    by (simp add: stream_step_def)
  from stream_run.event [OF 2(1) _ this] 2(2) show ?thesis
    by (intro exI [of _ "s2\<lparr>mem := m, pending := remove_nth 0 (pending s2)\<rparr>"]) (simp add: remove_nth_def)
qed

theorem messages_on_their_way_intact_witness:
  "\<exists>s :: streams. map (\<lambda>(st, r). (st, text_at (mem s) r)) (pending s) = map (\<lambda>(st, t). (st, Some t)) [(7, ''b'')]"
proof -
  obtain s where "stream_run 8192 [Sends 7 ''a'' 0, Sends 7 ''b'' 0, Completes 0 0] s" using example_run by blast
  from messages_on_their_way_intact [OF this] show ?thesis
    by (intro exI [of _ s]) (simp add: outstanding_def outstanding_step_def remove_nth_def)
qed

theorem stream_memory_accounted_witness:
  "\<exists>(s :: streams) s'. stream_step 8192 (Completes 0 0) s = Inr s' \<and> used (mem s') = 0"
proof -
  obtain s where s: "stream_run 8192 [Sends 7 ''a'' 0, Sends 7 ''b'' 0, Completes 0 0] s" "enabled 8192 (Completes 0 0) s"
    using example_run by blast
  from stream_memory_accounted [OF s] show ?thesis by auto
qed

end
