(* ===== verification/Buffers.thy ===== *)
theory Buffers
  imports Prelude
begin

text \<open>
  Model of \<^verbatim>\<open>src/src/components/utilities/buffers.h\<close> and \<^verbatim>\<open>buffers.cpp\<close>: views into text that is
  not copied, and the splitting, trimming, comparing and number-reading functions on views. A view
  keeps the memory from its pointer to the end of the allocation, because the number readers pass
  the bare pointer to \<^verbatim>\<open>strtol\<close> and so read past the end of the view. Each loop is a recursion
  over the remaining bytes; the lemmas collected in \<open>buffer_simps\<close> characterise the loops on the
  view's text, so that no other theory has to unfold a loop.
\<close>

section \<open>Views\<close>

record mapped_buffer =
  buf :: string
  blen :: nat

abbreviation view :: "string \<Rightarrow> nat \<Rightarrow> mapped_buffer" where
  "view p n \<equiv> \<lparr>buf = p, blen = n\<rparr>"

definition null_buffer :: mapped_buffer where
  "null_buffer = view [] 0"

definition buffer_of_string :: "string \<Rightarrow> mapped_buffer" where
  "buffer_of_string s = view s (length s)"

definition buffer_of_cstr :: "string \<Rightarrow> mapped_buffer" where
  "buffer_of_cstr m = view m (length (c_str m))"

definition toString :: "mapped_buffer \<Rightarrow> string" where
  "toString b = take (blen b) (buf b)"

definition buffer_empty :: "mapped_buffer \<Rightarrow> bool" where
  "buffer_empty b \<longleftrightarrow> buf b = [] \<or> blen b = 0"

definition bufferToString :: "mapped_buffer \<Rightarrow> string" where
  "bufferToString b = take (blen b) (buf b)"

text \<open>A view lies inside its allocation.\<close>

definition view_wf :: "mapped_buffer \<Rightarrow> bool" where
  "view_wf b \<longleftrightarrow> blen b \<le> length (buf b)"

section \<open>Comparing\<close>

definition same_char :: "bool \<Rightarrow> char \<Rightarrow> char \<Rightarrow> bool" where
  "same_char caseSensitivity a b = (if caseSensitivity then a = b else toupper a = toupper b)"

fun equals_loop :: "bool \<Rightarrow> string \<Rightarrow> string \<Rightarrow> nat \<Rightarrow> bool" where
  "equals_loop cs p v 0 = (deref v = NUL)"
| "equals_loop cs p v (Suc n) =
     (if deref v = NUL \<or> \<not> same_char cs (deref p) (deref v) then False
      else equals_loop cs (tl p) (tl v) n)"

definition buffer_equals :: "mapped_buffer \<Rightarrow> string \<Rightarrow> bool \<Rightarrow> bool" where
  "buffer_equals buffer value cs =
     (if deref value = NUL then blen buffer = 0
      else equals_loop cs (buf buffer) value (blen buffer))"

fun equals_view_loop :: "bool \<Rightarrow> string \<Rightarrow> string \<Rightarrow> nat \<Rightarrow> bool" where
  "equals_view_loop cs p v 0 = True"
| "equals_view_loop cs p v (Suc n) =
     (if \<not> same_char cs (deref p) (deref v) then False else equals_view_loop cs (tl p) (tl v) n)"

definition buffer_equals_view :: "mapped_buffer \<Rightarrow> mapped_buffer \<Rightarrow> bool \<Rightarrow> bool" where
  "buffer_equals_view buffer value cs =
     (if blen buffer \<noteq> blen value then False
      else equals_view_loop cs (buf buffer) (buf value) (blen buffer))"

fun starts_loop :: "bool \<Rightarrow> string \<Rightarrow> string \<Rightarrow> nat \<Rightarrow> bool" where
  "starts_loop cs p v 0 = (deref v = NUL)"
| "starts_loop cs p v (Suc n) =
     (if deref v = NUL then True
      else if \<not> same_char cs (deref p) (deref v) then False
      else starts_loop cs (tl p) (tl v) n)"

definition buffer_starts_with :: "mapped_buffer \<Rightarrow> string \<Rightarrow> bool \<Rightarrow> bool" where
  "buffer_starts_with buffer value cs =
     (if deref value = NUL then False else starts_loop cs (buf buffer) value (blen buffer))"

text \<open>The loop of \<^verbatim>\<open>buffer_ends_with\<close> runs from the last byte of both texts to the front.\<close>

fun ends_loop :: "bool \<Rightarrow> string \<Rightarrow> nat \<Rightarrow> string \<Rightarrow> nat \<Rightarrow> bool" where
  "ends_loop cs m off v 0 = True"
| "ends_loop cs m off v (Suc i) =
     (if \<not> same_char cs (mem_at m (off + i)) (mem_at v i) then False else ends_loop cs m off v i)"

definition buffer_ends_with :: "mapped_buffer \<Rightarrow> string \<Rightarrow> bool \<Rightarrow> bool" where
  "buffer_ends_with buffer value cs =
     (let index = length (c_str value)
      in if index = 0 then False
         else if index > blen buffer then False
         else ends_loop cs (buf buffer) (blen buffer - index) value index)"

fun contains_loop :: "bool \<Rightarrow> string \<Rightarrow> string \<Rightarrow> nat \<Rightarrow> nat \<Rightarrow> bool" where
  "contains_loop cs p v vlen 0 = False"
| "contains_loop cs p v vlen (Suc k) =
     (if equals_view_loop cs p v vlen then True else contains_loop cs (tl p) v vlen k)"

definition buffer_contains :: "mapped_buffer \<Rightarrow> string \<Rightarrow> bool \<Rightarrow> bool" where
  "buffer_contains buffer value cs =
     (let valueLength = length (c_str value)
      in if valueLength > blen buffer then False
         else contains_loop cs (buf buffer) value valueLength (Suc (blen buffer - valueLength)))"

section \<open>Joining and numbers\<close>

fun join_loop :: "mapped_buffer list \<Rightarrow> char \<Rightarrow> nat \<Rightarrow> string" where
  "join_loop [] delimiter i = []"
| "join_loop (b # bs) delimiter i =
     (if i \<noteq> 0 then [delimiter] else []) @ toString b @ join_loop bs delimiter (Suc i)"

definition buffers_join :: "mapped_buffer list \<Rightarrow> char \<Rightarrow> nat \<Rightarrow> string" where
  "buffers_join buffers delimiter offset = join_loop (drop offset buffers) delimiter offset"

text \<open>
  \<^verbatim>\<open>strtoul\<close> and \<^verbatim>\<open>strtol\<close> get the bare pointer: the second argument is an output, so the view's
  length does not bound the read. All callers use the default radix 10.
\<close>

definition toUnsignedLongInteger :: "mapped_buffer \<Rightarrow> nat" where
  "toUnsignedLongInteger buffer = (if blen buffer = 0 then 0 else strtoul (buf buffer))"

definition toUnsignedShortInteger :: "mapped_buffer \<Rightarrow> u16" where
  "toUnsignedShortInteger buffer = of_nat (toUnsignedLongInteger buffer)"

definition toLongInteger :: "mapped_buffer \<Rightarrow> int" where
  "toLongInteger buffer = (if blen buffer = 0 then 0 else strtol (buf buffer))"

section \<open>Splitting\<close>

fun split_lines_loop :: "string \<Rightarrow> nat \<Rightarrow> bool \<Rightarrow> string \<Rightarrow> nat \<Rightarrow> mapped_buffer list" where
  "split_lines_loop p 0 readingLineData pLine k = (if readingLineData then [view pLine k] else [])"
| "split_lines_loop p (Suc n) readingLineData pLine k =
     (if \<not> readingLineData then
        (if deref p = CR \<or> deref p = LF then split_lines_loop (tl p) n False pLine k
         else split_lines_loop (tl p) n True p 1)
      else
        (if deref p = CR \<or> deref p = LF then
           view pLine k # split_lines_loop (tl p) n False pLine k
         else split_lines_loop (tl p) n True pLine (Suc k)))"

definition buffer_split_lines :: "mapped_buffer \<Rightarrow> mapped_buffer list" where
  "buffer_split_lines buffer = split_lines_loop (buf buffer) (blen buffer) False [] 0"

fun split_loop :: "char \<Rightarrow> string \<Rightarrow> nat \<Rightarrow> bool \<Rightarrow> string \<Rightarrow> nat \<Rightarrow> mapped_buffer list" where
  "split_loop delimiter p 0 lastWasDelimiter pStart k =
     (if \<not> lastWasDelimiter then [view pStart k] else [])"
| "split_loop delimiter p (Suc n) lastWasDelimiter pStart k =
     (if deref p = delimiter \<or> deref p = NUL then
        (if \<not> lastWasDelimiter then [view pStart k] else []) @
        split_loop delimiter (tl p) n True pStart (Suc k)
      else if lastWasDelimiter then split_loop delimiter (tl p) n False p 1
      else split_loop delimiter (tl p) n False pStart (Suc k))"

definition buffer_split :: "mapped_buffer \<Rightarrow> char \<Rightarrow> mapped_buffer list" where
  "buffer_split buffer delimiter =
     split_loop delimiter (buf buffer) (blen buffer) True (buf buffer) 0"

fun first_loop :: "char \<Rightarrow> string \<Rightarrow> nat \<Rightarrow> nat \<Rightarrow> nat option" where
  "first_loop delimiter p 0 k = None"
| "first_loop delimiter p (Suc n) k =
     (if deref p = delimiter then Some k else first_loop delimiter (tl p) n (Suc k))"

definition buffer_split_on_first :: "mapped_buffer \<Rightarrow> char \<Rightarrow> mapped_buffer list" where
  "buffer_split_on_first buffer delimiter =
     (case first_loop delimiter (buf buffer) (blen buffer) 0 of
        Some k \<Rightarrow> [view (buf buffer) k, view (drop (Suc k) (buf buffer)) (blen buffer - Suc k)]
      | None \<Rightarrow> [buffer, null_buffer])"

section \<open>Trimming\<close>

definition trim_char :: "char \<Rightarrow> char \<Rightarrow> bool" where
  "trim_char value c = (if value \<noteq> NUL then c = value else isspace c)"

fun trim_front_loop :: "char \<Rightarrow> string \<Rightarrow> nat \<Rightarrow> mapped_buffer" where
  "trim_front_loop value p 0 = null_buffer"
| "trim_front_loop value p (Suc n) =
     (if trim_char value (deref p) then trim_front_loop value (tl p) n else view p (Suc n))"

definition buffer_trim_front :: "mapped_buffer \<Rightarrow> char \<Rightarrow> mapped_buffer" where
  "buffer_trim_front buffer value =
     (if blen buffer = 0 then buffer else trim_front_loop value (buf buffer) (blen buffer))"

fun trim_back_loop :: "char \<Rightarrow> string \<Rightarrow> nat \<Rightarrow> nat" where
  "trim_back_loop value m 0 = 0"
| "trim_back_loop value m (Suc n) =
     (if trim_char value (mem_at m n) then trim_back_loop value m n else Suc n)"

definition buffer_trim_back :: "mapped_buffer \<Rightarrow> char \<Rightarrow> mapped_buffer" where
  "buffer_trim_back buffer value =
     (if blen buffer = 0 then buffer
      else buffer\<lparr>blen := trim_back_loop value (buf buffer) (blen buffer)\<rparr>)"

definition buffer_trim :: "mapped_buffer \<Rightarrow> char \<Rightarrow> mapped_buffer" where
  "buffer_trim buffer value = buffer_trim_back (buffer_trim_front buffer value) value"

section \<open>The loops on the text of a view\<close>

definition fold_case :: "bool \<Rightarrow> string \<Rightarrow> string" where
  "fold_case cs s = (if cs then s else map toupper s)"

lemma bufferToString_eq [simp]: "bufferToString b = toString b"
  by (simp add: bufferToString_def toString_def)

lemma toString_view [buffer_simps]: "toString (view p n) = take n p"
  by (simp add: toString_def)

lemma toString_null [simp, buffer_simps]: "toString null_buffer = []"
  by (simp add: toString_def null_buffer_def)

lemma toString_buffer_of_string [simp, buffer_simps]: "toString (buffer_of_string s) = s"
  by (simp add: toString_def buffer_of_string_def)

lemma toString_buffer_of_cstr [simp, buffer_simps]: "toString (buffer_of_cstr s) = c_str s"
  by (simp add: toString_def buffer_of_cstr_def c_str_def takeWhile_eq_take [symmetric])

lemma view_wf_simps [simp, buffer_simps]:
  "view_wf (view p n) \<longleftrightarrow> n \<le> length p" "view_wf null_buffer"
  "view_wf (buffer_of_string s)" "view_wf (buffer_of_cstr s)"
  by (simp_all add: view_wf_def null_buffer_def buffer_of_string_def buffer_of_cstr_def c_str_def
      length_takeWhile_le)

lemma length_toString: "view_wf b \<Longrightarrow> length (toString b) = blen b"
  by (simp add: view_wf_def toString_def)

lemma same_char_fold: "same_char cs a b \<longleftrightarrow> fold_case cs [a] = fold_case cs [b]"
  by (simp add: same_char_def fold_case_def)

lemma same_char_NUL: "same_char cs NUL b \<longleftrightarrow> b = NUL" "same_char cs a NUL \<longleftrightarrow> a = NUL"
  by (auto simp: same_char_def) (metis toupper_NUL_iff)+

lemma fold_case_simps [simp]:
  "fold_case cs [] = []" "fold_case cs (a # s) = fold_case cs [a] @ fold_case cs s"
  "fold_case cs (s @ t) = fold_case cs s @ fold_case cs t"
  "length (fold_case cs s) = length s"
  by (simp_all add: fold_case_def)

declare fold_case_simps(2) [simp del]

lemma fold_case_Cons_eq:
  "fold_case cs (a # s) = fold_case cs (b # t) \<longleftrightarrow> same_char cs a b \<and> fold_case cs s = fold_case cs t"
  by (simp add: fold_case_def same_char_def)

lemma equals_loop_iff:
  "n \<le> length p \<Longrightarrow> NUL \<notin> set v \<Longrightarrow>
     equals_loop cs p v n \<longleftrightarrow> fold_case cs (take n p) = fold_case cs v"
proof (induction n arbitrary: p v)
  case 0
  then show ?case by (cases v) (auto simp: fold_case_def)
next
  case (Suc n)
  then obtain a p' where p: "p = a # p'" by (cases p) auto
  show ?case
  proof (cases v)
    case Nil
    with p show ?thesis by (simp add: fold_case_def)
  next
    case (Cons b v')
    with Suc.prems p Suc.IH [of p' v'] show ?thesis
      by (auto simp: fold_case_Cons_eq)
  qed
qed

lemma buffer_equals_iff [buffer_simps]:
  "view_wf b \<Longrightarrow> NUL \<notin> set s \<Longrightarrow> buffer_equals b s cs \<longleftrightarrow> fold_case cs (toString b) = fold_case cs s"
  by (cases s) (auto simp: buffer_equals_def view_wf_def toString_def equals_loop_iff fold_case_def)

lemma equals_view_loop_iff:
  "n \<le> length p \<Longrightarrow> n \<le> length v \<Longrightarrow>
     equals_view_loop cs p v n \<longleftrightarrow> fold_case cs (take n p) = fold_case cs (take n v)"
proof (induction n arbitrary: p v)
  case (Suc n)
  then obtain a p' b v' where "p = a # p'" and "v = b # v'"
    by (metis Suc_le_length_iff)
  with Suc.prems Suc.IH [of p' v'] show ?case
    by (simp add: fold_case_Cons_eq)
qed simp

lemma buffer_equals_view_iff [buffer_simps]:
  "view_wf b \<Longrightarrow> view_wf v \<Longrightarrow>
     buffer_equals_view b v cs \<longleftrightarrow> fold_case cs (toString b) = fold_case cs (toString v)"
proof (cases "blen b = blen v")
  case False
  assume "view_wf b" and "view_wf v"
  with False have "length (fold_case cs (toString b)) \<noteq> length (fold_case cs (toString v))"
    by (simp add: length_toString)
  then have "fold_case cs (toString b) \<noteq> fold_case cs (toString v)"
    by metis
  then show ?thesis
    using False by (simp add: buffer_equals_view_def)
qed (simp add: buffer_equals_view_def view_wf_def toString_def equals_view_loop_iff)

lemma starts_loop_iff:
  "n \<le> length p \<Longrightarrow> NUL \<notin> set v \<Longrightarrow>
     starts_loop cs p v n \<longleftrightarrow> prefix (fold_case cs v) (fold_case cs (take n p))"
proof (induction n arbitrary: p v)
  case 0
  then show ?case by (cases v) (auto simp: fold_case_def)
next
  case (Suc n)
  then obtain a p' where p: "p = a # p'" by (cases p) auto
  show ?case
  proof (cases v)
    case (Cons b v')
    with Suc.prems p Suc.IH [of p' v'] show ?thesis
      by (auto simp: fold_case_def same_char_def)
  qed simp
qed

lemma buffer_starts_with_iff [buffer_simps]:
  "view_wf b \<Longrightarrow> NUL \<notin> set s \<Longrightarrow>
     buffer_starts_with b s cs \<longleftrightarrow> s \<noteq> [] \<and> prefix (fold_case cs s) (fold_case cs (toString b))"
  by (cases s) (auto simp: buffer_starts_with_def view_wf_def toString_def starts_loop_iff)

lemma ends_loop_iff:
  "off + n \<le> length m \<Longrightarrow> n \<le> length v \<Longrightarrow>
     ends_loop cs m off v n \<longleftrightarrow> fold_case cs (take n (drop off m)) = fold_case cs (take n v)"
proof (induction n)
  case (Suc n)
  then have "take (Suc n) (drop off m) = take n (drop off m) @ [m ! (off + n)]"
    and "take (Suc n) v = take n v @ [v ! n]"
    by (simp_all add: take_Suc_conv_app_nth)
  with Suc show ?case
    by (auto simp: mem_at_def fold_case_def same_char_def)
qed simp

lemma buffer_ends_with_iff [buffer_simps]:
  assumes "view_wf b" and "NUL \<notin> set s"
  shows "buffer_ends_with b s cs \<longleftrightarrow> s \<noteq> [] \<and> suffix (fold_case cs s) (fold_case cs (toString b))"
proof (cases "length s \<le> blen b")
  case True
  let ?f = "fold_case cs" and ?off = "blen b - length s"
  have drop: "drop ?off (toString b) = take (length s) (drop ?off (buf b))"
    using True by (simp add: toString_def drop_take)
  have "?f (toString b) = ?f (take ?off (toString b)) @ ?f (drop ?off (toString b))"
    by (metis append_take_drop_id fold_case_simps(3))
  moreover have "length (?f (drop ?off (toString b))) = length (?f s)"
    using True assms(1) by (simp add: length_toString)
  ultimately have "suffix (?f s) (?f (toString b)) \<longleftrightarrow> ?f (drop ?off (toString b)) = ?f s"
    by (metis append_eq_append_conv suffix_def)
  then show ?thesis
    using True assms
    by (auto simp: buffer_ends_with_def c_str_id ends_loop_iff view_wf_def drop Let_def)
next
  case False
  then have "\<not> suffix (fold_case cs s) (fold_case cs (toString b))"
    using assms(1) suffix_length_le [of "fold_case cs s" "fold_case cs (toString b)"]
    by (auto simp: length_toString)
  with False show ?thesis
    by (simp add: buffer_ends_with_def c_str_id assms(2) Let_def)
qed

text \<open>\<^verbatim>\<open>buffer_contains\<close>: the text occurs, letter case aside when the flag is off.\<close>

lemma contains_loop_iff:
  "k + n \<le> Suc (length p) \<Longrightarrow> n = length v \<Longrightarrow>
     contains_loop cs p v n k \<longleftrightarrow>
     (\<exists>i < k. fold_case cs (take n (drop i p)) = fold_case cs v)"
proof (induction k arbitrary: p)
  case (Suc k)
  then have hd: "equals_view_loop cs p v n \<longleftrightarrow> fold_case cs (take n p) = fold_case cs v"
    by (simp add: equals_view_loop_iff)
  have tl: "contains_loop cs (tl p) v n k \<longleftrightarrow>
      (\<exists>i < k. fold_case cs (take n (drop i (tl p))) = fold_case cs v)"
    using Suc by (cases p) auto
  have "drop i (tl p) = drop (Suc i) p" for i
    by (simp add: drop_Suc)
  then show ?case
    using hd tl by (auto simp: less_Suc_eq_0_disj)
qed simp

lemma fold_case_take_drop:
  "fold_case cs (take n (drop i s)) = take n (drop i (fold_case cs s))"
  by (simp add: fold_case_def take_map drop_map)

lemma sublist_iff_take_drop:
  "sublist xs ys \<longleftrightarrow> (\<exists>i. i + length xs \<le> length ys \<and> take (length xs) (drop i ys) = xs)"
proof
  assume "sublist xs ys"
  then obtain ps ss where "ys = ps @ xs @ ss" by (auto simp: sublist_def)
  then show "\<exists>i. i + length xs \<le> length ys \<and> take (length xs) (drop i ys) = xs"
    by (intro exI [of _ "length ps"]) simp
next
  assume "\<exists>i. i + length xs \<le> length ys \<and> take (length xs) (drop i ys) = xs"
  then obtain i where "take (length xs) (drop i ys) = xs" by blast
  then have "ys = take i ys @ xs @ drop (length xs) (drop i ys)"
    by (metis append_take_drop_id)
  then show "sublist xs ys" by (auto simp: sublist_def)
qed

lemma buffer_contains_iff [buffer_simps]:
  assumes "view_wf b" and "NUL \<notin> set s"
  shows "buffer_contains b s cs \<longleftrightarrow> sublist (fold_case cs s) (fold_case cs (toString b))"
proof (cases "length s \<le> blen b")
  case True
  let ?n = "length s" and ?f = "fold_case cs"
  have take: "take ?n (drop i (toString b)) = take ?n (drop i (buf b))" if "i < Suc (blen b - ?n)" for i
    using that True by (simp add: toString_def drop_take min_def)
  have "buffer_contains b s cs \<longleftrightarrow>
      (\<exists>i < Suc (blen b - ?n). ?f (take ?n (drop i (buf b))) = ?f s)"
    using True assms
    by (simp add: buffer_contains_def c_str_id contains_loop_iff view_wf_def Let_def
        del: contains_loop.simps)
  also have "\<dots> \<longleftrightarrow> (\<exists>i < Suc (blen b - ?n). take ?n (drop i (?f (toString b))) = ?f s)"
    using take by (auto simp flip: fold_case_take_drop)
  also have "\<dots> \<longleftrightarrow> (\<exists>i. i + ?n \<le> blen b \<and> take ?n (drop i (?f (toString b))) = ?f s)"
    using True by (intro ex_cong1) auto
  also have "\<dots> \<longleftrightarrow> sublist (?f s) (?f (toString b))"
    using assms(1) by (simp add: sublist_iff_take_drop length_toString)
  finally show ?thesis .
next
  case False
  then have "\<not> sublist (fold_case cs s) (fold_case cs (toString b))"
    using assms(1) by (auto simp: sublist_iff_take_drop length_toString)
  with False show ?thesis
    by (simp add: buffer_contains_def c_str_id assms(2))
qed

section \<open>Splitting, on the text\<close>

lemma drop_Cons_step:
  assumes "drop k m = c # p"
  shows "k < length m" "take (Suc k) m = take k m @ [c]" "drop (Suc k) m = p"
proof -
  show k: "k < length m"
    using assms by (cases "k < length m") auto
  show "take (Suc k) m = take k m @ [c]"
    using k nth_via_drop [OF assms] by (simp add: take_Suc_conv_app_nth)
  show "drop (Suc k) m = p"
    using assms by (simp add: drop_Suc flip: tl_drop)
qed

lemma split_lines_loop_tokens:
  "n \<le> length p \<Longrightarrow> (r \<longrightarrow> 0 < k \<and> k \<le> length m \<and> p = drop k m) \<Longrightarrow>
     map toString (split_lines_loop p n r m k) =
     tokens_from (\<lambda>c. c = CR \<or> c = LF) (if r then take k m else []) (take n p)"
proof (induction n arbitrary: p r m k)
  case 0
  then show ?case by (auto simp: toString_view)
next
  case (Suc n)
  then obtain c p' where p: "p = c # p'" by (cases p) auto
  show ?case
  proof (cases r)
    case True
    with Suc.prems(2) have k: "drop k m = c # p'" and "0 < k"
      unfolding p by (simp_all only: simp_thms)
    note step = drop_Cons_step [OF k]
    have "take k m \<noteq> []"
      using \<open>0 < k\<close> step(1) by (cases m) simp_all
    have n: "n \<le> length p'"
      using Suc.prems(1) unfolding p by simp
    have "Suc k \<le> length m"
      using step(1) by (rule Suc_leI)
    with n have "map toString (split_lines_loop p' n True m (Suc k)) =
        tokens_from (\<lambda>c. c = CR \<or> c = LF) (take k m @ [c]) (take n p')"
      by (subst Suc.IH) (simp_all add: step(2) step(3))
    moreover have "map toString (split_lines_loop p' n False m k) =
        tokens_from (\<lambda>c. c = CR \<or> c = LF) [] (take n p')"
      using Suc.IH [of p' False k m] n by simp
    ultimately show ?thesis
      using \<open>take k m \<noteq> []\<close> unfolding p using True by (simp add: toString_view)
  next
    case False
    have "n \<le> length p'"
      using Suc.prems(1) unfolding p by simp
    then show ?thesis
      using Suc.IH [of p' True 1 p] Suc.IH [of p' False k m] unfolding p
      using False by simp
  qed
qed

lemma buffer_split_lines_tokens [buffer_simps]:
  "view_wf b \<Longrightarrow> map toString (buffer_split_lines b) = tokens (\<lambda>c. c = CR \<or> c = LF) (toString b)"
  unfolding buffer_split_lines_def tokens_def toString_def view_wf_def
  by (subst split_lines_loop_tokens [unfolded toString_def]) simp_all

lemma split_loop_tokens:
  "n \<le> length p \<Longrightarrow> (\<not> l \<longrightarrow> 0 < k \<and> k \<le> length m \<and> p = drop k m) \<Longrightarrow>
     map toString (split_loop d p n l m k) =
     tokens_from (\<lambda>c. c = d \<or> c = NUL) (if l then [] else take k m) (take n p)"
proof (induction n arbitrary: p l m k)
  case 0
  then show ?case by (auto simp: toString_view)
next
  case (Suc n)
  then obtain c p' where p: "p = c # p'" by (cases p) auto
  show ?case
  proof (cases l)
    case False
    with Suc.prems(2) have k: "drop k m = c # p'" and "0 < k"
      unfolding p by (simp_all only: simp_thms)
    note step = drop_Cons_step [OF k]
    have "take k m \<noteq> []"
      using \<open>0 < k\<close> step(1) by (cases m) simp_all
    have n: "n \<le> length p'"
      using Suc.prems(1) unfolding p by simp
    have "Suc k \<le> length m"
      using step(1) by (rule Suc_leI)
    with n have "map toString (split_loop d p' n False m (Suc k)) =
        tokens_from (\<lambda>c. c = d \<or> c = NUL) (take k m @ [c]) (take n p')"
      by (subst Suc.IH) (simp_all add: step(2) step(3))
    moreover have "map toString (split_loop d p' n True m (Suc k)) =
        tokens_from (\<lambda>c. c = d \<or> c = NUL) [] (take n p')"
      using Suc.IH [of p' True "Suc k" m] n by simp
    ultimately show ?thesis
      using \<open>take k m \<noteq> []\<close> unfolding p using False by (simp add: toString_view)
  next
    case True
    have "n \<le> length p'"
      using Suc.prems(1) unfolding p by simp
    then show ?thesis
      using Suc.IH [of p' False 1 p] Suc.IH [of p' True "Suc k" m] unfolding p
      using True by simp
  qed
qed

lemma buffer_split_tokens [buffer_simps]:
  "view_wf b \<Longrightarrow> map toString (buffer_split b d) = tokens (\<lambda>c. c = d \<or> c = NUL) (toString b)"
  unfolding buffer_split_def tokens_def toString_def view_wf_def
  by (subst split_loop_tokens [unfolded toString_def]) simp_all


text \<open>
  C24: The operations on views, written as loops over characters and bounds, are the usual operations on
  the texts they show: splitting at a delimiter and splitting into lines give the maximal runs without a
  delimiter (a NUL also ends a part), and the four comparisons are equality, prefix, suffix and infix, up
  to letter case unless asked otherwise; the empty string is no prefix and no suffix.
\<close>

theorem view_operations_are_text_operations:
  assumes "view_wf b" and "NUL \<notin> set s"
  shows "map toString (buffer_split b d) = tokens (\<lambda>c. c = d \<or> c = NUL) (toString b) \<and>
    map toString (buffer_split_lines b) = tokens (\<lambda>c. c = CR \<or> c = LF) (toString b) \<and>
    buffer_equals b s cs = (fold_case cs (toString b) = fold_case cs s) \<and>
    buffer_starts_with b s cs = (s \<noteq> [] \<and> prefix (fold_case cs s) (fold_case cs (toString b))) \<and>
    buffer_ends_with b s cs = (s \<noteq> [] \<and> suffix (fold_case cs s) (fold_case cs (toString b))) \<and>
    buffer_contains b s cs = sublist (fold_case cs s) (fold_case cs (toString b))"
  using assms by (simp add: buffer_split_tokens buffer_split_lines_tokens buffer_equals_iff buffer_starts_with_iff
      buffer_ends_with_iff buffer_contains_iff)

theorem view_operations_are_text_operations_witness:
  "map toString (buffer_split (buffer_of_string ''ab;;c'') (CHR '';'')) = [''ab'', ''c''] \<and>
   map toString (buffer_split_lines (buffer_of_string [CHR ''a'', CR, LF, CHR ''b''])) = [''a'', ''b''] \<and>
   \<not> buffer_starts_with (buffer_of_string ''ab;;c'') [] True \<and> buffer_contains (buffer_of_string ''ab;;c'') ''b;'' True"
  using view_operations_are_text_operations [of "buffer_of_string ''ab;;c''" "[]" "CHR '';''" True]
    view_operations_are_text_operations [of "buffer_of_string ''ab;;c''" "''b;''" "CHR '';''" True]
    view_operations_are_text_operations [of "buffer_of_string [CHR ''a'', CR, LF, CHR ''b'']" "[]" "CHR '';''" True]
  by (simp add: tokens_def fold_case_def sublist_Cons_right)

text \<open>
  The views themselves, with the memory behind them: what a caller that reads a number through the
  view's pointer depends on.
\<close>

lemma split_loop_at_delimiter: "split_loop d p n True m k = split_loop d p n True m' k'"
proof (induction n arbitrary: p k k')
  case (Suc n)
  show ?case using Suc.IH [of "tl p" "Suc k" "Suc k'"] by simp
qed simp

lemma split_loop_word:
  "\<forall>c \<in> set t. c \<noteq> d \<and> c \<noteq> NUL \<Longrightarrow>
     split_loop d (t @ s) (length t + n) False m k = split_loop d s n False m (k + length t)"
  by (induction t arbitrary: k) simp_all

lemma buffer_split_word:
  assumes "t \<noteq> []" and "\<forall>c \<in> set t. c \<noteq> d \<and> c \<noteq> NUL"
  shows "buffer_split (view (t @ d # s) (length t + Suc n)) d =
           view (t @ d # s) (length t) # buffer_split (view s n) d"
proof -
  obtain c t' where t: "t = c # t'" using assms(1) by (cases t) auto
  have "split_loop d (t @ d # s) (length t + Suc n) True m k =
      split_loop d (t' @ d # s) (length t' + Suc n) False (t @ d # s) 1" for m k
    using assms(2) unfolding t by simp
  also have "\<dots> = split_loop d (d # s) (Suc n) False (t @ d # s) (length t)"
    using assms(2) unfolding t by (subst split_loop_word) simp_all
  also have "\<dots> = view (t @ d # s) (length t) # split_loop d s n True s 0"
    by (simp add: split_loop_at_delimiter [of d s n "t @ d # s" "Suc (length t)" s 0])
  finally show ?thesis by (simp add: buffer_split_def)
qed

lemma buffer_split_last:
  assumes "t \<noteq> []" and "\<forall>c \<in> set t. c \<noteq> d \<and> c \<noteq> NUL"
  shows "buffer_split (view (t @ s) (length t)) d = [view (t @ s) (length t)]"
proof -
  obtain c t' where t: "t = c # t'" using assms(1) by (cases t) auto
  have "split_loop d (t @ s) (length t) True m k = split_loop d (t' @ s) (length t' + 0) False (t @ s) 1"
    for m k using assms(2) unfolding t by simp
  also have "\<dots> = [view (t @ s) (length t)]"
    using assms(2) unfolding t by (subst split_loop_word) simp_all
  finally show ?thesis by (simp add: buffer_split_def)
qed

lemma buffer_split_skip: "buffer_split (view (d # s) (Suc n)) d = buffer_split (view s n) d"
  by (simp add: buffer_split_def) (rule split_loop_at_delimiter)

lemma buffer_split_empty: "buffer_split (view s 0) d = []"
  by (simp add: buffer_split_def)

lemma split_lines_loop_between: "split_lines_loop p n False m k = split_lines_loop p n False m' k'"
  by (induction n arbitrary: p) simp_all

lemma split_lines_loop_word:
  "\<forall>c \<in> set t. c \<noteq> CR \<and> c \<noteq> LF \<Longrightarrow>
     split_lines_loop (t @ s) (length t + n) True m k = split_lines_loop s n True m (k + length t)"
  by (induction t arbitrary: k) simp_all

lemma buffer_split_lines_word:
  assumes "t \<noteq> []" and "\<forall>c \<in> set t. c \<noteq> CR \<and> c \<noteq> LF" and "e = CR \<or> e = LF"
  shows "buffer_split_lines (view (t @ e # s) (length t + Suc n)) =
           view (t @ e # s) (length t) # buffer_split_lines (view s n)"
proof -
  obtain c t' where t: "t = c # t'" using assms(1) by (cases t) auto
  have "split_lines_loop (t @ e # s) (length t + Suc n) False m k =
      split_lines_loop (t' @ e # s) (length t' + Suc n) True (t @ e # s) 1" for m k
    using assms(2) unfolding t by simp
  also have "\<dots> = split_lines_loop (e # s) (Suc n) True (t @ e # s) (length t)"
    using assms(2) unfolding t by (subst split_lines_loop_word) simp_all
  also have "\<dots> = view (t @ e # s) (length t) # split_lines_loop s n False [] 0"
    using assms(3) by (simp add: split_lines_loop_between [of s n "t @ e # s" "length t" "[]" 0])
  finally show ?thesis by (simp add: buffer_split_lines_def)
qed

lemma buffer_split_lines_skip:
  "e = CR \<or> e = LF \<Longrightarrow> buffer_split_lines (view (e # s) (Suc n)) = buffer_split_lines (view s n)"
  by (simp add: buffer_split_lines_def)

lemma buffer_split_lines_empty: "buffer_split_lines (view s 0) = []"
  by (simp add: buffer_split_lines_def)

lemma split_lines_loop_wf:
  "n \<le> length p \<Longrightarrow> (r \<longrightarrow> k + length p \<le> length m) \<Longrightarrow>
     \<forall>v \<in> set (split_lines_loop p n r m k). view_wf v"
proof (induction n arbitrary: p r m k)
  case (Suc n)
  then obtain c p' where p: "p = c # p'" by (cases p) auto
  have "n \<le> length p'" using Suc.prems(1) p by simp
  then show ?case
    using Suc.IH [of p' False k m] Suc.IH [of p' True 1 p] Suc.IH [of p' True "Suc k" m]
      Suc.prems(2) p by auto
qed auto

lemma buffer_split_lines_wf: "view_wf b \<Longrightarrow> \<forall>v \<in> set (buffer_split_lines b). view_wf v"
  unfolding buffer_split_lines_def by (rule split_lines_loop_wf) (simp_all add: view_wf_def)

lemma split_loop_wf:
  "n \<le> length p \<Longrightarrow> (\<not> l \<longrightarrow> k + length p \<le> length m) \<Longrightarrow>
     \<forall>v \<in> set (split_loop d p n l m k). view_wf v"
proof (induction n arbitrary: p l m k)
  case (Suc n)
  then obtain c p' where p: "p = c # p'" by (cases p) auto
  have "n \<le> length p'" using Suc.prems(1) p by simp
  then show ?case
    using Suc.IH [of p' True "Suc k" m] Suc.IH [of p' False 1 p] Suc.IH [of p' False "Suc k" m]
      Suc.prems(2) p by auto
qed auto

lemma buffer_split_wf: "view_wf b \<Longrightarrow> \<forall>v \<in> set (buffer_split b d). view_wf v"
  unfolding buffer_split_def by (rule split_loop_wf) (simp_all add: view_wf_def)

text \<open>
  A view is ended when the byte behind it is no digit: then a number at its end is read completely
  and nothing behind it is taken for a digit.
\<close>

definition view_ended :: "mapped_buffer \<Rightarrow> bool" where
  "view_ended v \<longleftrightarrow> \<not> isdigit (deref (drop (blen v) (buf v)))"

lemma not_isdigit_simps [simp]: "\<not> isdigit NUL" "\<not> isdigit CR" "\<not> isdigit LF"
  by (simp_all add: isdigit_def char_code_def)

lemma view_ended_buffer_of_string [simp]: "view_ended (buffer_of_string s)"
  by (simp add: view_ended_def buffer_of_string_def)

lemma split_lines_loop_ended:
  "n \<le> length p \<Longrightarrow> \<not> isdigit (deref (drop n p)) \<Longrightarrow>
     (r \<longrightarrow> k + length p \<le> length m \<and> drop k m = p) \<Longrightarrow>
     \<forall>v \<in> set (split_lines_loop p n r m k). view_ended v"
proof (induction n arbitrary: p r m k)
  case (Suc n)
  then obtain c p' where p: "p = c # p'" by (cases p) auto
  have n: "n \<le> length p'" "\<not> isdigit (deref (drop n p'))" using Suc.prems(1,2) p by simp_all
  show ?case
  proof (cases r)
    case True
    then have k: "Suc k + length p' \<le> length m" "drop k m = c # p'"
      using Suc.prems(3) p by simp_all
    have "view_ended (view m k)" if "c = CR \<or> c = LF"
      using that k(2) by (auto simp: view_ended_def)
    then show ?thesis
      using True p Suc.IH [OF n, of False k m] Suc.IH [OF n, of True "Suc k" m] k(1)
        drop_Cons_step(3) [OF k(2)] by auto
  next
    case False
    then show ?thesis
      using p Suc.IH [OF n, of False k m] Suc.IH [OF n, of True 1 p] by auto
  qed
qed (auto simp: view_ended_def)

lemma buffer_split_lines_ended:
  "view_wf b \<Longrightarrow> view_ended b \<Longrightarrow> \<forall>v \<in> set (buffer_split_lines b). view_ended v"
  unfolding buffer_split_lines_def
  by (rule split_lines_loop_ended) (simp_all add: view_wf_def view_ended_def)

lemma split_loop_ended:
  "\<not> isdigit d \<Longrightarrow> n \<le> length p \<Longrightarrow> \<not> isdigit (deref (drop n p)) \<Longrightarrow>
     (\<not> l \<longrightarrow> k + length p \<le> length m \<and> drop k m = p) \<Longrightarrow>
     \<forall>v \<in> set (split_loop d p n l m k). view_ended v"
proof (induction n arbitrary: p l m k)
  case (Suc n)
  then obtain c p' where p: "p = c # p'" by (cases p) auto
  have n: "n \<le> length p'" "\<not> isdigit (deref (drop n p'))" using Suc.prems(2,3) p by simp_all
  have next_delim: "\<forall>v \<in> set (split_loop d p' n True m (Suc k)). view_ended v"
    by (rule Suc.IH [OF Suc.prems(1) n]) simp
  have next_word: "\<forall>v \<in> set (split_loop d p' n False p 1). view_ended v"
    by (rule Suc.IH [OF Suc.prems(1) n]) (simp add: p)
  show ?case
  proof (cases l)
    case True
    then show ?thesis using p next_delim next_word by simp
  next
    case False
    then have k: "Suc k + length p' \<le> length m" "drop k m = c # p'"
      using Suc.prems(4) p by simp_all
    have "view_ended (view m k)" if "c = d \<or> c = NUL"
      using that k(2) Suc.prems(1) by (auto simp: view_ended_def)
    moreover have "\<forall>v \<in> set (split_loop d p' n False m (Suc k)). view_ended v"
      by (rule Suc.IH [OF Suc.prems(1) n]) (use k(1) drop_Cons_step(3) [OF k(2)] in simp)
    ultimately show ?thesis using False p next_delim by auto
  qed
qed (auto simp: view_ended_def)

lemma buffer_split_ended:
  "view_wf b \<Longrightarrow> view_ended b \<Longrightarrow> \<not> isdigit d \<Longrightarrow> \<forall>v \<in> set (buffer_split b d). view_ended v"
  unfolding buffer_split_def
  by (rule split_loop_ended) (simp_all add: view_wf_def view_ended_def)

text \<open>A line view lies inside its allocation and a number at its end is read completely.\<close>

definition line_view :: "mapped_buffer \<Rightarrow> bool" where
  "line_view l \<longleftrightarrow> view_wf l \<and> view_ended l"

lemma split_line_view:
  assumes "line_view b" and "\<not> isdigit d"
  obtains vs where "buffer_split b d = vs" and "map toString vs = tokens (\<lambda>c. c = d \<or> c = NUL) (toString b)"
    and "\<forall>v \<in> set vs. line_view v"
  using assms buffer_split_tokens [of b d] buffer_split_wf [of b d] buffer_split_ended [of b d]
  by (simp add: line_view_def)

lemma toLongInteger_show_nat:
  assumes "view_wf v" and "view_ended v" and "toString v = show_nat n" and "n < 2 ^ 63"
  shows "toLongInteger v = int n"
proof -
  have "buf v = show_nat n @ drop (blen v) (buf v)"
    using assms(3) append_take_drop_id [of "blen v" "buf v"] by (simp add: toString_def)
  moreover have "blen v \<noteq> 0"
    using assms(3) show_nat_not_Nil [of n] by (cases "blen v") (auto simp: toString_def)
  ultimately show ?thesis
    using strtol_show_nat [OF assms(4), of "drop (blen v) (buf v)"] assms(2)
    by (simp add: toLongInteger_def view_ended_def)
qed

section \<open>Splitting on the first delimiter\<close>

lemma first_loop_None:
  "n \<le> length p \<Longrightarrow> first_loop d p n k = None \<longleftrightarrow> d \<notin> set (take n p)"
proof (induction n arbitrary: p k)
  case (Suc n)
  then obtain c p' where "p = c # p'" by (cases p) auto
  with Suc show ?case by auto
qed simp

lemma first_loop_hit:
  "d \<notin> set t \<Longrightarrow> first_loop d (t @ d # s) (length t + Suc n) k = Some (k + length t)"
  by (induction t arbitrary: k) auto

lemma buffer_split_on_first_hit [buffer_simps]:
  "d \<notin> set t \<Longrightarrow> buffer_split_on_first (view (t @ d # s) (length t + Suc n)) d =
     [view (t @ d # s) (length t), view s n]"
  unfolding buffer_split_on_first_def mapped_buffer.simps
  by (subst first_loop_hit) simp_all

lemma buffer_split_on_first_none [buffer_simps]:
  "view_wf b \<Longrightarrow> d \<notin> set (toString b) \<Longrightarrow> buffer_split_on_first b d = [b, null_buffer]"
  by (simp add: buffer_split_on_first_def view_wf_def toString_def
      first_loop_None [THEN iffD2, of "blen b" "buf b"])

lemma length_buffer_split_on_first: "length (buffer_split_on_first b d) = 2"
  by (simp add: buffer_split_on_first_def split: option.splits)

lemma view_cut:
  assumes "view_wf b" and "toString b = t @ s"
  obtains r where "b = view (t @ s @ r) (length t + length s)"
proof -
  have "blen b = length t + length s"
    using length_toString [OF assms(1)] assms(2) by simp
  moreover have "buf b = (t @ s) @ drop (blen b) (buf b)"
    using assms(2) append_take_drop_id [of "blen b" "buf b"] by (simp add: toString_def)
  ultimately show thesis
    using that [of "drop (blen b) (buf b)"] by (cases b) simp
qed

lemma buffer_split_on_first_text:
  assumes "view_wf b" and "d \<in> set (toString b)"
  obtains t s where "toString b = t @ d # s" and "d \<notin> set t"
    and "map toString (buffer_split_on_first b d) = [t, s]"
    and "\<forall>v \<in> set (buffer_split_on_first b d). view_wf v"
    and "view_ended b \<Longrightarrow> view_ended (buffer_split_on_first b d ! 1)"
proof -
  obtain t s where ts: "toString b = t @ d # s" "d \<notin> set t"
    using split_list_first [OF assms(2)] by blast
  obtain r where "b = view (t @ d # s @ r) (length t + Suc (length s))"
    using view_cut [OF assms(1) ts(1)] by auto
  note b = this
  then have "buffer_split_on_first b d = [view (t @ d # s @ r) (length t), view (s @ r) (length s)]"
    using ts(2) buffer_split_on_first_hit [of d t "s @ r" "length s"] by (simp only: simp_thms)
  then show thesis
    using that [OF ts] b by (simp add: toString_view view_ended_def)
qed

section \<open>Trimming, on the text\<close>

lemma trim_front_loop_text:
  "n \<le> length p \<Longrightarrow> toString (trim_front_loop v p n) = dropWhile (trim_char v) (take n p)
     \<and> view_wf (trim_front_loop v p n)"
proof (induction n arbitrary: p)
  case (Suc n)
  then obtain c p' where "p = c # p'" by (cases p) auto
  with Suc show ?case by (auto simp: toString_view)
qed simp

lemma buffer_trim_front_text [buffer_simps]:
  "view_wf b \<Longrightarrow> toString (buffer_trim_front b v) = dropWhile (trim_char v) (toString b)"
  by (simp add: buffer_trim_front_def view_wf_def trim_front_loop_text toString_def [of b])

lemma buffer_trim_front_wf [simp]: "view_wf b \<Longrightarrow> view_wf (buffer_trim_front b v)"
  by (simp add: buffer_trim_front_def view_wf_def trim_front_loop_text [unfolded view_wf_def])

definition strip_back :: "('a \<Rightarrow> bool) \<Rightarrow> 'a list \<Rightarrow> 'a list" where
  "strip_back P s = rev (dropWhile P (rev s))"

lemma trim_back_loop_le: "trim_back_loop v m n \<le> n"
  by (induction n) auto

lemma trim_back_loop_text:
  "n \<le> length m \<Longrightarrow> take (trim_back_loop v m n) m = strip_back (trim_char v) (take n m)"
proof (induction n)
  case (Suc n)
  then have "take (Suc n) m = take n m @ [mem_at m n]"
    by (simp add: mem_at_def take_Suc_conv_app_nth)
  with Suc show ?case by (simp add: strip_back_def)
qed (simp add: strip_back_def)

lemma buffer_trim_back_text [buffer_simps]:
  "view_wf b \<Longrightarrow> toString (buffer_trim_back b v) = strip_back (trim_char v) (toString b)"
  by (cases "blen b = 0")
    (simp_all add: buffer_trim_back_def view_wf_def toString_def trim_back_loop_text strip_back_def)

lemma buffer_trim_back_wf [simp]: "view_wf b \<Longrightarrow> view_wf (buffer_trim_back b v)"
  using trim_back_loop_le [of v "buf b" "blen b"] by (simp add: buffer_trim_back_def view_wf_def)

lemma buffer_trim_wf [simp]: "view_wf b \<Longrightarrow> view_wf (buffer_trim b v)"
  by (simp add: buffer_trim_def)

lemma trim_char_NUL: "trim_char NUL = isspace"
  by (rule ext) (simp add: trim_char_def)

lemma strip_back_id: "s = [] \<or> \<not> P (last s) \<Longrightarrow> strip_back P s = s"
  by (cases s rule: rev_cases) (simp_all add: strip_back_def)

lemma buffer_trim_id:
  assumes "t \<noteq> []" and "\<not> trim_char v (hd t)" and "\<not> trim_char v (last t)"
  shows "buffer_trim (view (t @ s) (length t)) v = view (t @ s) (length t)"
proof -
  obtain n where n: "length t = Suc n" using assms(1) by (cases t) auto
  have "buffer_trim_front (view (t @ s) (length t)) v = view (t @ s) (length t)"
    using assms(1,2) n by (cases t) (simp_all add: buffer_trim_front_def)
  moreover have "mem_at (t @ s) n = last t"
    using assms(1) n by (simp add: mem_at_def nth_append last_conv_nth)
  ultimately show ?thesis
    using assms(3) n by (simp add: buffer_trim_def buffer_trim_back_def)
qed

lemma split_line_on_first:
  assumes "line_view l" and "toString l = t @ d # s" and "d \<notin> set t"
  obtains k v where "buffer_split_on_first l d = [k, v]" and "line_view v" and "view_wf k"
    and "toString k = t" and "toString v = s"
proof -
  have "d \<in> set (toString l)" "view_wf l" "view_ended l"
    using assms(1,2) by (simp_all add: line_view_def)
  then obtain t' s' where ts: "toString l = t' @ d # s'" "d \<notin> set t'"
      "map toString (buffer_split_on_first l d) = [t', s']"
      "\<forall>v \<in> set (buffer_split_on_first l d). view_wf v" "view_ended (buffer_split_on_first l d ! 1)"
    using buffer_split_on_first_text [of l d] by metis
  have "t' = t" "s' = s"
    using split_first_unique [of d t' t s' s] ts(1,2) assms(2,3) by auto
  moreover obtain k v where "buffer_split_on_first l d = [k, v]"
    using ts(3) by (auto simp: map_eq_Cons_conv)
  ultimately show thesis
    using that ts(3-5) by (simp add: line_view_def)
qed

lemma deref_buf: "toString b = c # s \<Longrightarrow> deref (buf b) = c"
  by (cases "blen b"; cases "buf b") (simp_all add: toString_def)

end
