(* ===== verification/SipHeaders.thy ===== *)
theory SipHeaders
  imports Buffers
begin

text \<open>
  Model of the header classes under \<^verbatim>\<open>src/src/components/sip/headers/\<close> and of the body types of
  \<^verbatim>\<open>messages/SipMessageBody.h\<close>. An object is a record of its dynamic type, its field name, the view
  of its value and what its constructor computes; there is one constructor definition per class. A
  member a constructor leaves unset is \<^const>\<open>None\<close>; indexing an empty vector is
  \<^term>\<open>Inl OutOfBounds\<close>.
\<close>

section \<open>Enumerations\<close>

datatype body_type = Body_UNKNOWN | Body_NONE | Body_SDP | Body_XML | Body_MULTIPLE | Body_BOUNDARY
  | Body_OTHER

definition bodyTypeToString :: "body_type \<Rightarrow> string" where
  "bodyTypeToString t = (case t of
     Body_UNKNOWN \<Rightarrow> ''UNKNOWN'' | Body_MULTIPLE \<Rightarrow> ''MULTIPLE'' | Body_XML \<Rightarrow> ''XML'' | Body_SDP \<Rightarrow> ''SDP''
   | Body_BOUNDARY \<Rightarrow> ''BOUNDARY'' | Body_OTHER \<Rightarrow> ''OTHER'' | Body_NONE \<Rightarrow> ''NONE'')"

datatype transport_type = Transport_UNKNOWN | Transport_UDP | Transport_TCP

definition DefaultTransportType :: transport_type where
  "DefaultTransportType = Transport_UDP"

definition getTransportTypeStr :: "transport_type \<Rightarrow> string" where
  "getTransportTypeStr t = (case t of
     Transport_UDP \<Rightarrow> ''UDP'' | Transport_TCP \<Rightarrow> ''TCP'' | Transport_UNKNOWN \<Rightarrow> ''UDP'')"

datatype header_type =
  H_UNKNOWN | H_EMPTY | H_VIA | H_FROM | H_TO | H_CALL_ID | H_DATE | H_SUPPORTED
  | H_UNSUPPORTED | H_ACCEPT | H_REQUIRE | H_REQUIRE_AFTER | H_MINSE | H_USER_AGENT | H_ALLOW
  | H_AllOW_EVENTS | H_CSEQ | H_MAX_FORWARDS | H_SUBJECT | H_TIMESTAMP | H_CONTACT | H_EXPIRES
  | H_REASON | H_CONTENT_TYPE | H_CONTENT_LENGTH | H_MIME_VERSION | H_CONTENT_ENCODING
  | H_CONTENT_DISPOSITION | H_P_ASSERTED_IDENTITY | H_EXTENDED

text \<open>The numbers of the enumerators, which order the keys of \<^verbatim>\<open>std::map<BodyType, std::string>\<close>.\<close>

definition body_type_code :: "body_type \<Rightarrow> nat" where
  "body_type_code t = (case t of
     Body_UNKNOWN \<Rightarrow> 0 | Body_NONE \<Rightarrow> 1 | Body_SDP \<Rightarrow> 2 | Body_XML \<Rightarrow> 3 | Body_MULTIPLE \<Rightarrow> 4
   | Body_BOUNDARY \<Rightarrow> 5 | Body_OTHER \<Rightarrow> 6)"

lemma body_type_code_inject [simp]: "body_type_code s = body_type_code t \<longleftrightarrow> s = t"
  by (cases s; cases t) (simp_all add: body_type_code_def)

instantiation body_type :: linorder
begin

definition less_eq_body_type :: "body_type \<Rightarrow> body_type \<Rightarrow> bool" where
  "less_eq_body_type s t \<longleftrightarrow> body_type_code s \<le> body_type_code t"

definition less_body_type :: "body_type \<Rightarrow> body_type \<Rightarrow> bool" where
  "less_body_type s t \<longleftrightarrow> body_type_code s < body_type_code t"

instance
  by standard (auto simp: less_eq_body_type_def less_body_type_def)

end

section \<open>Header objects\<close>

record via_header =
  transportType :: "transport_type option"
  remoteAddress :: mapped_buffer
  remoteBranch :: mapped_buffer
  remotePort :: "int option"

datatype header_ext = NoExt | Ext_Via via_header | Ext_ContentLength int | Ext_ContentType body_type
  | Ext_MaxForwards int

record sip_header =
  headerType :: header_type
  fieldName :: string
  headerValue :: mapped_buffer
  headerExt :: header_ext

definition plain_header :: "header_type \<Rightarrow> string \<Rightarrow> mapped_buffer \<Rightarrow> sip_header" where
  "plain_header t name v = \<lparr>headerType = t, fieldName = name, headerValue = v, headerExt = NoExt\<rparr>"

definition getDescriptor :: "sip_header \<Rightarrow> string \<times> string" where
  "getDescriptor h = (fieldName h, toString (headerValue h))"

definition getIntValue :: "mapped_buffer \<Rightarrow> int" where
  "getIntValue v = to_int32 (toLongInteger v)"

section \<open>Constructors without further members\<close>

definition SipAcceptHeader :: "mapped_buffer \<Rightarrow> sip_header" where
  "SipAcceptHeader v = plain_header H_ACCEPT ''Accept'' v"

definition SipAllowEventsHeader :: "mapped_buffer \<Rightarrow> sip_header" where
  "SipAllowEventsHeader v = plain_header H_AllOW_EVENTS ''Allow-Events'' v"

definition SipAllowHeader :: "mapped_buffer \<Rightarrow> sip_header" where
  "SipAllowHeader v = plain_header H_ALLOW ''Allow'' v"

definition SipAssertedIdentityHeader :: "mapped_buffer \<Rightarrow> sip_header" where
  "SipAssertedIdentityHeader v = plain_header H_P_ASSERTED_IDENTITY ''P-Asserted_Identity'' v"

definition SipCSeqHeader :: "mapped_buffer \<Rightarrow> sip_header" where
  "SipCSeqHeader v = plain_header H_CSEQ ''C-Seq'' v"

definition SipCallIdHeader :: "mapped_buffer \<Rightarrow> sip_header" where
  "SipCallIdHeader v = plain_header H_CALL_ID ''Call-ID'' v"

definition SipContactHeader :: "mapped_buffer \<Rightarrow> sip_header" where
  "SipContactHeader v = plain_header H_CONTACT ''Contact'' v"

definition SipContentDispositionHeader :: "mapped_buffer \<Rightarrow> sip_header" where
  "SipContentDispositionHeader v = plain_header H_CONTENT_DISPOSITION ''Content-Disposition'' v"

definition SipContentEncodingHeader :: "mapped_buffer \<Rightarrow> sip_header" where
  "SipContentEncodingHeader v = plain_header H_CONTENT_ENCODING ''Content-Encoding'' v"

definition SipDateHeader :: "mapped_buffer \<Rightarrow> sip_header" where
  "SipDateHeader v = plain_header H_DATE ''Date'' v"

definition SipEmptyHeader :: "mapped_buffer \<Rightarrow> sip_header" where
  "SipEmptyHeader v = plain_header H_EMPTY ''X-Empty'' v"

definition SipExpiresHeader :: "mapped_buffer \<Rightarrow> sip_header" where
  "SipExpiresHeader v = plain_header H_EXPIRES ''Expires'' v"

definition SipFromHeader :: "mapped_buffer \<Rightarrow> sip_header" where
  "SipFromHeader v = plain_header H_FROM ''From'' v"

definition SipMimeVersionHeader :: "mapped_buffer \<Rightarrow> sip_header" where
  "SipMimeVersionHeader v = plain_header H_MIME_VERSION ''Mime-Version'' v"

definition SipMinSeHeader :: "mapped_buffer \<Rightarrow> sip_header" where
  "SipMinSeHeader v = plain_header H_MINSE ''Min-SE'' v"

definition SipReasonHeader :: "mapped_buffer \<Rightarrow> sip_header" where
  "SipReasonHeader v = plain_header H_REASON ''Reason'' v"

definition SipRequireAfterHeader :: "mapped_buffer \<Rightarrow> sip_header" where
  "SipRequireAfterHeader v = plain_header H_REQUIRE_AFTER ''Require-After'' v"

definition SipRequireHeader :: "mapped_buffer \<Rightarrow> sip_header" where
  "SipRequireHeader v = plain_header H_REQUIRE ''Require'' v"

definition SipSubjectHeader :: "mapped_buffer \<Rightarrow> sip_header" where
  "SipSubjectHeader v = plain_header H_SUBJECT ''Subject'' v"

definition SipSupportedHeader :: "mapped_buffer \<Rightarrow> sip_header" where
  "SipSupportedHeader v = plain_header H_SUPPORTED ''Supported'' v"

definition SipTimestampHeader :: "mapped_buffer \<Rightarrow> sip_header" where
  "SipTimestampHeader v = plain_header H_TIMESTAMP ''Timestamp'' v"

definition SipToHeader :: "mapped_buffer \<Rightarrow> sip_header" where
  "SipToHeader v = plain_header H_TO ''To'' v"

definition SipUnsupportedHeader :: "mapped_buffer \<Rightarrow> sip_header" where
  "SipUnsupportedHeader v = plain_header H_UNSUPPORTED ''Unsupported'' v"

definition SipUserAgentHeader :: "mapped_buffer \<Rightarrow> sip_header" where
  "SipUserAgentHeader v = plain_header H_USER_AGENT ''User-Agent'' v"

section \<open>Constructors that read the value\<close>

definition SipExtendedHeader :: "mapped_buffer \<Rightarrow> mapped_buffer \<Rightarrow> sip_header" where
  "SipExtendedHeader name v = plain_header H_EXTENDED (c_str (toString name)) v"

definition SipMaxForwardsHeader :: "mapped_buffer \<Rightarrow> sip_header" where
  "SipMaxForwardsHeader v =
     (plain_header H_MAX_FORWARDS ''Max-Forwards'' v)
       \<lparr>headerExt := Ext_MaxForwards (atoi (c_str (toString v)))\<rparr>"

definition SipContentLengthHeader :: "mapped_buffer \<Rightarrow> sip_header" where
  "SipContentLengthHeader v =
     (plain_header H_CONTENT_LENGTH ''Content-Length'' v)
       \<lparr>headerExt := Ext_ContentLength (getIntValue v)\<rparr>"

definition content_type_of :: "mapped_buffer \<Rightarrow> body_type" where
  "content_type_of v =
     (if buffer_contains v ''XML'' False then Body_XML
      else if buffer_contains v ''SDP'' False then Body_SDP
      else if buffer_contains v ''MULTIPLE'' False then Body_MULTIPLE
      else if buffer_contains v ''BOUNDARY'' False then Body_BOUNDARY
      else Body_UNKNOWN)"

definition SipContentTypeHeader :: "mapped_buffer \<Rightarrow> sip_header" where
  "SipContentTypeHeader v =
     (plain_header H_CONTENT_TYPE ''Content-Type'' v)\<lparr>headerExt := Ext_ContentType (content_type_of v)\<rparr>"

text \<open>
  The Via header: \<open>via_section\<close> is the body of the loop over the sections after the first space,
  \<open>i\<close> its index.
\<close>

definition via_transport :: "mapped_buffer \<Rightarrow> transport_type" where
  "via_transport s =
     (if buffer_ends_with s ''UDP'' False then Transport_UDP
      else if buffer_ends_with s ''TCP'' False then Transport_TCP
      else DefaultTransportType)"

definition via_section :: "nat \<Rightarrow> mapped_buffer \<Rightarrow> via_header \<Rightarrow> via_header outcome" where
  "via_section i s via =
     (if i = 0 then
        (case buffer_split s (CHR '':'') of
           [] \<Rightarrow> Inl OutOfBounds
         | a # as \<Rightarrow> Inr (via\<lparr>remoteAddress := a,
             remotePort := Some (case as of [] \<Rightarrow> 0 | p # _ \<Rightarrow> atoi (c_str (toString p)))\<rparr>))
      else
        (case buffer_split s (CHR ''='') of
           [k, v] \<Rightarrow>
             (if buffer_equals k ''branch'' False then Inr (via\<lparr>remoteBranch := v\<rparr>)
              else if buffer_equals k ''rport'' False then
                (if remotePort via = Some 0
                 then Inr (via\<lparr>remotePort := Some (to_int32 (toLongInteger v))\<rparr>) else Inr via)
              else Inr via)
         | _ \<Rightarrow> Inr via))"

fun via_sections :: "nat \<Rightarrow> mapped_buffer list \<Rightarrow> via_header \<Rightarrow> via_header outcome" where
  "via_sections i [] via = Inr via"
| "via_sections i (s # ss) via = bindO (via_section i s via) (via_sections (Suc i) ss)"

definition empty_via :: via_header where
  "empty_via = \<lparr>transportType = None, remoteAddress = null_buffer, remoteBranch = null_buffer,
     remotePort = None\<rparr>"

definition parse_via :: "mapped_buffer \<Rightarrow> via_header outcome" where
  "parse_via v =
     (case buffer_split v (CHR '' '') of
        [protocol, rest] \<Rightarrow>
          via_sections 0 (buffer_split rest (CHR '';''))
            (empty_via\<lparr>transportType := Some (via_transport protocol)\<rparr>)
      | _ \<Rightarrow> Inr empty_via)"

definition SipViaHeader :: "mapped_buffer \<Rightarrow> sip_header outcome" where
  "SipViaHeader v = bindO (parse_via v) (\<lambda>via.
     Inr ((plain_header H_VIA ''Via'' v)\<lparr>headerExt := Ext_Via via\<rparr>))"

definition initialised :: "'a option \<Rightarrow> 'a outcome" where
  "initialised v = (case v of Some x \<Rightarrow> Inr x | None \<Rightarrow> Inl Indeterminate)"

definition getResponseValue :: "via_header \<Rightarrow> string outcome" where
  "getResponseValue via =
     bindO (initialised (transportType via)) (\<lambda>t.
     bindO (initialised (remotePort via)) (\<lambda>port.
       Inr (''SIP/2.0/'' @ getTransportTypeStr t @ '' '' @ toString (remoteAddress via) @
         (if blen (remoteBranch via) \<noteq> 0 then '';branch='' @ toString (remoteBranch via) else []) @
         (if blen (remoteAddress via) \<noteq> 0 then '';received='' @ toString (remoteAddress via) else []) @
         (if port \<noteq> 0 then '';rport='' @ show_int port else '';rport''))))"

lemma initialised_Some [simp]: "initialised (Some x) = Inr x"
  by (simp add: initialised_def)

section \<open>A well-formed Via header\<close>

definition via_text :: "string \<Rightarrow> string \<Rightarrow> nat \<Rightarrow> string \<Rightarrow> string" where
  "via_text protocol host port branch =
     protocol @ '' '' @ host @ '':'' @ show_nat port @ '';branch='' @ branch"

definition plain_word :: "string \<Rightarrow> bool" where
  "plain_word w \<longleftrightarrow> w \<noteq> [] \<and> (\<forall>c \<in> set w. c \<notin> {NUL, CHR '' '', CHR '';'', CHR '':'', CHR ''=''})"

lemma plain_word_digits: "plain_word (show_nat n)"
  using show_nat_digits [of n]
  by (auto simp: plain_word_def isdigit_def char_code_def dest!: bspec)

lemma plain_word_branch: "plain_word ''branch''"
  by (simp add: plain_word_def)

lemma plain_word_char:
  assumes "plain_word w"
  shows "NUL \<notin> set w" "CHR '' '' \<notin> set w" "CHR '';'' \<notin> set w" "CHR '':'' \<notin> set w" "CHR ''='' \<notin> set w"
  using assms by (auto simp: plain_word_def)

lemma atoi_show_nat:
  assumes "n < 2 ^ 31"
  shows "atoi (c_str (show_nat n)) = int n"
proof -
  have "NUL \<notin> set (show_nat n)"
    using show_nat_digits [of n] by (auto simp: isdigit_def char_code_def)
  moreover have "strtol (show_nat n) = int n"
    using strtol_show_nat [of n "[]"] assms by (simp add: isdigit_def char_code_def)
  ultimately show ?thesis
    using assms by (simp add: c_str_id atoi_def to_int32_id)
qed

lemma split_plain_word:
  assumes "plain_word w" and "d \<in> {CHR '' '', CHR '';'', CHR '':'', CHR ''=''}"
  shows "buffer_split (view (w @ d # s) (Suc (length w + n))) d =
      view (w @ d # s) (length w) # buffer_split (view s n) d"
    and "buffer_split (view (w @ s) (length w)) d = [view (w @ s) (length w)]"
  using assms buffer_split_word [of w d s n] buffer_split_last [of w d s]
  by (auto simp: plain_word_def)

definition parsed_via :: "transport_type \<Rightarrow> string \<Rightarrow> nat \<Rightarrow> string \<Rightarrow> string \<Rightarrow> via_header" where
  "parsed_via t host port branch rest =
     \<lparr>transportType = Some t,
      remoteAddress = view (host @ '':'' @ show_nat port @ '';branch='' @ branch @ rest) (length host),
      remoteBranch = view (branch @ rest) (length branch),
      remotePort = Some (int port)\<rparr>"

lemma via_sections_parsed:
  assumes host: "plain_word host" and branch: "plain_word branch" and port: "port < 2 ^ 31"
    and via: "transportType via = Some t"
  shows "via_sections 0 (buffer_split (view (host @ '':'' @ show_nat port @ '';branch='' @ branch @ rest)
      (length host + Suc (length (show_nat port) + Suc (length ''branch'' + Suc (length branch))))) (CHR '';'')) via
    = Inr (parsed_via t host port branch rest)"
proof -
  let ?p = "show_nat port"
  let ?hp = "host @ '':'' @ ?p" and ?br = "''branch='' @ branch"
  let ?m = "?hp @ CHR '';'' # ?br @ rest"
  have mem: "host @ '':'' @ ?p @ '';branch='' @ branch @ rest = ?m"
    by simp
  have hp: "?hp \<noteq> []" "\<forall>c \<in> set ?hp. c \<noteq> CHR '';'' \<and> c \<noteq> NUL"
    using host plain_word_digits [of port] by (auto simp: plain_word_def)
  have br: "?br \<noteq> []" "\<forall>c \<in> set ?br. c \<noteq> CHR '';'' \<and> c \<noteq> NUL"
    using branch by (auto simp: plain_word_def)
  have len: "length host + Suc (length ?p + Suc (length ''branch'' + Suc (length branch))) =
      length ?hp + Suc (length ?br)"
    by simp
  have sections: "buffer_split (view ?m (length ?hp + Suc (length ?br))) (CHR '';'') =
      [view ?m (length ?hp), view (?br @ rest) (length ?br)]"
    by (subst buffer_split_word [OF hp], subst buffer_split_last [OF br]) (rule refl)
  have address: "buffer_split (view ?m (length ?hp)) (CHR '':'') =
      [view ?m (length host), view (?p @ CHR '';'' # ?br @ rest) (length ?p)]"
    using split_plain_word(1) [OF host, of "CHR '':''" "?p @ CHR '';'' # ?br @ rest" "length ?p"]
      split_plain_word(2) [OF plain_word_digits, of "CHR '':''" port "CHR '';'' # ?br @ rest"]
    by simp
  have param: "buffer_split (view (?br @ rest) (length ?br)) (CHR ''='') =
      [view (?br @ rest) (length ''branch''), view (branch @ rest) (length branch)]"
    using split_plain_word(1) [OF plain_word_branch, of "CHR ''=''" "branch @ rest" "length branch"]
      split_plain_word(2) [OF branch, of "CHR ''=''" rest]
    by simp
  have "buffer_equals (view (?br @ rest) (length ''branch'')) ''branch'' False"
    by (subst buffer_equals_iff) (simp_all add: toString_view fold_case_def)
  then have second: "via_section (Suc 0) (view (?br @ rest) (length ?br)) v =
      Inr (v\<lparr>remoteBranch := view (branch @ rest) (length branch)\<rparr>)" for v
    unfolding via_section_def param by (simp only: list.case if_True nat.simps if_False)
  have "toString (view (?p @ CHR '';'' # ?br @ rest) (length ?p)) = ?p"
    by (simp add: toString_view)
  then have first: "via_section 0 (view ?m (length ?hp)) v =
      Inr (v\<lparr>remoteAddress := view ?m (length host), remotePort := Some (int port)\<rparr>)" for v
    unfolding via_section_def address by (simp only: list.case if_True simp_thms atoi_show_nat [OF port])
  show ?thesis
    unfolding mem len sections via_sections.simps first bindO_Inr second
    using via by (simp add: parsed_via_def)
qed

lemma parse_via_text:
  assumes "protocol \<noteq> []" and "\<forall>c \<in> set protocol. c \<noteq> CHR '' '' \<and> c \<noteq> NUL"
    and host: "plain_word host" and branch: "plain_word branch" and port: "port < 2 ^ 31"
  shows "parse_via (view (via_text protocol host port branch @ rest)
      (length (via_text protocol host port branch))) =
    Inr (parsed_via (via_transport (buffer_of_string protocol)) host port branch rest)"
proof -
  let ?r = "host @ '':'' @ show_nat port @ '';branch='' @ branch"
  have r: "?r \<noteq> []" "\<forall>c \<in> set ?r. c \<noteq> CHR '' '' \<and> c \<noteq> NUL"
    using plain_word_char [OF host] plain_word_char [OF branch]
      plain_word_char [OF plain_word_digits [of port]] by auto
  have mem: "via_text protocol host port branch @ rest = protocol @ CHR '' '' # ?r @ rest"
    and len: "length (via_text protocol host port branch) = length protocol + Suc (length ?r)"
    by (simp_all add: via_text_def)
  have "buffer_split (view (protocol @ CHR '' '' # ?r @ rest) (length protocol + Suc (length ?r))) (CHR '' '') =
      [view (protocol @ CHR '' '' # ?r @ rest) (length protocol), view (?r @ rest) (length ?r)]"
    by (subst buffer_split_word [OF assms(1,2)], subst buffer_split_last [OF r]) (rule refl)
  moreover have "via_transport (view (protocol @ CHR '' '' # ?r @ rest) (length protocol)) =
      via_transport (buffer_of_string protocol)"
    by (simp add: via_transport_def buffer_ends_with_iff toString_view)
  ultimately show ?thesis
    unfolding parse_via_def mem len
    using via_sections_parsed [OF host branch port,
        of "empty_via\<lparr>transportType := Some (via_transport (buffer_of_string protocol))\<rparr>" _ rest]
    by simp
qed

text \<open>The usual Via values, and what the parsed header then offers to the accessors.\<close>

definition usual_via :: "string \<Rightarrow> bool" where
  "usual_via v \<longleftrightarrow> (\<exists>protocol host port branch. v = via_text protocol host port branch \<and>
     protocol \<noteq> [] \<and> (\<forall>c \<in> set protocol. c \<noteq> CHR '' '' \<and> c \<noteq> NUL) \<and>
     plain_word host \<and> plain_word branch \<and> port < 2 ^ 31)"

definition via_usable :: "via_header \<Rightarrow> bool" where
  "via_usable via \<longleftrightarrow> (\<exists>t p r. transportType via = Some t \<and> remotePort via = Some p \<and>
     getResponseValue via = Inr r)"

lemma usual_via_parsed:
  assumes "view_wf v" and "usual_via (toString v)"
  shows "\<exists>via. parse_via v = Inr via \<and> via_usable via"
proof -
  obtain protocol host port branch where t: "toString v = via_text protocol host port branch"
    and ok: "protocol \<noteq> []" "\<forall>c \<in> set protocol. c \<noteq> CHR '' '' \<and> c \<noteq> NUL" "plain_word host" "plain_word branch"
      "port < 2 ^ 31"
    using assms(2) by (auto simp: usual_via_def)
  let ?t = "via_text protocol host port branch"
  have len: "blen v = length ?t"
    using length_toString [OF assms(1)] t by simp
  then have "buf v = ?t @ drop (length ?t) (buf v)"
    using t append_take_drop_id [of "blen v" "buf v"] by (simp add: toString_def)
  with len have "v = view (?t @ drop (length ?t) (buf v)) (length ?t)"
    by (cases v) simp
  then have "parse_via v = Inr (parsed_via (via_transport (buffer_of_string protocol)) host port branch
      (drop (length ?t) (buf v)))"
    using parse_via_text [OF ok] by metis
  then show ?thesis
    by (simp add: via_usable_def parsed_via_def getResponseValue_def)
qed

text \<open>
  C27: a Via value of the usual shape is taken apart as RFC 3261 means it, with the transport read off
  the protocol's last three letters, and the value put into responses repeats transport, address and
  branch and reports the address and port the request came from.
\<close>

theorem via_header_parsed:
  assumes "protocol \<noteq> []" and "\<forall>c \<in> set protocol. c \<noteq> CHR '' '' \<and> c \<noteq> NUL"
    and "plain_word host" and "plain_word branch" and "0 < port" and "port < 2 ^ 31"
  shows "bindO (parse_via (view (via_text protocol host port branch @ rest)
      (length (via_text protocol host port branch)))) getResponseValue =
    Inr (''SIP/2.0/'' @ (if suffix ''TCP'' (map toupper protocol) then ''TCP'' else ''UDP'') @ '' '' @ host @
      '';branch='' @ branch @ '';received='' @ host @ '';rport='' @ show_nat port)"
proof -
  have t: "getTransportTypeStr (via_transport (buffer_of_string protocol)) =
      (if suffix ''TCP'' (map toupper protocol) then ''TCP'' else ''UDP'')"
  proof -
    have "map toupper ''UDP'' = ''UDP''" "map toupper ''TCP'' = ''TCP''"
      by (simp_all add: ctype_defs)
    moreover have "\<not> (suffix ''TCP'' s \<and> suffix ''UDP'' s)" for s :: string
      by (auto simp: suffix_def)
    ultimately show ?thesis
      by (auto simp: via_transport_def buffer_ends_with_iff fold_case_def getTransportTypeStr_def
          DefaultTransportType_def)
  qed
  have "host \<noteq> []" "branch \<noteq> []"
    using assms(3,4) by (simp_all add: plain_word_def)
  then show ?thesis
    using assms(5) unfolding parse_via_text [OF assms(1-4,6)] bindO_Inr
    by (simp add: getResponseValue_def parsed_via_def t toString_view show_int_def)
qed

theorem via_header_parsed_witness:
  "bindO (parse_via (view (via_text ''SIP/2.0/TCP'' ''client.example.com'' 5060 ''z9hG4bKnashds7'' @ CRLF)
      (length (via_text ''SIP/2.0/TCP'' ''client.example.com'' 5060 ''z9hG4bKnashds7'')))) getResponseValue =
    Inr (''SIP/2.0/'' @ (if suffix ''TCP'' (map toupper ''SIP/2.0/TCP'') then ''TCP'' else ''UDP'') @ '' '' @
      ''client.example.com'' @ '';branch='' @ ''z9hG4bKnashds7'' @ '';received='' @ ''client.example.com'' @
      '';rport='' @ show_nat 5060)"
  by (rule via_header_parsed) (simp_all add: plain_word_def)

end
