(* ===== verification/MessageBuffer.thy ===== *)
theory MessageBuffer
  imports Prelude
begin

text \<open>
  Model of \<^verbatim>\<open>src/src/components/utilities/MessageBuffer.h\<close> and \<^verbatim>\<open>MessageBuffer.cpp\<close>: the ring buffer
  that reassembles messages from TCP segments. The array has one byte more than the capacity. Every
  operation returns an \<^typ>\<open>'a outcome\<close>, so that a copy outside the array or outside the caller's
  buffer is the value \<^term>\<open>Inl OutOfBounds\<close>; \<^verbatim>\<open>size_t\<close> subtraction wraps.

  The abstract state is the sequence \<open>stored_bytes\<close>. The locale \<open>byte_fifo\<close> is the contract the
  network code relies on; it is interpreted on \<open>offer\<close> and \<open>take_out\<close>, the successful \<open>push\<close> and
  \<open>pull\<close>. The scan for the delimiter is refined to the automaton \<open>match_run\<close> on the stored bytes.
\<close>

section \<open>State\<close>

record message_buffer =
  bsize :: nat
  maxCapacity :: nat
  dataStartPos :: nat
  dataEndPos :: nat
  bdata :: string

definition size_sub :: "nat \<Rightarrow> nat \<Rightarrow> nat" where
  "size_sub a b = (if b \<le> a then a - b else a + 2 ^ 64 - b)"

text \<open>\<open>contents\<close> are the bytes the fresh array happens to hold: the constructor does not clear them.\<close>

definition new_message_buffer :: "nat \<Rightarrow> string \<Rightarrow> message_buffer" where
  "new_message_buffer capacity contents =
     \<lparr>bsize = (capacity + 1) mod 2 ^ 64, maxCapacity = capacity, dataStartPos = 0, dataEndPos = 0,
      bdata = (if capacity \<noteq> 0 then contents else [])\<rparr>"

definition getStoredByteCount :: "message_buffer \<Rightarrow> nat" where
  "getStoredByteCount b =
     (if dataEndPos b \<ge> dataStartPos b then dataEndPos b - dataStartPos b
      else (size_sub (bsize b) (dataStartPos b) + dataEndPos b) mod 2 ^ 64)"

definition getSpaceAvailableByteCount :: "message_buffer \<Rightarrow> nat" where
  "getSpaceAvailableByteCount b = size_sub (maxCapacity b) (getStoredByteCount b)"

section \<open>Memory operations\<close>

definition memcpy_to :: "string \<Rightarrow> nat \<Rightarrow> string \<Rightarrow> string outcome" where
  "memcpy_to d off src = (if off + length src \<le> length d then Inr (blit off src d) else Inl OutOfBounds)"

definition memread :: "string \<Rightarrow> nat \<Rightarrow> nat \<Rightarrow> string outcome" where
  "memread d off n = (if off + n \<le> length d then Inr (take n (drop off d)) else Inl OutOfBounds)"

definition memset_zero :: "string \<Rightarrow> nat \<Rightarrow> string outcome" where
  "memset_zero d n = memcpy_to d 0 (replicate n NUL)"

section \<open>Operations\<close>

definition push :: "message_buffer \<Rightarrow> string \<Rightarrow> (nat \<times> message_buffer) outcome" where
  "push b src =
     (let len = length src
      in if len > getSpaceAvailableByteCount b then Inr (0, b)
         else
           (let count = size_sub (bsize b) (dataEndPos b);
                count = (if count < len then count else len)
            in bindO (memcpy_to (bdata b) (dataEndPos b) (take count src)) (\<lambda>d.
                 let b1 = b\<lparr>bdata := d, dataEndPos := dataEndPos b + count\<rparr>
                 in if count < len then
                      bindO (memcpy_to d 0 (drop count src)) (\<lambda>d2.
                        Inr (len, b1\<lparr>bdata := d2, dataEndPos := len - count\<rparr>))
                    else Inr (len, b1))))"

definition getchar :: "message_buffer \<Rightarrow> (char \<times> message_buffer) outcome" where
  "getchar b =
     (if getStoredByteCount b \<noteq> 0 then
        bindO (memread (bdata b) (dataStartPos b) 1) (\<lambda>cs.
          let pos = dataStartPos b + 1
          in Inr (hd cs, b\<lparr>dataStartPos := if pos \<ge> bsize b then 0 else pos\<rparr>))
      else Inr (NUL, b))"

definition putchar :: "message_buffer \<Rightarrow> char \<Rightarrow> (bool \<times> message_buffer) outcome" where
  "putchar b c =
     (if getSpaceAvailableByteCount b \<noteq> 0 then
        (let pos = size_sub (dataStartPos b) 1;
             pos = (if pos \<ge> bsize b then bsize b else pos)
         in bindO (memcpy_to (bdata b) pos [c]) (\<lambda>d.
              Inr (True, b\<lparr>bdata := d, dataStartPos := pos\<rparr>)))
      else Inr (False, b))"

text \<open>
  \<^verbatim>\<open>pull(buf, bufSize, bytes)\<close>: \<open>dest\<close> is the caller's allocation. The result has the count, the
  allocation after the call and the buffer.
\<close>

definition pull_bytes :: "message_buffer \<Rightarrow> string \<Rightarrow> nat \<Rightarrow> nat \<Rightarrow>
    (nat \<times> string \<times> message_buffer) outcome" where
  "pull_bytes b dest bufSize bytes =
     (let storedByteCount = getStoredByteCount b
      in bindO (memset_zero dest bufSize) (\<lambda>dest.
         let count = (if bytes < storedByteCount then bytes else storedByteCount)
         in if count > size_sub (bsize b) (dataStartPos b) then
              (let endCount = size_sub (bsize b) (dataStartPos b);
                   startCount = count - endCount
               in bindO (memread (bdata b) (dataStartPos b) endCount) (\<lambda>s1.
                  bindO (memcpy_to dest 0 s1) (\<lambda>dest.
                  bindO (memread (bdata b) 0 startCount) (\<lambda>s2.
                  bindO (memcpy_to dest endCount s2) (\<lambda>dest.
                    Inr (count, dest, b\<lparr>dataStartPos := startCount\<rparr>))))))
            else if count \<noteq> 0 then
              bindO (memread (bdata b) (dataStartPos b) count) (\<lambda>s.
              bindO (memcpy_to dest 0 s) (\<lambda>dest.
                Inr (count, dest, b\<lparr>dataStartPos := dataStartPos b + count\<rparr>)))
            else Inr (count, dest, b)))"

text \<open>
  The \<^verbatim>\<open>do\<close> loop of \<^verbatim>\<open>pull(buf, bufSize, delimiter)\<close>: \<open>pos\<close> is \<^verbatim>\<open>pSource - data\<close>. The result is the
  count when the delimiter was matched and \<^const>\<open>None\<close> when the loop gave up.
\<close>

function scan_loop :: "string \<Rightarrow> nat \<Rightarrow> string \<Rightarrow> nat \<Rightarrow> nat \<Rightarrow> nat \<Rightarrow> nat \<Rightarrow> nat option outcome" where
  "scan_loop d sz delimiter bufSize pos matchedCount count =
     (if matchedCount = length delimiter then Inr (Some count)
      else
        (let pos = (if pos = sz then 0 else pos)
         in if pos < length d then
              (let matchedCount = (if d ! pos = delimiter ! matchedCount then matchedCount + 1 else 0);
                   count = count + 1
               in if count \<ge> bufSize then Inr None
                  else scan_loop d sz delimiter bufSize (pos + 1) matchedCount count)
            else Inl OutOfBounds))"
  by pat_completeness auto

termination by (relation "measure (\<lambda>(_, _, _, bufSize, _, _, count). bufSize - count)") simp_all

declare scan_loop.simps [simp del]

definition pull_delim :: "message_buffer \<Rightarrow> string \<Rightarrow> nat \<Rightarrow> string \<Rightarrow>
    (nat \<times> string \<times> message_buffer) outcome" where
  "pull_delim b dest bufSize delimiter =
     (let delimiterLength = length delimiter;
          storedByteCount = getStoredByteCount b
      in if delimiterLength > 0 then
           (if storedByteCount < delimiterLength then Inr (0, dest, b)
            else bindO (scan_loop (bdata b) (bsize b) delimiter bufSize (dataStartPos b) 0 0) (\<lambda>r.
                   pull_bytes b dest bufSize (case r of Some count \<Rightarrow> count | None \<Rightarrow> 0)))
         else pull_bytes b dest bufSize (if bufSize < storedByteCount then bufSize else storedByteCount))"

definition flush :: "message_buffer \<Rightarrow> nat \<times> message_buffer" where
  "flush b = (maxCapacity b, b\<lparr>dataStartPos := 0, dataEndPos := 0\<rparr>)"

section \<open>Invariant and abstraction\<close>

definition buffer_inv :: "message_buffer \<Rightarrow> bool" where
  "buffer_inv b \<longleftrightarrow>
     0 < maxCapacity b \<and> bsize b = maxCapacity b + 1 \<and> bsize b < 2 ^ 64 \<and> length (bdata b) = bsize b \<and>
     dataStartPos b \<le> bsize b \<and> dataEndPos b \<le> bsize b \<and> getStoredByteCount b \<le> maxCapacity b"

definition ahead :: "string \<Rightarrow> nat \<Rightarrow> string" where
  "ahead d pos = drop pos d @ d"

definition stored_bytes :: "message_buffer \<Rightarrow> string" where
  "stored_bytes b = take (getStoredByteCount b) (ahead (bdata b) (dataStartPos b))"

lemma size_sub_le [simp]: "b \<le> a \<Longrightarrow> size_sub a b = a - b"
  by (simp add: size_sub_def)

lemma buffer_invD:
  assumes "buffer_inv b"
  shows "0 < maxCapacity b" "bsize b = maxCapacity b + 1" "length (bdata b) = bsize b"
    "dataStartPos b \<le> bsize b" "dataEndPos b \<le> bsize b" "getStoredByteCount b \<le> maxCapacity b"
    "bsize b < 2 ^ 64"
  using assms by (simp_all add: buffer_inv_def)

lemma stored_count:
  assumes "dataStartPos b \<le> bsize b" and "dataEndPos b \<le> bsize b" and "bsize b < 2 ^ 64"
  shows "getStoredByteCount b =
    (if dataEndPos b \<ge> dataStartPos b then dataEndPos b - dataStartPos b
     else bsize b - dataStartPos b + dataEndPos b)"
  using assms by (auto simp: getStoredByteCount_def)

lemma length_stored_bytes: "buffer_inv b \<Longrightarrow> length (stored_bytes b) = getStoredByteCount b"
  by (auto simp: stored_bytes_def ahead_def buffer_inv_def)

lemma space_available: "buffer_inv b \<Longrightarrow>
    getSpaceAvailableByteCount b = maxCapacity b - length (stored_bytes b)"
  by (simp add: getSpaceAvailableByteCount_def length_stored_bytes buffer_invD)

lemma new_message_buffer_inv:
  assumes "0 < capacity" and "capacity + 1 < 2 ^ 64" and "length contents = capacity + 1"
  shows "buffer_inv (new_message_buffer capacity contents)"
    and "stored_bytes (new_message_buffer capacity contents) = []"
  using assms
  by (simp_all add: buffer_inv_def new_message_buffer_def getStoredByteCount_def stored_bytes_def)

lemma flush_inv:
  assumes "buffer_inv b"
  shows "buffer_inv (snd (flush b))" and "stored_bytes (snd (flush b)) = []"
  using assms by (simp_all add: buffer_inv_def flush_def getStoredByteCount_def stored_bytes_def)

section \<open>push appends\<close>

lemma stored_bytes_linear:
  assumes "buffer_inv b" and "dataStartPos b \<le> dataEndPos b"
  shows "stored_bytes b = drop (dataStartPos b) (take (dataEndPos b) (bdata b))"
  using assms buffer_invD [OF assms(1)]
  by (simp add: stored_bytes_def stored_count ahead_def drop_take)

lemma stored_bytes_wrapped:
  assumes "buffer_inv b" and "dataEndPos b < dataStartPos b"
  shows "stored_bytes b = drop (dataStartPos b) (bdata b) @ take (dataEndPos b) (bdata b)"
  using assms buffer_invD [OF assms(1)]
  by (simp add: stored_bytes_def stored_count ahead_def)

definition push_post :: "message_buffer \<Rightarrow> string \<Rightarrow> (nat \<times> message_buffer) outcome \<Rightarrow> bool" where
  "push_post b src r \<longleftrightarrow>
     (\<exists>b'. r = Inr (length src, b') \<and> buffer_inv b' \<and> stored_bytes b' = stored_bytes b @ src \<and>
           maxCapacity b' = maxCapacity b)"

lemma push_no_wrap:
  assumes inv: "buffer_inv b" and len: "length src \<le> maxCapacity b - getStoredByteCount b"
    and fits: "length src \<le> bsize b - dataEndPos b"
  shows "push_post b src (push b src)"
proof -
  note I = buffer_invD [OF inv]
  let ?b = "b\<lparr>bdata := blit (dataEndPos b) src (bdata b), dataEndPos := dataEndPos b + length src\<rparr>"
  have r: "push b src = Inr (length src, ?b)"
    using I len fits
    by (simp add: push_def getSpaceAvailableByteCount_def memcpy_to_def Let_def min_def)
  have room: "dataEndPos b < dataStartPos b \<Longrightarrow> dataEndPos b + length src < dataStartPos b"
    using I len by (simp add: stored_count)
  have "getStoredByteCount ?b = getStoredByteCount b + length src"
    using I fits room by (auto simp: stored_count)
  then have inv': "buffer_inv ?b"
    using I len fits unfolding buffer_inv_def by (simp; linarith)
  have "stored_bytes ?b = stored_bytes b @ src"
  proof (cases "dataStartPos b \<le> dataEndPos b")
    case True
    have "stored_bytes ?b = drop (dataStartPos b) (take (dataEndPos b) (bdata b) @ src)"
      using True I by (subst stored_bytes_linear [OF inv']) (simp_all add: take_blit)
    also have "\<dots> = stored_bytes b @ src"
      using True I by (simp add: stored_bytes_linear [OF inv])
    finally show ?thesis .
  next
    case False
    then show ?thesis
      using I room by (simp add: stored_bytes_wrapped [OF inv'] stored_bytes_wrapped [OF inv]
          take_blit drop_ge_blit)
  qed
  with r inv' show ?thesis by (simp add: push_post_def)
qed

lemma push_wrap:
  assumes inv: "buffer_inv b" and len: "length src \<le> maxCapacity b - getStoredByteCount b"
    and long: "bsize b - dataEndPos b < length src"
  shows "push_post b src (push b src)"
proof -
  note I = buffer_invD [OF inv]
  let ?c = "bsize b - dataEndPos b"
  let ?d = "blit (dataEndPos b) (take ?c src) (bdata b)"
  let ?b = "b\<lparr>bdata := blit 0 (drop ?c src) ?d, dataEndPos := length src - ?c\<rparr>"
  have le: "dataStartPos b \<le> dataEndPos b"
  proof (rule ccontr)
    assume "\<not> dataStartPos b \<le> dataEndPos b"
    then have "length src < dataStartPos b - dataEndPos b"
      using I len by (simp add: stored_count)
    then show False using I long by linarith
  qed
  have wrapped: "length src - ?c < dataStartPos b"
    using I len le long by (simp add: stored_count)
  have d: "length ?d = bsize b"
    using I long by simp
  have r: "push b src = Inr (length src, ?b)"
    using I len long wrapped d
    by (simp add: push_def getSpaceAvailableByteCount_def memcpy_to_def Let_def min_def)
  have "getStoredByteCount ?b = getStoredByteCount b + length src"
    using I le wrapped long by (simp add: stored_count)
  then have inv': "buffer_inv ?b"
    using I len wrapped d by (simp add: buffer_inv_def)
  have tail: "drop (dataStartPos b) (blit 0 (drop ?c src) ?d) = drop (dataStartPos b) ?d"
    using wrapped by (simp add: drop_ge_blit)
  have "drop (dataStartPos b) ?d = stored_bytes b @ take ?c src"
    using I le long by (simp add: blit_def stored_bytes_linear [OF inv])
  moreover have "take (length src - ?c) (blit 0 (drop ?c src) ?d) = drop ?c src"
    by (simp add: blit_def)
  ultimately have "stored_bytes ?b = stored_bytes b @ src"
    using wrapped tail by (simp add: stored_bytes_wrapped [OF inv'])
  with r inv' show ?thesis by (simp add: push_post_def)
qed

lemma push_appends:
  assumes "buffer_inv b" and "length src \<le> maxCapacity b - length (stored_bytes b)"
  shows "push_post b src (push b src)"
  using assms push_no_wrap [OF assms(1)] push_wrap [OF assms(1)]
  by (cases "length src \<le> bsize b - dataEndPos b") (simp_all add: length_stored_bytes)

lemma push_rejects:
  assumes "buffer_inv b" and "maxCapacity b - length (stored_bytes b) < length src"
  shows "push b src = Inr (0, b)"
  using assms by (simp add: push_def space_available)

section \<open>pull removes from the front\<close>

definition pull_post :: "message_buffer \<Rightarrow> string \<Rightarrow> nat \<Rightarrow> nat \<Rightarrow>
    (nat \<times> string \<times> message_buffer) outcome \<Rightarrow> bool" where
  "pull_post b dest bufSize n r \<longleftrightarrow>
     (\<exists>b'. r = Inr (n, blit 0 (take n (stored_bytes b)) (blit 0 (replicate bufSize NUL) dest), b') \<and>
           buffer_inv b' \<and> stored_bytes b' = drop n (stored_bytes b) \<and>
           maxCapacity b' = maxCapacity b)"

lemma pull_count: "(if (m :: nat) < n then m else n) = min m n"
  by simp

lemma memset_zero_ok:
  "bufSize \<le> length dest \<Longrightarrow> memset_zero dest bufSize = Inr (blit 0 (replicate bufSize NUL) dest)"
  by (simp add: memset_zero_def memcpy_to_def)

lemma same_start: "b\<lparr>dataStartPos := dataStartPos b\<rparr> = (b :: message_buffer)"
  by simp

lemma pull_linear:
  assumes inv: "buffer_inv b" and dest: "bufSize \<le> length dest" and n: "n \<le> length dest"
    and count: "n = min bytes (getStoredByteCount b)"
    and fits: "n \<le> bsize b - dataStartPos b"
  shows "pull_post b dest bufSize n (pull_bytes b dest bufSize bytes)"
proof -
  note I = buffer_invD [OF inv]
  let ?b = "b\<lparr>dataStartPos := dataStartPos b + n\<rparr>"
  have n_le: "n \<le> getStoredByteCount b" using count by simp
  let ?z = "blit 0 (replicate bufSize NUL) dest"
  have mr: "memread (bdata b) (dataStartPos b) n = Inr (take n (stored_bytes b))"
    using I fits n_le by (auto simp: memread_def stored_bytes_def ahead_def min_def)
  have mc: "memcpy_to ?z 0 (take n (stored_bytes b)) = Inr (blit 0 (take n (stored_bytes b)) ?z)"
    using dest n by (simp add: memcpy_to_def min_def)
  have "\<not> size_sub (bsize b) (dataStartPos b) < n"
    using I fits by simp
  then have r: "pull_bytes b dest bufSize bytes = Inr (n, blit 0 (take n (stored_bytes b)) ?z, ?b)"
    unfolding pull_bytes_def Let_def pull_count count [symmetric]
    by (cases "n = 0") (simp_all only: memset_zero_ok [OF dest] mr mc bindO_Inr simp_thms if_True
        if_False take_0 blit_Nil add_0_right same_start neq0_conv)
  have cnt: "getStoredByteCount ?b = getStoredByteCount b - n"
    using I fits n_le by (auto simp: stored_count)
  then have inv': "buffer_inv ?b"
    using I fits unfolding buffer_inv_def by (simp; linarith)
  have "drop n (ahead (bdata b) (dataStartPos b)) = ahead (bdata b) (dataStartPos b + n)"
    using I fits by (simp add: ahead_def add.commute)
  then have "stored_bytes ?b = drop n (stored_bytes b)"
    using cnt by (simp add: stored_bytes_def drop_take)
  with r inv' show ?thesis unfolding pull_post_def by auto
qed

lemma pull_wrapped:
  assumes inv: "buffer_inv b" and dest: "bufSize \<le> length dest" and n: "n \<le> length dest"
    and count: "n = min bytes (getStoredByteCount b)"
    and long: "bsize b - dataStartPos b < n"
  shows "pull_post b dest bufSize n (pull_bytes b dest bufSize bytes)"
proof -
  note I = buffer_invD [OF inv]
  let ?e = "bsize b - dataStartPos b"
  let ?b = "b\<lparr>dataStartPos := n - ?e\<rparr>"
  let ?z = "blit 0 (replicate bufSize NUL) dest"
  have n_le: "n \<le> getStoredByteCount b" using count by simp
  have wrapped: "dataEndPos b < dataStartPos b"
    using I long n_le by (simp add: stored_count split: if_splits)
  have small: "n - ?e \<le> dataEndPos b"
    using I n_le wrapped by (simp add: stored_count)
  have z: "length ?z = length dest"
    using dest by simp
  have bytes: "take n (stored_bytes b) = drop (dataStartPos b) (bdata b) @ take (n - ?e) (bdata b)"
    using I long small wrapped by (simp add: stored_bytes_wrapped [OF inv])
  have e: "length (drop (dataStartPos b) (bdata b)) = ?e" and le: "dataStartPos b \<le> bsize b"
    using I by simp_all
  have z: "length ?z = length dest"
    using dest by simp
  have mr1: "memread (bdata b) (dataStartPos b) ?e = Inr (drop (dataStartPos b) (bdata b))"
    and mr2: "memread (bdata b) 0 (n - ?e) = Inr (take (n - ?e) (bdata b))"
    using I small by (simp_all add: memread_def)
  have mc1: "memcpy_to ?z 0 (drop (dataStartPos b) (bdata b)) =
      Inr (blit 0 (drop (dataStartPos b) (bdata b)) ?z)"
    using I long n z by (simp add: memcpy_to_def)
  have "?e + length (take (n - ?e) (bdata b)) \<le> length dest"
    using I long n small by simp
  then have mc2: "memcpy_to (blit 0 (drop (dataStartPos b) (bdata b)) ?z) ?e (take (n - ?e) (bdata b)) =
      Inr (blit 0 (take n (stored_bytes b)) ?z)"
    using I long n z e blit_blit [of "drop (dataStartPos b) (bdata b)" "take (n - ?e) (bdata b)" ?z]
    by (simp add: memcpy_to_def bytes)
  have r: "pull_bytes b dest bufSize bytes = Inr (n, blit 0 (take n (stored_bytes b)) ?z, ?b)"
    unfolding pull_bytes_def Let_def pull_count count [symmetric]
    by (simp only: memset_zero_ok [OF dest] mr1 mr2 mc1 mc2 bindO_Inr size_sub_le [OF le] long
        if_True)
  have cnt: "getStoredByteCount ?b = getStoredByteCount b - n"
    using I small long wrapped by (auto simp: stored_count)
  then have inv': "buffer_inv ?b"
    using I small by (simp add: buffer_inv_def)
  have "stored_bytes ?b = drop (n - ?e) (take (dataEndPos b) (bdata b))"
    using small by (subst stored_bytes_linear [OF inv']) simp_all
  then have "stored_bytes ?b = drop n (stored_bytes b)"
    using I long by (simp add: stored_bytes_wrapped [OF inv wrapped])
  with r inv' show ?thesis unfolding pull_post_def by auto
qed

lemma pull_bytes_front:
  assumes "buffer_inv b" and "bufSize \<le> length dest"
    and "min bytes (length (stored_bytes b)) \<le> length dest"
  shows "pull_post b dest bufSize (min bytes (length (stored_bytes b))) (pull_bytes b dest bufSize bytes)"
  using pull_linear [OF assms(1,2,3), of bytes] pull_wrapped [OF assms(1,2,3), of bytes]
  unfolding length_stored_bytes [OF assms(1)] by (meson linorder_not_less)

lemma memcpy_to_overflow:
  "length d < off + length src \<Longrightarrow> memcpy_to d off src = Inl OutOfBounds"
  by (simp add: memcpy_to_def)

lemma memread_ok:
  assumes "off + n \<le> length d"
  obtains s where "memread d off n = Inr s" and "length s = n"
  using assms by (simp add: memread_def)

lemma pull_bytes_overflow:
  assumes inv: "buffer_inv b" and dest: "bufSize \<le> length dest"
    and short: "length dest < min bytes (length (stored_bytes b))"
  shows "pull_bytes b dest bufSize bytes = Inl OutOfBounds"
proof -
  note I = buffer_invD [OF inv]
  let ?e = "bsize b - dataStartPos b" and ?z = "blit 0 (replicate bufSize NUL) dest"
  define n where "n = min bytes (getStoredByteCount b)"
  have n: "length dest < n"
    using inv short by (simp add: length_stored_bytes n_def)
  have z: "length ?z = length dest"
    using dest by simp
  have le: "dataStartPos b \<le> bsize b" by (rule I)
  show ?thesis
  proof (cases "?e < n")
    case True
    have "dataStartPos b + ?e \<le> length (bdata b)"
      using I(3) le by linarith
    then obtain s1 where s1: "memread (bdata b) (dataStartPos b) ?e = Inr s1" "length s1 = ?e"
      by (rule memread_ok)
    have "0 + (n - ?e) \<le> length (bdata b)"
      using I(2,3,6) unfolding n_def by linarith
    then obtain s2 where s2: "memread (bdata b) 0 (n - ?e) = Inr s2" "length s2 = n - ?e"
      by (rule memread_ok)
    have "?e + length s2 = n"
      using s2(2) True by simp
    then have "bindO (memcpy_to ?z 0 s1) (\<lambda>d. bindO (memcpy_to d ?e s2) f) = Inl OutOfBounds" for f
        :: "string \<Rightarrow> (nat \<times> string \<times> message_buffer) outcome"
    proof (cases "length s1 \<le> length dest")
      case fits: True
      then have "length (blit 0 s1 ?z) = length dest"
        using z by simp
      with \<open>?e + length s2 = n\<close> n have "memcpy_to (blit 0 s1 ?z) ?e s2 = Inl OutOfBounds"
        by (intro memcpy_to_overflow) linarith
      then show ?thesis
        using fits z by (simp add: memcpy_to_def [of _ 0])
    next
      case False
      then show ?thesis
        using z by (simp add: memcpy_to_overflow)
    qed
    then show ?thesis
      unfolding pull_bytes_def Let_def pull_count n_def [symmetric]
      by (simp only: memset_zero_ok [OF dest] s1 s2 bindO_Inr size_sub_le [OF le] True if_True)
  next
    case False
    then have "dataStartPos b + n \<le> length (bdata b)"
      using I(3) le by linarith
    then obtain s where s: "memread (bdata b) (dataStartPos b) n = Inr s" "length s = n"
      by (rule memread_ok)
    have "memcpy_to ?z 0 s = Inl OutOfBounds"
      using n z s(2) by (simp add: memcpy_to_def)
    then show ?thesis
      using n False unfolding pull_bytes_def Let_def pull_count n_def [symmetric]
      by (simp add: memset_zero_ok [OF dest] s size_sub_le [OF le])
  qed
qed

section \<open>The contract of a byte queue\<close>

text \<open>Sequences of operations: every segment must be accepted; portions are concatenated.\<close>

primrec put_all :: "('s \<Rightarrow> 'a list \<Rightarrow> 's option) \<Rightarrow> 's \<Rightarrow> 'a list list \<Rightarrow> 's option" where
  "put_all put s [] = Some s"
| "put_all put s (c # cs) = (case put s c of None \<Rightarrow> None | Some s' \<Rightarrow> put_all put s' cs)"

primrec get_all :: "('s \<Rightarrow> nat \<Rightarrow> 'a list \<times> 's) \<Rightarrow> 's \<Rightarrow> nat list \<Rightarrow> 'a list" where
  "get_all get s [] = []"
| "get_all get s (n # ns) = (case get s n of (xs, s') \<Rightarrow> xs @ get_all get s' ns)"

text \<open>What the network code relies on: bytes come out in the order they went in.\<close>

locale byte_fifo =
  fixes wf :: "'s \<Rightarrow> bool"
    and bytes :: "'s \<Rightarrow> 'a list"
    and room :: "'s \<Rightarrow> nat"
    and put :: "'s \<Rightarrow> 'a list \<Rightarrow> 's option"
    and get :: "'s \<Rightarrow> nat \<Rightarrow> 'a list \<times> 's"
  assumes put_ok: "wf s \<Longrightarrow> length xs \<le> room s \<Longrightarrow>
      \<exists>s'. put s xs = Some s' \<and> wf s' \<and> bytes s' = bytes s @ xs \<and> room s' = room s - length xs"
    and put_full: "wf s \<Longrightarrow> room s < length xs \<Longrightarrow> put s xs = None"
    and get_ok: "wf s \<Longrightarrow> \<exists>s'. get s n = (take n (bytes s), s') \<and> wf s' \<and> bytes s' = drop n (bytes s)"
begin

lemma put_all_bytes:
  "wf s \<Longrightarrow> length (concat cs) \<le> room s \<Longrightarrow>
     \<exists>s'. put_all put s cs = Some s' \<and> wf s' \<and> bytes s' = bytes s @ concat cs"
proof (induction cs arbitrary: s)
  case (Cons c cs)
  obtain s1 where "put s c = Some s1" "wf s1" "bytes s1 = bytes s @ c" "room s1 = room s - length c"
    using put_ok [OF Cons.prems(1), of c] Cons.prems(2) by auto
  with Cons.IH [of s1] Cons.prems(2) show ?case by auto
qed simp

lemma get_all_bytes: "wf s \<Longrightarrow> get_all get s ns = take (sum_list ns) (bytes s)"
proof (induction ns arbitrary: s)
  case (Cons n ns)
  obtain s1 where s1: "get s n = (take n (bytes s), s1)" "wf s1" "bytes s1 = drop n (bytes s)"
    using get_ok [OF Cons.prems] by blast
  with Cons.IH [OF s1(2)] show ?case by (simp add: take_add)
qed simp

lemma segments_reassemble:
  assumes "wf s" and "length (concat cs) \<le> room s"
  shows "\<exists>s'. put_all put s cs = Some s' \<and> get_all get s' ns = take (sum_list ns) (bytes s @ concat cs)"
  using put_all_bytes [OF assms] get_all_bytes by fastforce

lemma put_all_full: "wf s \<Longrightarrow> room s < length c \<Longrightarrow> put_all put s (c # cs) = None"
  by (simp add: put_full)

end

definition offer :: "message_buffer \<Rightarrow> string \<Rightarrow> message_buffer option" where
  "offer b xs =
     (case push b xs of Inr (n, b') \<Rightarrow> if n = length xs then Some b' else None | Inl _ \<Rightarrow> None)"

definition take_out :: "message_buffer \<Rightarrow> nat \<Rightarrow> string \<times> message_buffer" where
  "take_out b n =
     (case pull_bytes b (replicate n NUL) n n of
        Inr (c, dest, b') \<Rightarrow> (take c dest, b') | Inl _ \<Rightarrow> ([], b))"

lemma offer_accepts:
  assumes "buffer_inv b" and "length xs \<le> getSpaceAvailableByteCount b"
  shows "\<exists>b'. offer b xs = Some b' \<and> buffer_inv b' \<and> stored_bytes b' = stored_bytes b @ xs \<and>
    getSpaceAvailableByteCount b' = getSpaceAvailableByteCount b - length xs"
proof -
  obtain b' where "push b xs = Inr (length xs, b')" "buffer_inv b'"
    "stored_bytes b' = stored_bytes b @ xs" "maxCapacity b' = maxCapacity b"
    using push_appends [OF assms(1), of xs] assms by (auto simp: push_post_def space_available)
  then show ?thesis
    using assms(1) by (simp add: offer_def space_available)
qed

lemma take_out_front:
  assumes "buffer_inv b"
  shows "\<exists>b'. take_out b n = (take n (stored_bytes b), b') \<and> buffer_inv b' \<and>
    stored_bytes b' = drop n (stored_bytes b)"
proof -
  let ?m = "min n (length (stored_bytes b))"
  obtain b' where r: "pull_bytes b (replicate n NUL) n n =
        Inr (?m, blit 0 (take ?m (stored_bytes b)) (blit 0 (replicate n NUL) (replicate n NUL)), b')"
      "buffer_inv b'" "stored_bytes b' = drop ?m (stored_bytes b)"
    using pull_bytes_front [OF assms, of n "replicate n NUL" n] by (auto simp: pull_post_def)
  have "take ?m (blit 0 (take ?m (stored_bytes b)) d) = take n (stored_bytes b)" for d
    by (simp add: blit_def min_def)
  moreover have "drop ?m (stored_bytes b) = drop n (stored_bytes b)"
    by (simp add: min_def)
  ultimately show ?thesis
    using r by (simp add: take_out_def)
qed

interpretation ring: byte_fifo buffer_inv stored_bytes getSpaceAvailableByteCount offer take_out
proof unfold_locales
  show "offer b xs = None" if "buffer_inv b" and "getSpaceAvailableByteCount b < length xs" for b xs
    using that by (auto simp: offer_def push_rejects space_available)
qed (auto intro: offer_accepts take_out_front)

section \<open>Scanning for the delimiter\<close>

text \<open>
  The matcher counts how many characters of the delimiter the last characters matched, and falls
  back to zero on a mismatch. \<open>first_match d m s\<close>: started in state \<open>m\<close> it reports a match at the
  end of \<open>s\<close> and not before.
\<close>

definition match_step :: "string \<Rightarrow> nat \<Rightarrow> char \<Rightarrow> nat" where
  "match_step d m c = (if c = d ! m then m + 1 else 0)"

fun first_match :: "string \<Rightarrow> nat \<Rightarrow> string \<Rightarrow> bool" where
  "first_match d m [] \<longleftrightarrow> m = length d"
| "first_match d m (c # s) \<longleftrightarrow> m \<noteq> length d \<and> first_match d (match_step d m c) s"

lemma first_match_length: "first_match d m s \<Longrightarrow> length d \<le> m + length s"
proof (induction s arbitrary: m)
  case (Cons c s)
  then have "length d \<le> match_step d m c + length s" by simp
  then show ?case by (simp add: match_step_def split: if_splits)
qed simp

lemma ahead_step:
  assumes "prefix (c # s) (ahead d pos)" and "pos \<le> length d" and "d \<noteq> []"
  defines "q \<equiv> if pos = length d then 0 else pos"
  shows "q < length d" and "d ! q = c" and "prefix s (ahead d (q + 1))"
proof -
  show q: "q < length d" using assms by auto
  have "ahead d pos = d ! q # drop (q + 1) d @ (if pos = length d then [] else d)"
    using q assms(2) by (auto simp: ahead_def q_def Cons_nth_drop_Suc)
  then show "d ! q = c" and "prefix s (ahead d (q + 1))"
    using assms(1) by (auto simp: ahead_def prefix_def split: if_splits)
qed

lemma scan_first_match:
  "first_match d m s \<Longrightarrow> prefix s (ahead a pos) \<Longrightarrow> pos \<le> length a \<Longrightarrow> a \<noteq> [] \<Longrightarrow>
     count + length s < bufSize \<Longrightarrow>
     scan_loop a (length a) d bufSize pos m count = Inr (Some (count + length s))"
proof (induction s arbitrary: m pos count)
  case Nil
  then show ?case by (simp add: scan_loop.simps)
next
  case (Cons c s)
  let ?q = "if pos = length a then 0 else pos"
  note step = ahead_step [OF Cons.prems(2-4)]
  have "scan_loop a (length a) d bufSize (?q + 1) (match_step d m c) (count + 1) =
      Inr (Some (count + 1 + length s))"
    by (rule Cons.IH) (use Cons.prems step in auto)
  then show ?case
    using Cons.prems step by (subst scan_loop.simps) (simp add: Let_def match_step_def)
qed

lemma stored_prefix_ahead:
  "prefix (stored_bytes b) (ahead (bdata b) (dataStartPos b))"
  by (simp add: stored_bytes_def take_is_prefix)

lemma pull_delim_first_match:
  assumes inv: "buffer_inv b" and d: "d \<noteq> []" and stored: "stored_bytes b = h @ r"
    and hit: "first_match d 0 h" and fits: "length h < bufSize" "bufSize \<le> length dest"
  shows "pull_post b dest bufSize (length h) (pull_delim b dest bufSize d)"
proof -
  note I = buffer_invD [OF inv]
  have "prefix h (ahead (bdata b) (dataStartPos b))"
    using stored_prefix_ahead [of b] stored by (metis prefixI prefix_order.trans)
  moreover have "bdata b \<noteq> []"
    using I(2,3) by (cases "bdata b") simp_all
  ultimately have scan:
      "scan_loop (bdata b) (bsize b) d bufSize (dataStartPos b) 0 0 = Inr (Some (length h))"
    using scan_first_match [OF hit, of "bdata b" "dataStartPos b" 0 bufSize] I(3,4) fits(1)
    by simp
  have len: "length d \<le> length h" "length h \<le> getStoredByteCount b"
    using first_match_length [OF hit] stored length_stored_bytes [OF inv] by simp_all
  then have "pull_delim b dest bufSize d = pull_bytes b dest bufSize (length h)"
    using d by (simp add: pull_delim_def Let_def scan)
  then show ?thesis
    using pull_bytes_front [OF inv fits(2), of "length h"] len fits stored
    by (simp add: min_def)
qed

text \<open>Where the scan stops, it has just read the delimiter.\<close>

definition cyclic :: "string \<Rightarrow> nat \<Rightarrow> nat \<Rightarrow> string" where
  "cyclic a pos k = map (\<lambda>i. a ! ((pos + i) mod length a)) [0 ..< k]"

lemma scan_found:
  assumes "scan_loop a (length a) d bufSize pos m count = Inr (Some k)"
    and "m \<le> count" and "m \<le> length d" and "a \<noteq> []"
    and "pos \<le> length a" and "pos mod length a = (start + count) mod length a"
    and "suffix (take m d) (cyclic a start count)"
  shows "suffix d (cyclic a start k)"
  using assms
proof (induction a "length a" d bufSize pos m count rule: scan_loop.induct)
  case (1 a d bufSize pos m count)
  show ?case
  proof (cases "m = length d")
    case True
    with 1 show ?thesis by (simp add: scan_loop.simps)
  next
    case False
    let ?q = "if pos = length a then 0 else pos"
    let ?m = "match_step d m (a ! ?q)"
    have q: "?q < length a" "?q = (start + count) mod length a"
      using "1.prems" by (auto split: if_splits)
    have go: "\<not> bufSize \<le> count + 1"
      and rec: "scan_loop a (length a) d bufSize (?q + 1) ?m (count + 1) = Inr (Some k)"
      using "1.prems"(1) False q(1)
      by (subst (asm) scan_loop.simps, simp add: Let_def match_step_def split: if_splits)+
    have "(?q + 1) mod length a = (start + (count + 1)) mod length a"
      unfolding q(2) by (simp add: mod_Suc_eq)
    moreover have "cyclic a start (count + 1) = cyclic a start count @ [a ! ?q]"
      unfolding q(2) by (simp add: cyclic_def)
    then have "suffix (take ?m d) (cyclic a start (count + 1))"
      using "1.prems"(3,7) False by (auto simp: match_step_def take_Suc_conv_app_nth suffix_def)
    moreover have "?m \<le> count + 1" "?m \<le> length d" "?q + 1 \<le> length a"
      using "1.prems" False q(1) by (auto simp: match_step_def)
    ultimately show ?thesis
      using "1.hyps" [OF False refl _ refl refl _] q(1) go rec "1.prems"(4)
      by (simp add: match_step_def)
  qed
qed

section \<open>Header blocks\<close>

text \<open>
  The delimiter of SIP messages and a block of header lines that it ends: non-empty lines without a
  carriage return, each with its line end, and the empty line.
\<close>

definition message_delimiter :: string where
  "message_delimiter = [CR, LF, CR, LF]"

definition header_block :: "string list \<Rightarrow> string" where
  "header_block ls = concat (map (\<lambda>l. l @ CRLF) ls) @ CRLF"

definition header_lines :: "string list \<Rightarrow> bool" where
  "header_lines ls \<longleftrightarrow> ls \<noteq> [] \<and> (\<forall>l \<in> set ls. l \<noteq> [] \<and> CR \<notin> set l)"

lemma match_step_delimiter:
  "match_step message_delimiter 0 c = (if c = CR then 1 else 0)"
  "match_step message_delimiter 1 c = (if c = LF then 2 else 0)"
  "match_step message_delimiter 2 c = (if c = CR then 3 else 0)"
  "match_step message_delimiter 3 c = (if c = LF then 4 else 0)"
  by (simp_all add: match_step_def message_delimiter_def)

lemma length_message_delimiter [simp]: "length message_delimiter = 4"
  by (simp add: message_delimiter_def)

lemma first_match_line:
  "CR \<notin> set l \<Longrightarrow> first_match message_delimiter 0 (l @ CRLF @ s) = first_match message_delimiter 2 s"
  by (induction l) (auto simp: match_step_delimiter [simplified])

lemma first_match_line_after:
  assumes "l \<noteq> []" and "CR \<notin> set l"
  shows "first_match message_delimiter 2 (l @ CRLF @ s) = first_match message_delimiter 2 s"
proof (cases l)
  case (Cons c l')
  then show ?thesis
    using assms first_match_line [of l' s] by (auto simp: match_step_delimiter)
qed (use assms in simp)

lemma first_match_lines:
  "\<forall>l \<in> set ls. l \<noteq> [] \<and> CR \<notin> set l \<Longrightarrow>
     first_match message_delimiter 2 (concat (map (\<lambda>l. l @ CRLF) ls) @ CRLF)"
proof (induction ls)
  case Nil
  then show ?case by (simp add: match_step_delimiter)
next
  case (Cons l ls)
  then show ?case using first_match_line_after [of l] by simp
qed

lemma header_block_first_match:
  assumes "header_lines ls"
  shows "first_match message_delimiter 0 (header_block ls)"
proof (cases ls)
  case (Cons l ls')
  then show ?thesis
    using assms first_match_line [of l] first_match_lines [of ls']
    by (simp add: header_lines_def header_block_def)
qed (use assms in \<open>simp add: header_lines_def\<close>)

lemma ahead_nth:
  assumes "pos \<le> length a" and "i < length a"
  shows "ahead a pos ! i = a ! ((pos + i) mod length a)"
proof (cases "i < length a - pos")
  case True
  then show ?thesis using assms by (simp add: ahead_def nth_append add.commute)
next
  case False
  then have "length a \<le> pos + i" and "pos + i < 2 * length a"
    using assms by linarith+
  then have "(pos + i) mod length a = pos + i - length a"
    by (subst le_mod_geq) simp_all
  also have "\<dots> = i - (length a - pos)"
    using assms by linarith
  finally have "(pos + i) mod length a = i - (length a - pos)" .
  then show ?thesis using False assms by (simp add: ahead_def nth_append)
qed

lemma cyclic_stored:
  assumes "buffer_inv b" and "k \<le> length (stored_bytes b)"
  shows "cyclic (bdata b) (dataStartPos b) k = take k (stored_bytes b)"
proof (rule nth_equalityI)
  note I = buffer_invD [OF assms(1)]
  show "length (cyclic (bdata b) (dataStartPos b) k) = length (take k (stored_bytes b))"
    using assms(2) by (simp add: cyclic_def)
  fix i assume "i < length (cyclic (bdata b) (dataStartPos b) k)"
  then have i: "i < k" by (simp add: cyclic_def)
  moreover have "i < bsize b"
    using i assms(2) I by (simp add: length_stored_bytes [OF assms(1)])
  moreover have "i < getStoredByteCount b"
    using i assms(2) by (simp add: length_stored_bytes [OF assms(1)])
  ultimately have "i < getStoredByteCount b \<and> ahead (bdata b) (dataStartPos b) ! i =
      bdata b ! ((dataStartPos b + i) mod length (bdata b))"
    using I(3,4) by (simp add: ahead_nth)
  then show "cyclic (bdata b) (dataStartPos b) k ! i = take k (stored_bytes b) ! i"
    using i assms(2) I(6) by (simp add: cyclic_def stored_bytes_def)
qed

section \<open>Properties\<close>

text \<open>
  C16: a push that fits appends the bytes to the stored sequence and keeps the invariant, wherever the
  data lies in the ring; a push that does not fit is refused and changes nothing.
\<close>

theorem push_appends_or_refuses:
  assumes "buffer_inv b"
  shows "if length src \<le> maxCapacity b - length (stored_bytes b)
    then (case push b src of
            Inr (n, b') \<Rightarrow> n = length src \<and> buffer_inv b' \<and> stored_bytes b' = stored_bytes b @ src
          | Inl _ \<Rightarrow> False)
    else push b src = Inr (0, b)"
proof (cases "length src \<le> maxCapacity b - length (stored_bytes b)")
  case True
  then show ?thesis using push_appends [OF assms True] by (auto simp: push_post_def)
next
  case False
  then show ?thesis using push_rejects [OF assms, of src] by simp
qed

definition wrapped_buffer :: message_buffer where
  "wrapped_buffer = \<lparr>bsize = 5, maxCapacity = 4, dataStartPos = 3, dataEndPos = 4, bdata = ''uvwxy''\<rparr>"

lemma wrapped_buffer_inv: "buffer_inv wrapped_buffer"
  by (simp add: wrapped_buffer_def buffer_inv_def getStoredByteCount_def)

theorem push_appends_or_refuses_witness:
  "if length ''abc'' \<le> maxCapacity wrapped_buffer - length (stored_bytes wrapped_buffer)
    then (case push wrapped_buffer ''abc'' of
            Inr (n, b') \<Rightarrow> n = length ''abc'' \<and> buffer_inv b' \<and>
              stored_bytes b' = stored_bytes wrapped_buffer @ ''abc''
          | Inl _ \<Rightarrow> False)
    else push wrapped_buffer ''abc'' = Inr (0, wrapped_buffer)"
  by (rule push_appends_or_refuses) (rule wrapped_buffer_inv)

text \<open>
  C6: however the sender's bytes were cut into segments, and in whatever portions they are taken out,
  the portions concatenated are a prefix of what was stored followed by the segments.
\<close>

theorem segmentation_is_invisible:
  assumes "buffer_inv b" and "length (concat segments) \<le> getSpaceAvailableByteCount b"
  shows "\<exists>b'. put_all offer b segments = Some b' \<and>
    get_all take_out b' portions = take (sum_list portions) (stored_bytes b @ concat segments)"
  by (rule ring.segments_reassemble) (rule assms)+

theorem segmentation_is_invisible_witness:
  "\<exists>b'. put_all offer wrapped_buffer [''a'', ''bc''] = Some b' \<and>
    get_all take_out b' [2, 2] = take (sum_list [2, 2]) (stored_bytes wrapped_buffer @ concat [''a'', ''bc''])"
  by (rule segmentation_is_invisible)
    (simp_all add: wrapped_buffer_inv, simp add: wrapped_buffer_def getSpaceAvailableByteCount_def
      getStoredByteCount_def)

text \<open>
  C15: when a complete block of SIP header lines is at the front of the buffer and is shorter than the
  caller's buffer, pulling with the SIP delimiter gives exactly that block, zero padded, and leaves
  exactly the bytes behind it, which are the body and later messages.
\<close>

theorem header_block_is_pulled:
  assumes "buffer_inv b" and "header_lines ls" and "stored_bytes b = header_block ls @ rest"
    and "length (header_block ls) < bufSize" and "length dest = bufSize"
  shows "case pull_delim b dest bufSize message_delimiter of
      Inl _ \<Rightarrow> False
    | Inr (n, buf, b') \<Rightarrow> n = length (header_block ls) \<and> take n buf = header_block ls \<and>
        set (drop n buf) \<subseteq> {NUL} \<and> buffer_inv b' \<and> stored_bytes b' = rest"
proof -
  have "message_delimiter \<noteq> []" by (simp add: message_delimiter_def)
  from pull_delim_first_match [OF assms(1) this assms(3) header_block_first_match [OF assms(2)]
      assms(4), of dest]
  show ?thesis
    using assms(3,5) by (auto simp: pull_post_def blit_def)
qed

definition small_message_buffer :: message_buffer where
  "small_message_buffer =
     \<lparr>bsize = 17, maxCapacity = 16, dataStartPos = 0, dataEndPos = 11,
      bdata = ''A: 1'' @ CRLF @ CRLF @ ''xyz'' @ ''------''\<rparr>"

theorem header_block_is_pulled_witness:
  "case pull_delim small_message_buffer (replicate 16 NUL) 16 message_delimiter of
      Inl _ \<Rightarrow> False
    | Inr (n, buf, b') \<Rightarrow> n = length (header_block [''A: 1'']) \<and> take n buf = header_block [''A: 1''] \<and>
        set (drop n buf) \<subseteq> {NUL} \<and> buffer_inv b' \<and> stored_bytes b' = ''xyz''"
  by (rule header_block_is_pulled)
    (simp_all add: small_message_buffer_def buffer_inv_def getStoredByteCount_def header_lines_def
      header_block_def stored_bytes_def ahead_def)

text \<open>
  C33: \<^verbatim>\<open>pull(buf, bufSize, bytes)\<close> writes past the caller's buffer exactly when more bytes are asked
  for and stored than the buffer holds: \<^verbatim>\<open>bufSize\<close> only bounds the clearing. (The network code asks for
  the pending content length with a buffer of 1024 bytes.)
\<close>

theorem pull_overflows_iff:
  assumes "buffer_inv b" and "length dest = bufSize"
  shows "pull_bytes b dest bufSize bytes = Inl OutOfBounds \<longleftrightarrow>
    bufSize < min bytes (length (stored_bytes b))"
proof (cases "bufSize < min bytes (length (stored_bytes b))")
  case True
  then show ?thesis using pull_bytes_overflow [OF assms(1)] assms(2) by simp
next
  case False
  then have "pull_post b dest bufSize (min bytes (length (stored_bytes b)))
      (pull_bytes b dest bufSize bytes)"
    using pull_bytes_front [OF assms(1)] assms(2) by (metis linorder_not_less order_refl)
  with False show ?thesis by (auto simp: pull_post_def)
qed

theorem pull_overflows_iff_witness:
  "pull_bytes small_message_buffer ''????'' 4 9 = Inl OutOfBounds \<longleftrightarrow>
    4 < min 9 (length (stored_bytes small_message_buffer))"
  by (rule pull_overflows_iff)
    (simp_all add: small_message_buffer_def buffer_inv_def getStoredByteCount_def)

text \<open>
  When the scan reports a message of \<open>n\<close> bytes, either those bytes were stored and end with the
  delimiter, or \<open>n\<close> exceeds what is stored and the scan has run into old bytes of the array.
\<close>

theorem scan_result_ends_with_delimiter:
  assumes "buffer_inv b"
    and "scan_loop (bdata b) (bsize b) delimiter bufSize (dataStartPos b) 0 0 = Inr (Some n)"
    and "n \<le> length (stored_bytes b)"
  shows "suffix delimiter (take n (stored_bytes b))"
proof -
  note I = buffer_invD [OF assms(1)]
  have "bdata b \<noteq> []"
    using I(2,3) by (cases "bdata b") simp_all
  then have "suffix delimiter (cyclic (bdata b) (dataStartPos b) n)"
    using assms(2) I(3,4) by (intro scan_found [of _ _ bufSize "dataStartPos b" 0 0 n]) (simp_all add: cyclic_def)
  then show ?thesis
    by (simp add: cyclic_stored [OF assms(1,3)])
qed

theorem scan_result_ends_with_delimiter_witness:
  "suffix message_delimiter (take 8 (stored_bytes small_message_buffer))"
proof (rule scan_result_ends_with_delimiter)
  show "scan_loop (bdata small_message_buffer) (bsize small_message_buffer) message_delimiter 16
      (dataStartPos small_message_buffer) 0 0 = Inr (Some 8)"
    by (simp add: small_message_buffer_def message_delimiter_def scan_loop.simps)
qed (simp_all add: small_message_buffer_def buffer_inv_def getStoredByteCount_def stored_bytes_def
    ahead_def)

section \<open>Where the buffer goes wrong\<close>

text \<open>
  Four bytes without a delimiter are handed out as a message, because the scan runs on into the
  bytes that a flushed message left in the array.
\<close>

theorem stale_delimiter_is_matched:
  "let b0 = new_message_buffer 16 (replicate 17 (CHR ''-''))
   in case push b0 (''abcd'' @ message_delimiter) of
        Inr (_, b1) \<Rightarrow> (case push (snd (flush b1)) ''wxyz'' of
            Inr (_, b2) \<Rightarrow> (case pull_delim b2 (replicate 12 NUL) 12 message_delimiter of
                Inr (n, buf, _) \<Rightarrow> n = 4 \<and> take n buf = ''wxyz''
              | Inl _ \<Rightarrow> False)
          | Inl _ \<Rightarrow> False)
      | Inl _ \<Rightarrow> False"
  by (simp add: new_message_buffer_def push_def pull_delim_def pull_bytes_def flush_def Let_def
      getSpaceAvailableByteCount_def getStoredByteCount_def memcpy_to_def memread_def memset_zero_def
      blit_def message_delimiter_def scan_loop.simps)

text \<open>
  Taking the last stored character at the end of the array moves the start to zero but not the
  end, so an empty buffer claims a full array of stored bytes, more than its capacity.
\<close>

theorem getchar_breaks_invariant:
  "let b = \<lparr>bsize = 4, maxCapacity = 3, dataStartPos = 3, dataEndPos = 4, bdata = ''abcd''\<rparr>
   in buffer_inv b \<and> stored_bytes b = ''d'' \<and>
      (case getchar b of Inr (c, b') \<Rightarrow> c = CHR ''d'' \<and> getStoredByteCount b' = 4 \<and> \<not> buffer_inv b'
       | Inl _ \<Rightarrow> False)"
  by (simp add: getchar_def Let_def getStoredByteCount_def memread_def buffer_inv_def
      stored_bytes_def ahead_def)

text \<open>
  putting a character back works when the start position is positive; at position zero, where
  every new or flushed buffer has it, the character is written one byte past the array.
\<close>

theorem putchar_prepends_or_overflows:
  assumes "buffer_inv b" and "length (stored_bytes b) < maxCapacity b"
  shows "if dataStartPos b = 0 then putchar b c = Inl OutOfBounds
    else (case putchar b c of
            Inr (ok, b') \<Rightarrow> ok \<and> buffer_inv b' \<and> stored_bytes b' = c # stored_bytes b
          | Inl _ \<Rightarrow> False)"
proof -
  note I = buffer_invD [OF assms(1)]
  have space: "getSpaceAvailableByteCount b \<noteq> 0"
    using assms by (simp add: space_available)
  show ?thesis
  proof (cases "dataStartPos b")
    case 0
    have "size_sub 0 1 = 2 ^ 64 - 1" by (simp add: size_sub_def)
    then have "bsize b \<le> size_sub 0 1" using I(7) by linarith
    then show ?thesis
      using space 0 I(3) by (simp add: putchar_def memcpy_to_def)
  next
    case (Suc s)
    let ?b = "b\<lparr>bdata := blit s [c] (bdata b), dataStartPos := s\<rparr>"
    have s: "s < bsize b" using Suc I(4) by simp
    have cap: "getStoredByteCount b < maxCapacity b"
      using assms(2) length_stored_bytes [OF assms(1)] by simp
    have r: "putchar b c = Inr (True, ?b)"
      using space Suc s I(3) by (simp add: putchar_def memcpy_to_def)
    have n: "getStoredByteCount ?b = Suc (getStoredByteCount b)"
      using I(2,4,5,7) Suc cap by (auto simp: stored_count)
    then have inv': "buffer_inv ?b"
      using I s cap by (simp add: buffer_inv_def)
    have "ahead (blit s [c] (bdata b)) s = c # drop (Suc s) (bdata b) @ blit s [c] (bdata b)"
      using s I(3) by (simp add: ahead_def blit_def)
    moreover have "take (getStoredByteCount b) (drop (Suc s) (bdata b) @ blit s [c] (bdata b)) = stored_bytes b"
    proof -
      have "getStoredByteCount b - (bsize b - Suc s) \<le> s"
        using I(4,6) I(2) Suc by linarith
      then show ?thesis
        using I(3) s Suc by (simp add: stored_bytes_def ahead_def take_le_blit)
    qed
    ultimately have "stored_bytes ?b = c # stored_bytes b"
      unfolding stored_bytes_def n by (simp add: stored_bytes_def)
    with r inv' Suc show ?thesis by simp
  qed
qed

theorem putchar_prepends_or_overflows_witness:
  "if dataStartPos wrapped_buffer = 0 then putchar wrapped_buffer (CHR ''p'') = Inl OutOfBounds
    else (case putchar wrapped_buffer (CHR ''p'') of
            Inr (ok, b') \<Rightarrow> ok \<and> buffer_inv b' \<and> stored_bytes b' = CHR ''p'' # stored_bytes wrapped_buffer
          | Inl _ \<Rightarrow> False)"
  by (rule putchar_prepends_or_overflows)
    (simp_all add: wrapped_buffer_inv, simp add: wrapped_buffer_def stored_bytes_def ahead_def getStoredByteCount_def)

end
