(* ===== verification/SipMessage.thy ===== *)
theory SipMessage
  imports StdMap SipHeaders MessageBuffer
begin

text \<open>
  Model of \<^verbatim>\<open>src/src/components/sip/messages/\<close>: the message record, the builder that makes a request
  from the normalised header text, the accessors, and the response texts. Accessors that use
  \<^verbatim>\<open>operator[]\<close> on the header map insert a null pointer for an absent header, so they return the
  changed message too; \<^verbatim>\<open>getHeaders\<close> and \<^verbatim>\<open>getResponseViaContent\<close> dereference such entries. A C-style
  cast of a stored header to a class it does not have is \<^term>\<open>Inl BadCast\<close>. The builder logs through a
  logger it looks up; the logger of the message object itself is set by no constructor that is used (the
  one \<^verbatim>\<open>SipRequest\<close> sets is a member of its own with the same name), so that the constructor of
  \<^verbatim>\<open>SipMessage\<close> and the accessors that log call \<open>nl\<close>.
\<close>

section \<open>Message types\<close>

datatype message_type =
  M_UNKNOWN | M_INVITE | M_ACK | M_BYE | M_CANCEL | M_OPTIONS | M_REGISTER | M_PRACK
  | M_SUBSCRIBE | M_NOTIFY | M_PUBLISH | M_INFO | M_REFER | M_MESSAGE | M_UPDATE | M_TRYING
  | M_PROGRESS | M_RINGING | M_OK | M_SERVICE_UNAVAILABLE

definition getTypeStr :: "message_type \<Rightarrow> string" where
  "getTypeStr t = (case t of
     M_UNKNOWN \<Rightarrow> ''UNKNOWN''
     | M_INVITE \<Rightarrow> ''INVITE''
     | M_ACK \<Rightarrow> ''ACK''
     | M_BYE \<Rightarrow> ''BYE''
     | M_CANCEL \<Rightarrow> ''CANCEL''
     | M_OPTIONS \<Rightarrow> ''OPTIONS''
     | M_REGISTER \<Rightarrow> ''REGISTER''
     | M_PRACK \<Rightarrow> ''PRACK''
     | M_SUBSCRIBE \<Rightarrow> ''SUBSCRIBE''
     | M_NOTIFY \<Rightarrow> ''NOTIFY''
     | M_PUBLISH \<Rightarrow> ''PUBLISH''
     | M_INFO \<Rightarrow> ''INFO''
     | M_REFER \<Rightarrow> ''REFER''
     | M_MESSAGE \<Rightarrow> ''MESSAGE''
     | M_UPDATE \<Rightarrow> ''UPDATE''
     | M_TRYING \<Rightarrow> ''PROGRESS''
     | M_PROGRESS \<Rightarrow> ''PROGRESS''
     | M_RINGING \<Rightarrow> ''RINGING''
     | M_OK \<Rightarrow> ''OK''
     | M_SERVICE_UNAVAILABLE \<Rightarrow> ''SERVICE_UNAVAILABLE'')"

record sip_message =
  requestType :: message_type
  requestMethod :: string
  isSupported :: bool
  isRequest :: bool
  propertiesLine :: mapped_buffer
  msgHeaders :: "(string, sip_header option) std_map"
  msgBodies :: "(body_type, string) std_map"
  msgChannelId :: "u32 option"
  reinviteFlag :: "bool option"

section \<open>Constructors\<close>

text \<open>The members a request object is made with; the constructor sets them and then logs.\<close>

definition request_object :: "message_type \<Rightarrow> string \<Rightarrow> bool \<Rightarrow> mapped_buffer \<Rightarrow>
    (string, sip_header option) std_map \<Rightarrow> (body_type, string) std_map \<Rightarrow> sip_message" where
  "request_object t method isSup props hs bs =
     \<lparr>requestType = t, requestMethod = method, isSupported = isSup, isRequest = True,
      propertiesLine = props, msgHeaders = hs, msgBodies = bs, msgChannelId = None,
      reinviteFlag = None\<rparr>"

definition SipRequest :: "logging \<Rightarrow> message_type \<Rightarrow> string \<Rightarrow> bool \<Rightarrow> mapped_buffer \<Rightarrow>
    (string, sip_header option) std_map \<Rightarrow> (body_type, string) std_map \<Rightarrow> sip_message outcome" where
  "SipRequest nl t method isSup props hs bs = bindO nl (\<lambda>_. Inr (request_object t method isSup props hs bs))"

definition SipInviteRequest :: "logging \<Rightarrow> mapped_buffer \<Rightarrow> (string, sip_header option) std_map \<Rightarrow>
    (body_type, string) std_map \<Rightarrow> sip_message outcome" where
  "SipInviteRequest nl props hs bs = SipRequest nl M_INVITE ''INVITE'' False props hs bs"

definition SipAckRequest :: "logging \<Rightarrow> mapped_buffer \<Rightarrow> (string, sip_header option) std_map \<Rightarrow> sip_message outcome" where
  "SipAckRequest nl props hs = SipRequest nl M_ACK ''ACK'' False props hs []"

definition SipByeRequest :: "logging \<Rightarrow> mapped_buffer \<Rightarrow> (string, sip_header option) std_map \<Rightarrow> sip_message outcome" where
  "SipByeRequest nl props hs = SipRequest nl M_BYE ''BYE'' False props hs []"

definition SipCancelRequest :: "logging \<Rightarrow> mapped_buffer \<Rightarrow> (string, sip_header option) std_map \<Rightarrow> sip_message outcome" where
  "SipCancelRequest nl props hs = SipRequest nl M_REGISTER ''BYE'' False props hs []"

definition SipOptionsRequest :: "logging \<Rightarrow> mapped_buffer \<Rightarrow> (string, sip_header option) std_map \<Rightarrow> sip_message outcome" where
  "SipOptionsRequest nl props hs = SipRequest nl M_OPTIONS ''OPTIONS'' False props hs []"

definition SipSubscribeRequest :: "logging \<Rightarrow> mapped_buffer \<Rightarrow> (string, sip_header option) std_map \<Rightarrow> sip_message outcome" where
  "SipSubscribeRequest nl props hs = SipRequest nl M_SUBSCRIBE ''SUBSCRIBE'' True props hs []"

definition SipUnknownRequest :: "logging \<Rightarrow> mapped_buffer \<Rightarrow> (string, sip_header option) std_map \<Rightarrow> sip_message outcome" where
  "SipUnknownRequest nl props hs = SipRequest nl M_UNKNOWN ''UNKNOWN'' False props hs []"

section \<open>Building a request from its text\<close>

record normalised_sip_message_data =
  message :: string
  dataBodies :: "(body_type, string) std_map"

definition via_of :: "sip_header \<Rightarrow> via_header outcome" where
  "via_of h = (case headerExt h of Ext_Via via \<Rightarrow> Inr via | _ \<Rightarrow> Inl BadCast)"

text \<open>A Via header is made and its transport read, which a value of the wrong form leaves unset.\<close>

definition via_entry :: "mapped_buffer \<Rightarrow> sip_header outcome" where
  "via_entry v = bindO (SipViaHeader v) (\<lambda>h. bindO (via_of h) (\<lambda>via.
     bindO (initialised (transportType via)) (\<lambda>_. Inr h)))"

definition add_header :: "mapped_buffer \<Rightarrow> mapped_buffer \<Rightarrow> (string, sip_header option) std_map \<Rightarrow>
    (string, sip_header option) std_map outcome" where
  "add_header name v hs =
     (if buffer_equals name ''VIA'' False then
        bindO (via_entry v) (\<lambda>h. Inr (std_put ''VIA'' (Some h) hs))
      else if buffer_equals name ''FROM'' False then Inr (std_put ''FROM'' (Some (SipFromHeader v)) hs)
      else if buffer_equals name ''TO'' False then Inr (std_put ''TO'' (Some (SipToHeader v)) hs)
      else if buffer_equals name ''CALL-ID'' False then
        Inr (std_put ''CALL-ID'' (Some (SipCallIdHeader v)) hs)
      else if buffer_equals name ''CSEQ'' False then Inr (std_put ''CSEQ'' (Some (SipCSeqHeader v)) hs)
      else if buffer_equals name ''CONTENT-LENGTH'' False then
        Inr (std_put ''CONTENT-LENGTH'' (Some (SipContentLengthHeader v)) hs)
      else if buffer_equals name ''CONTENT-TYPE'' False then
        Inr (std_put ''CONTENT-TYPE'' (Some (SipContentTypeHeader v)) hs)
      else if buffer_equals name ''CONTACT'' False then
        Inr (std_put ''CONTACT'' (Some (SipContactHeader v)) hs)
      else if buffer_equals name ''MAX-FORWARDS'' False then
        Inr (std_put ''MAX-FORWARDS'' (Some (SipMaxForwardsHeader v)) hs)
      else if buffer_equals name ''SUBJECT'' False then
        Inr (std_put ''SUBJECT'' (Some (SipSubjectHeader v)) hs)
      else Inr (std_put (c_str (toString name)) (Some (SipExtendedHeader name v)) hs))"

text \<open>
  The loop over the header lines. A line without a colon is only logged, with an entry of the \<open>n\<close> parts of
  the first line at the index \<open>i\<close> of the line.
\<close>

fun add_headers :: "nat \<Rightarrow> nat \<Rightarrow> mapped_buffer list \<Rightarrow> (string, sip_header option) std_map \<Rightarrow>
    (string, sip_header option) std_map outcome" where
  "add_headers n i [] hs = Inr hs"
| "add_headers n i (line # lines) hs =
     (case buffer_split_on_first line (CHR '':'') of
        [] \<Rightarrow> Inl OutOfBounds
      | [name] \<Rightarrow> (if i < n then add_headers n (Suc i) lines hs else Inl OutOfBounds)
      | name # v # _ \<Rightarrow> bindO (add_header name v hs) (add_headers n (Suc i) lines))"

text \<open>
  The builder makes no message of a response (the status codes are only logged; the second part of the
  first line is split for them), of \<^verbatim>\<open>CANCEL\<close> and of every method it does not list. \<open>items\<close> is what follows
  the method in the first line.
\<close>

definition made :: "sip_message outcome \<Rightarrow> sip_message option outcome" where
  "made m = bindO m (\<lambda>m. Inr (Some m))"

definition make_request :: "logging \<Rightarrow> mapped_buffer \<Rightarrow> mapped_buffer list \<Rightarrow>
    (string, sip_header option) std_map \<Rightarrow> (body_type, string) std_map \<Rightarrow> sip_message option outcome" where
  "make_request nl method items hs bs =
     (let props = (case items of [] \<Rightarrow> null_buffer | p # _ \<Rightarrow> p) in
      if buffer_equals method ''SIP'' False then (if items = [] then Inl OutOfBounds else Inr None)
      else if buffer_equals method ''INVITE'' False then made (SipInviteRequest nl props hs bs)
      else if buffer_equals method ''ACK'' False then made (SipAckRequest nl props hs)
      else if buffer_equals method ''BYE'' False then made (SipByeRequest nl props hs)
      else if buffer_equals method ''OPTIONS'' False then made (SipOptionsRequest nl props hs)
      else if buffer_equals method ''SUBSCRIBE'' False then made (SipSubscribeRequest nl props hs)
      else Inr None)"

definition builder :: "logging \<Rightarrow> normalised_sip_message_data \<Rightarrow> sip_message option outcome" where
  "builder nl d =
     (case buffer_split_lines (buffer_of_string (message d)) of
        [] \<Rightarrow> Inr None
      | line # lines \<Rightarrow>
          (case buffer_split_on_first line (CHR '':'') of
             [] \<Rightarrow> Inl OutOfBounds
           | method # items \<Rightarrow>
               bindO (add_headers (Suc (length items)) 1 lines []) (\<lambda>hs.
                 make_request nl method items hs (dataBodies d))))"

section \<open>Bodies\<close>

definition hasBodyOf :: "body_type \<Rightarrow> sip_message \<Rightarrow> bool" where
  "hasBodyOf t m \<longleftrightarrow> map_of (msgBodies m) t \<noteq> None"

definition hasBody :: "sip_message \<Rightarrow> bool" where
  "hasBody m \<longleftrightarrow> length (msgBodies m) > 0"

definition addBody :: "logging \<Rightarrow> body_type \<Rightarrow> string \<Rightarrow> sip_message \<Rightarrow> sip_message outcome" where
  "addBody nl t body m =
     (if hasBodyOf t m then bindO nl (\<lambda>_. Inr m)
      else Inr (m\<lparr>msgBodies := std_put t body (msgBodies m)\<rparr>))"

definition getBodyTypes :: "sip_message \<Rightarrow> body_type list" where
  "getBodyTypes m = map fst (msgBodies m)"

definition getBody :: "body_type \<Rightarrow> sip_message \<Rightarrow> string" where
  "getBody t m = (case map_of (msgBodies m) t of None \<Rightarrow> [] | Some b \<Rightarrow> b)"

definition getBodies :: "sip_message \<Rightarrow> (body_type, string) std_map" where
  "getBodies m = msgBodies m"

section \<open>Headers\<close>

text \<open>\<^verbatim>\<open>headers[key]\<close>: an absent key is inserted with a null pointer.\<close>

definition header_at :: "string \<Rightarrow> sip_message \<Rightarrow> sip_header option \<times> sip_message" where
  "header_at k m =
     (case map_of (msgHeaders m) k of
        Some h \<Rightarrow> (h, m)
      | None \<Rightarrow> (None, m\<lparr>msgHeaders := std_put k None (msgHeaders m)\<rparr>))"

definition header_value_at :: "string \<Rightarrow> sip_message \<Rightarrow> string \<times> sip_message" where
  "header_value_at k m =
     (case header_at k m of
        (Some h, m') \<Rightarrow> (toString (headerValue h), m')
      | (None, m') \<Rightarrow> ([], m'))"

definition getCallId :: "sip_message \<Rightarrow> string \<times> sip_message" where
  "getCallId m = header_value_at ''CALL-ID'' m"

definition getFrom :: "sip_message \<Rightarrow> string \<times> sip_message" where
  "getFrom m = header_value_at ''FROM'' m"

definition getTo :: "sip_message \<Rightarrow> string \<times> sip_message" where
  "getTo m = header_value_at ''TO'' m"

definition getCSequence :: "sip_message \<Rightarrow> string \<times> sip_message" where
  "getCSequence m = header_value_at ''CSEQ'' m"

definition getRemoteAddress :: "sip_message \<Rightarrow> (string \<times> sip_message) outcome" where
  "getRemoteAddress m =
     (case header_at ''VIA'' m of
        (Some h, m') \<Rightarrow> bindO (via_of h) (\<lambda>via. Inr (toString (remoteAddress via), m'))
      | (None, m') \<Rightarrow> Inr ([], m'))"

definition getRemotePort :: "sip_message \<Rightarrow> (int \<times> sip_message) outcome" where
  "getRemotePort m =
     (case header_at ''VIA'' m of
        (Some h, m') \<Rightarrow> bindO (via_of h) (\<lambda>via.
          bindO (initialised (remotePort via)) (\<lambda>p. Inr (p, m')))
      | (None, m') \<Rightarrow> Inr (5060, m'))"

definition getTransportType :: "sip_message \<Rightarrow> (transport_type \<times> sip_message) outcome" where
  "getTransportType m =
     (case header_at ''VIA'' m of
        (Some h, m') \<Rightarrow> bindO (via_of h) (\<lambda>via.
          bindO (initialised (transportType via)) (\<lambda>t. Inr (t, m')))
      | (None, m') \<Rightarrow> Inr (DefaultTransportType, m'))"

definition find_header :: "string \<Rightarrow> sip_message \<Rightarrow> sip_header option outcome" where
  "find_header k m =
     (case map_of (msgHeaders m) k of
        None \<Rightarrow> Inr None | Some None \<Rightarrow> Inl NullDeref | Some (Some h) \<Rightarrow> Inr (Some h))"

definition getResponseViaContent :: "logging \<Rightarrow> sip_message \<Rightarrow> string outcome" where
  "getResponseViaContent nl m = bindO (find_header ''VIA'' m) (\<lambda>r.
     case r of
       None \<Rightarrow> bindO nl (\<lambda>_. Inr [])
     | Some h \<Rightarrow> bindO (bindO (via_of h) getResponseValue) (\<lambda>via. bindO nl (\<lambda>_. Inr via)))"

definition getContentType :: "logging \<Rightarrow> sip_message \<Rightarrow> body_type outcome" where
  "getContentType nl m = bindO (find_header ''CONTENT-TYPE'' m) (\<lambda>r.
     case r of
       None \<Rightarrow> bindO nl (\<lambda>_. Inr Body_NONE)
     | Some h \<Rightarrow> (case headerExt h of Ext_ContentType t \<Rightarrow> Inr t | _ \<Rightarrow> Inl BadCast))"

definition getContentLength :: "logging \<Rightarrow> sip_message \<Rightarrow> int outcome" where
  "getContentLength nl m = bindO (find_header ''CONTENT-LENGTH'' m) (\<lambda>r.
     case r of
       None \<Rightarrow> bindO nl (\<lambda>_. Inr 0)
     | Some h \<Rightarrow> (case headerExt h of Ext_ContentLength n \<Rightarrow> Inr n | _ \<Rightarrow> Inl BadCast))"

fun descriptors :: "(string, sip_header option) std_map \<Rightarrow> (string \<times> string) list outcome" where
  "descriptors [] = Inr []"
| "descriptors ((k, None) # hs) = Inl NullDeref"
| "descriptors ((k, Some h) # hs) = bindO (descriptors hs) (\<lambda>ds. Inr (getDescriptor h # ds))"

definition getHeaders :: "sip_message \<Rightarrow> (string \<times> string) list outcome" where
  "getHeaders m = descriptors (msgHeaders m)"

definition setChannelId :: "u32 \<Rightarrow> sip_message \<Rightarrow> sip_message" where
  "setChannelId c m = m\<lparr>msgChannelId := Some c\<rparr>"

definition getChannelId :: "sip_message \<Rightarrow> u32 outcome" where
  "getChannelId m = initialised (msgChannelId m)"

definition isReinvite :: "bool \<Rightarrow> sip_message \<Rightarrow> sip_message" where
  "isReinvite flag m = m\<lparr>reinviteFlag := Some flag\<rparr>"

section \<open>Responses\<close>

definition buildStandardBaseResponse :: "logging \<Rightarrow> string \<Rightarrow> string \<Rightarrow> sip_message \<Rightarrow> (string \<times> sip_message) outcome" where
  "buildStandardBaseResponse nl method localTag m =
     bindO (getResponseViaContent nl m) (\<lambda>via.
       let (fromField, m) = getFrom m;
           (toField, m) = getTo m;
           (callId, m) = getCallId m;
           (cseq, m) = getCSequence m
       in Inr (''SIP/2.0 '' @ method @ CRLF @
               ''Via: '' @ via @ CRLF @
               ''From: '' @ fromField @ CRLF @
               ''To: '' @ toField @ '';tag='' @ localTag @ CRLF @
               ''Call-ID: '' @ callId @ CRLF @
               ''CSeq: '' @ cseq @ CRLF @
               ''Contact: '' @ ''<sip:me@192.168.0.4>'' @ CRLF @
               ''User-Agent: '' @ ''Core-0-1'' @ CRLF, m))"

definition buildStandardFullResponse :: "logging \<Rightarrow> string \<Rightarrow> string \<Rightarrow> sip_message \<Rightarrow> (string \<times> sip_message) outcome" where
  "buildStandardFullResponse nl method localTag m =
     bindO (buildStandardBaseResponse nl method localTag m) (\<lambda>(s, m).
       Inr (s @ ''Content-Length: 0'' @ CRLF @ CRLF, m))"

definition buildOkResponse :: "logging \<Rightarrow> string \<Rightarrow> sip_message \<Rightarrow> (string \<times> sip_message) outcome" where
  "buildOkResponse nl localTag m = buildStandardFullResponse nl ''200 OK'' localTag m"

definition buildTryingResponse :: "logging \<Rightarrow> string \<Rightarrow> sip_message \<Rightarrow> (string \<times> sip_message) outcome" where
  "buildTryingResponse nl localTag m = buildStandardFullResponse nl ''100 Trying'' localTag m"

definition buildRingingResponse :: "logging \<Rightarrow> string \<Rightarrow> sip_message \<Rightarrow> (string \<times> sip_message) outcome" where
  "buildRingingResponse nl localTag m = buildStandardFullResponse nl ''180 Ringing'' localTag m"

definition buildAnswerResponse :: "logging \<Rightarrow> string \<Rightarrow> string \<Rightarrow> sip_message \<Rightarrow> (string \<times> sip_message) outcome" where
  "buildAnswerResponse nl localTag sdpAnswer m =
     bindO (buildStandardBaseResponse nl ''200 OK'' localTag m) (\<lambda>(s, m).
       Inr (s @ ''Accept: '' @ ''application/sdp'' @ CRLF @
            ''Allow: '' @ ''INVITE, ACK, BYE, CANCEL, INFO, PRACK, REFER, UPDATE, NOTIFY'' @ CRLF @
            ''Supported: '' @ ''siprec, record-aware'' @ CRLF @
            ''Content-Type: '' @ ''application/sdp'' @ CRLF @
            ''Content-Disposition: '' @ ''session'' @ CRLF @
            ''Content-Length: '' @ show_nat (length sdpAnswer) @ CRLF @
            CRLF @ sdpAnswer, m))"

definition buildServiceUnavailableResponse :: "logging \<Rightarrow> string \<Rightarrow> u32 \<Rightarrow> sip_message \<Rightarrow>
    (string \<times> sip_message) outcome" where
  "buildServiceUnavailableResponse nl localTag retryAfter m =
     bindO (buildStandardBaseResponse nl ''503 Service Unavailable'' localTag m) (\<lambda>(s, m).
       Inr (s @ ''Retry-After: '' @ show_nat (unat retryAfter) @ CRLF @
            ''Content-Length: 0'' @ CRLF @ CRLF, m))"

definition buildMovedTemporarilyResponse :: "logging \<Rightarrow> string \<Rightarrow> string \<Rightarrow> u32 \<Rightarrow> sip_message \<Rightarrow>
    (string \<times> sip_message) outcome" where
  "buildMovedTemporarilyResponse nl localTag alternateAddress expiresAfter m =
     bindO (buildStandardBaseResponse nl ''302 Moved Temporarily'' localTag m) (\<lambda>(s, m).
       Inr (s @ ''Contact: '' @ alternateAddress @ '';expires='' @ show_nat (unat expiresAfter) @ CRLF @
            ''Content-Length: 0'' @ CRLF @ CRLF, m))"

text \<open>The subscription responses lack the closing empty line, and the rejection says \<^verbatim>\<open>200 OK\<close>.\<close>

definition buildSubscriptionAcceptedResponse :: "logging \<Rightarrow> string \<Rightarrow> sip_message \<Rightarrow> (string \<times> sip_message) outcome" where
  "buildSubscriptionAcceptedResponse nl localTag m = buildStandardBaseResponse nl ''200 OK'' localTag m"

definition buildSubscriptionRejectedResponse :: "logging \<Rightarrow> string \<Rightarrow> sip_message \<Rightarrow> (string \<times> sip_message) outcome" where
  "buildSubscriptionRejectedResponse nl localTag m = buildStandardBaseResponse nl ''200 OK'' localTag m"

text \<open>
  The response classes: \<^verbatim>\<open>SipResponse::getMessageBody\<close> prints string members that no code assigns, so
  the fields after From, To, Call-ID and CSeq are empty.
\<close>

definition SipResponse_getMessageBody :: "logging \<Rightarrow> nat \<Rightarrow> string \<Rightarrow> sip_message \<Rightarrow> string outcome" where
  "SipResponse_getMessageBody nl code description m =
     bindO (getResponseViaContent nl m) (\<lambda>via.
     bindO (getContentLength nl m) (\<lambda>n.
       Inr (''SIP/2.0/'' @ getTransportTypeStr DefaultTransportType @ '' '' @ show_nat code @ '' '' @
            description @ CRLF @
            ''Via: '' @ via @ CRLF @ ''From: '' @ [] @ CRLF @ ''To: '' @ [] @ '';tag='' @ [] @ CRLF @
            ''Call-ID: '' @ [] @ CRLF @ ''CSeq: '' @ [] @ CRLF @ ''User-Agent: '' @ ''Core-0-1'' @ CRLF @
            ''Content-Length: '' @ show_int n @ CRLF @ CRLF)))"

definition SipTryingResponse_body :: "logging \<Rightarrow> sip_message \<Rightarrow> string outcome" where
  "SipTryingResponse_body nl m = SipResponse_getMessageBody nl 100 ''Trying'' m"

definition SipOkResponse_body :: "logging \<Rightarrow> sip_message \<Rightarrow> string outcome" where
  "SipOkResponse_body nl m = SipResponse_getMessageBody nl 200 ''OK'' m"

section \<open>What a header line does to the header map\<close>

definition special_names :: "string list" where
  "special_names = [''VIA'', ''FROM'', ''TO'', ''CALL-ID'', ''CSEQ'', ''CONTENT-LENGTH'', ''CONTENT-TYPE'',
     ''CONTACT'', ''MAX-FORWARDS'', ''SUBJECT'']"

definition header_key :: "string \<Rightarrow> string" where
  "header_key n = (if map toupper n \<in> set special_names then map toupper n else c_str n)"

definition make_header :: "string \<Rightarrow> mapped_buffer \<Rightarrow> mapped_buffer \<Rightarrow> sip_header outcome" where
  "make_header k name v =
     (if k = ''VIA'' then via_entry v
      else if k = ''FROM'' then Inr (SipFromHeader v)
      else if k = ''TO'' then Inr (SipToHeader v)
      else if k = ''CALL-ID'' then Inr (SipCallIdHeader v)
      else if k = ''CSEQ'' then Inr (SipCSeqHeader v)
      else if k = ''CONTENT-LENGTH'' then Inr (SipContentLengthHeader v)
      else if k = ''CONTENT-TYPE'' then Inr (SipContentTypeHeader v)
      else if k = ''CONTACT'' then Inr (SipContactHeader v)
      else if k = ''MAX-FORWARDS'' then Inr (SipMaxForwardsHeader v)
      else if k = ''SUBJECT'' then Inr (SipSubjectHeader v)
      else Inr (SipExtendedHeader name v))"

lemma toupper_special_names:
  "map toupper ''VIA'' = ''VIA''" "map toupper ''FROM'' = ''FROM''" "map toupper ''TO'' = ''TO''"
  "map toupper ''CALL-ID'' = ''CALL-ID''" "map toupper ''CSEQ'' = ''CSEQ''"
  "map toupper ''CONTENT-LENGTH'' = ''CONTENT-LENGTH''"
  "map toupper ''CONTENT-TYPE'' = ''CONTENT-TYPE''" "map toupper ''CONTACT'' = ''CONTACT''"
  "map toupper ''MAX-FORWARDS'' = ''MAX-FORWARDS''" "map toupper ''SUBJECT'' = ''SUBJECT''"
  by (simp_all add: ctype_defs)

lemma equals_upper:
  assumes "view_wf name" and "NUL \<notin> set s" and "map toupper s = s"
  shows "buffer_equals name s False \<longleftrightarrow> map toupper (toString name) = s"
  using assms by (simp add: buffer_equals_iff fold_case_def)

lemma add_header_eq:
  assumes "view_wf name" and "NUL \<notin> set (toString name)"
  shows "add_header name v hs =
    bindO (make_header (header_key (toString name)) name v) (\<lambda>h.
      Inr (std_put (header_key (toString name)) (Some h) hs))"
proof -
  define u where "u = map toupper (toString name)"
  have eq: "buffer_equals name s False \<longleftrightarrow> u = s" if "s \<in> set special_names" for s
    using that toupper_special_names unfolding u_def special_names_def
    by (intro equals_upper [OF assms(1)]) auto
  have add: "add_header name v hs =
    (if u \<in> set special_names then bindO (make_header u name v) (\<lambda>h. Inr (std_put u (Some h) hs))
     else Inr (std_put (toString name) (Some (SipExtendedHeader name v)) hs))"
    unfolding add_header_def make_header_def using eq c_str_id [OF assms(2)]
    by (simp add: special_names_def split del: if_split cong: if_cong)
      (simp split: if_split)
  show ?thesis
  proof (cases "u \<in> set special_names")
    case True
    then show ?thesis by (simp add: add header_key_def u_def)
  next
    case False
    then have "toString name \<notin> set special_names"
      using toupper_special_names by (auto simp: special_names_def u_def)
    then have "make_header (toString name) name v = Inr (SipExtendedHeader name v)"
      by (simp add: make_header_def special_names_def)
    with False show ?thesis
      by (simp add: add header_key_def u_def [symmetric] c_str_id [OF assms(2)])
  qed
qed

lemma make_header_value:
  assumes "make_header k name v = Inr h"
  shows "headerValue h = v"
  using assms
  by (auto simp: make_header_def via_entry_def SipViaHeader_def bindO_eq_Inr_iff plain_header_def SipFromHeader_def
      SipToHeader_def SipCallIdHeader_def SipCSeqHeader_def SipContentLengthHeader_def
      SipContentTypeHeader_def SipContactHeader_def SipMaxForwardsHeader_def SipSubjectHeader_def
      SipExtendedHeader_def split: if_splits)

text \<open>
  The headers whose members other code reads through a cast have the class the cast assumes, and a
  content length written in decimal is the number it denotes.
\<close>

definition header_fits :: "string \<Rightarrow> sip_header \<Rightarrow> bool" where
  "header_fits k h \<longleftrightarrow>
     (k = ''VIA'' \<longrightarrow> (\<exists>via. headerExt h = Ext_Via via \<and>
        (usual_via (toString (headerValue h)) \<longrightarrow> via_usable via))) \<and>
     (k = ''CONTENT-LENGTH'' \<longrightarrow> (\<exists>n. headerExt h = Ext_ContentLength n \<and>
        (\<forall>j < 2 ^ 31. toString (headerValue h) = show_nat j \<longrightarrow> n = int j))) \<and>
     (k = ''CONTENT-TYPE'' \<longrightarrow>
        headerExt h = Ext_ContentType (content_type_of (buffer_of_string (toString (headerValue h)))))"

lemma content_length_read:
  assumes "view_wf v" and "view_ended v" and "toString v = show_nat j" and "j < 2 ^ 31"
  shows "getIntValue v = int j"
proof -
  have "toLongInteger v = int j"
    by (rule toLongInteger_show_nat [OF assms(1-3)]) (use assms(4) in simp)
  with assms(4) show ?thesis by (simp add: getIntValue_def to_int32_id)
qed

lemma content_type_of_text:
  "view_wf v \<Longrightarrow> content_type_of (buffer_of_string (toString v)) = content_type_of v"
  by (simp add: content_type_of_def buffer_contains_iff)

lemma make_header_fits:
  assumes "make_header k name v = Inr h" and "view_wf v" and "view_ended v"
  shows "header_fits k h"
  using assms(1) content_length_read [OF assms(2,3)] usual_via_parsed [OF assms(2)]
  by (auto simp: header_fits_def make_header_def via_entry_def SipViaHeader_def bindO_eq_Inr_iff plain_header_def
      SipContentLengthHeader_def SipContentTypeHeader_def content_type_of_text [OF assms(2)]
      split: if_splits)

text \<open>The header map as texts; \<open>header_map_ok\<close>: every entry is a real header of the right class.\<close>

definition header_texts :: "(string, sip_header option) std_map \<Rightarrow> string \<Rightarrow> string option" where
  "header_texts hs k = (case map_of hs k of Some (Some h) \<Rightarrow> Some (toString (headerValue h)) | _ \<Rightarrow> None)"

definition header_map_ok :: "(string, sip_header option) std_map \<Rightarrow> bool" where
  "header_map_ok hs \<longleftrightarrow> std_wf hs \<and> (\<forall>k r. map_of hs k = Some r \<longrightarrow> (\<exists>h. r = Some h \<and> header_fits k h))"

lemma add_header_ok:
  assumes "view_wf name" and "NUL \<notin> set (toString name)" and "add_header name v hs = Inr hs'"
    and "header_map_ok hs" and "view_wf v" and "view_ended v"
  shows "header_map_ok hs'"
    and "header_texts hs' = (header_texts hs)(header_key (toString name) \<mapsto> toString v)"
proof -
  obtain h where h: "make_header (header_key (toString name)) name v = Inr h"
      "hs' = std_put (header_key (toString name)) (Some h) hs"
    using assms(3) unfolding add_header_eq [OF assms(1,2)] by (auto simp: bindO_eq_Inr_iff)
  show "header_map_ok hs'"
    using assms(4) make_header_fits [OF h(1) assms(5,6)] h(2)
    by (auto simp: header_map_ok_def sm.wf_put)
  show "header_texts hs' = (header_texts hs)(header_key (toString name) \<mapsto> toString v)"
    using make_header_value [OF h(1)] h(2) by (auto simp: header_texts_def fun_eq_iff)
qed

section \<open>What the builder makes of a header text\<close>

definition header_line :: "string \<times> string \<Rightarrow> string" where
  "header_line h = fst h @ CHR '':'' # snd h"

definition good_header :: "string \<times> string \<Rightarrow> bool" where
  "good_header h \<longleftrightarrow> fst h \<noteq> [] \<and> NUL \<notin> set (fst h) \<and> CHR '':'' \<notin> set (fst h) \<and>
     CR \<notin> set (header_line h) \<and> LF \<notin> set (header_line h)"

definition normalised_text :: "(string \<times> string) list \<Rightarrow> string" where
  "normalised_text hs = concat (map (\<lambda>h. header_line h @ CRLF) hs)"

definition value_map :: "(string \<times> string) list \<Rightarrow> (string \<Rightarrow> string option) \<Rightarrow> string \<Rightarrow> string option" where
  "value_map hs M = fold (\<lambda>(n, v) M. M(header_key n \<mapsto> v)) hs M"

lemma value_map_simps [simp]:
  "value_map [] M = M" "value_map (h # hs) M = value_map hs (M(header_key (fst h) \<mapsto> snd h))"
  by (simp_all add: value_map_def split_def)

lemma split_header_line:
  assumes "view_wf l" and "view_ended l" and "toString l = header_line h" and "good_header h"
  obtains name v where "buffer_split_on_first l (CHR '':'') = [name, v]"
    and "view_wf name" and "view_wf v" and "view_ended v"
    and "toString name = fst h" and "toString v = snd h"
proof -
  have "CHR '':'' \<in> set (toString l)"
    using assms(3) by (simp add: header_line_def)
  then obtain t s where ts: "toString l = t @ CHR '':'' # s" "CHR '':'' \<notin> set t"
      "map toString (buffer_split_on_first l (CHR '':'')) = [t, s]"
      "\<forall>v \<in> set (buffer_split_on_first l (CHR '':'')). view_wf v"
      "view_ended (buffer_split_on_first l (CHR '':'') ! 1)"
    using buffer_split_on_first_text [OF assms(1)] assms(2) by metis
  have "CHR '':'' \<notin> set (fst h)"
    using assms(4) by (simp add: good_header_def)
  then have "t = fst h" "s = snd h"
    using ts(1,2) assms(3) split_first_unique [of "CHR '':''" t "fst h" s "snd h"]
    by (auto simp: header_line_def)
  moreover obtain name v where "buffer_split_on_first l (CHR '':'') = [name, v]"
    using ts(3) by (auto simp: map_eq_Cons_conv)
  ultimately show thesis
    using that ts(3-5) by simp
qed

lemma add_headers_ok:
  assumes "\<forall>l \<in> set ls. line_view l" and "map toString ls = map header_line hs"
    and "\<forall>h \<in> set hs. good_header h" and "add_headers n i ls m = Inr m'" and "header_map_ok m"
  shows "header_map_ok m' \<and> header_texts m' = value_map hs (header_texts m)"
  using assms
proof (induction ls arbitrary: i hs m)
  case Nil
  then show ?case by simp
next
  case (Cons l ls)
  then obtain h hs' where hs: "hs = h # hs'" "toString l = header_line h"
      "map toString ls = map header_line hs'"
    by (cases hs) auto
  have "view_wf l" "view_ended l" "good_header h"
    using Cons.prems(1,3) hs(1) by (simp_all add: line_view_def)
  then obtain name v where nv: "buffer_split_on_first l (CHR '':'') = [name, v]"
      "view_wf name" "view_wf v" "view_ended v" "toString name = fst h" "toString v = snd h"
    by (rule split_header_line [OF _ _ hs(2)])
  then obtain m1 where m1: "add_header name v m = Inr m1" "add_headers n (Suc i) ls m1 = Inr m'"
    using Cons.prems(4) by (auto simp: bindO_eq_Inr_iff)
  have "NUL \<notin> set (toString name)"
    using \<open>good_header h\<close> nv(5) by (simp add: good_header_def)
  from add_header_ok [OF nv(2) this m1(1) Cons.prems(5) nv(3,4)]
  have "header_map_ok m1" "header_texts m1 = (header_texts m)(header_key (fst h) \<mapsto> snd h)"
    by (simp_all add: nv)
  moreover have "header_map_ok m' \<and> header_texts m' = value_map hs' (header_texts m1)"
    using Cons.prems(1,3) hs(1) calculation(1) by (intro Cons.IH [OF _ hs(3) _ m1(2)]) simp_all
  ultimately show ?case
    unfolding hs(1) value_map_simps by (simp only: simp_thms)
qed

lemma tokens_normalised:
  assumes "\<forall>h \<in> set hs. good_header h"
  shows "tokens (\<lambda>c. c = CR \<or> c = LF) (normalised_text hs) = map header_line hs"
  using assms
proof (induction hs)
  case (Cons h hs)
  then have "header_line h \<noteq> []" "\<forall>c \<in> set (header_line h). \<not> (c = CR \<or> c = LF)"
    by (auto simp: good_header_def header_line_def)
  then show ?case
    using Cons tokens_word [of "header_line h" "\<lambda>c. c = CR \<or> c = LF" CR "LF # normalised_text hs"]
    by (simp add: normalised_text_def)
qed (simp add: normalised_text_def)

lemma builder_lines:
  assumes "\<forall>h \<in> set hs. good_header h"
  shows "map toString (buffer_split_lines (buffer_of_string (normalised_text hs))) = map header_line hs"
    and "\<forall>l \<in> set (buffer_split_lines (buffer_of_string (normalised_text hs))). line_view l"
  using buffer_split_lines_wf [of "buffer_of_string (normalised_text hs)"]
    buffer_split_lines_ended [of "buffer_of_string (normalised_text hs)"]
  by (simp_all add: buffer_split_lines_tokens tokens_normalised [OF assms] line_view_def)

lemma builder_result:
  assumes "\<forall>h \<in> set ((meth, props) # hs). good_header h"
    and "builder nl \<lparr>message = normalised_text ((meth, props) # hs), dataBodies = bs\<rparr> = Inr r"
  shows "\<exists>mv pv hm. make_request nl mv [pv] hm bs = Inr r \<and> view_wf mv \<and> toString mv = meth \<and>
    toString pv = props \<and> header_map_ok hm \<and> header_texts hm = value_map hs Map.empty"
proof -
  let ?ls = "buffer_split_lines (buffer_of_string (normalised_text ((meth, props) # hs)))"
  note lines = builder_lines [OF assms(1)]
  obtain l ls where ls: "?ls = l # ls"
    using lines(1) by (cases ?ls) simp_all
  have l: "view_wf l" "view_ended l" "toString l = header_line (meth, props)"
    "good_header (meth, props)" "\<forall>l \<in> set ls. line_view l" "map toString ls = map header_line hs" "\<forall>h \<in> set hs. good_header h"
    using lines ls assms(1) by (simp_all add: line_view_def)
  obtain mv pv where mv: "buffer_split_on_first l (CHR '':'') = [mv, pv]" "view_wf mv"
      "toString mv = meth" "toString pv = props"
    using split_header_line [OF l(1-4)] unfolding fst_conv snd_conv by blast
  then obtain hm where hm: "add_headers 2 1 ls [] = Inr hm" "make_request nl mv [pv] hm bs = Inr r"
    using assms(2) ls by (auto simp: builder_def bindO_eq_Inr_iff numeral_2_eq_2)
  have "header_map_ok []"
    by (simp add: header_map_ok_def)
  moreover have "header_texts [] = Map.empty"
    by (simp add: header_texts_def fun_eq_iff)
  ultimately show ?thesis
    using add_headers_ok [OF l(5-7) hm(1)] hm(2) mv by auto
qed

lemma map_of_texts:
  "header_map_ok hs \<Longrightarrow> map_of hs k = None \<longleftrightarrow> header_texts hs k = None"
  by (auto simp: header_texts_def header_map_ok_def split: option.splits)

lemma header_value_texts:
  assumes "header_map_ok (msgHeaders m)"
  shows "fst (header_value_at k m) = (case header_texts (msgHeaders m) k of None \<Rightarrow> [] | Some v \<Rightarrow> v)"
  using assms
  by (auto simp: header_value_at_def header_at_def header_texts_def header_map_ok_def
      split: option.splits)

lemma value_map_eq:
  "value_map hs M k =
     (case map_of (rev (map (\<lambda>h. (header_key (fst h), snd h)) hs)) k of None \<Rightarrow> M k | Some v \<Rightarrow> Some v)"
  by (induction hs arbitrary: M) (auto simp: map_add_def split: option.splits)

text \<open>The value of the last header of a name, which is the one the message keeps.\<close>

definition last_value :: "(string \<times> string) list \<Rightarrow> string \<Rightarrow> string" where
  "last_value hs k =
     (case map_of (rev (map (\<lambda>h. (header_key (fst h), snd h)) hs)) k of None \<Rightarrow> [] | Some v \<Rightarrow> v)"

lemma toupper_request_names:
  "map toupper ''INVITE'' = ''INVITE''" "map toupper ''ACK'' = ''ACK''" "map toupper ''BYE'' = ''BYE''"
  "map toupper ''OPTIONS'' = ''OPTIONS''" "map toupper ''SUBSCRIBE'' = ''SUBSCRIBE''"
  "map toupper ''SIP'' = ''SIP''"
  by (simp_all add: ctype_defs)

text \<open>Evaluation of header names and values on concrete texts.\<close>

lemmas header_eval = last_value_def header_key_def special_names_def ctype_defs char_of_def bit_0 c_str_def

lemmas request_defs = SipInviteRequest_def SipAckRequest_def SipByeRequest_def SipOptionsRequest_def
  SipSubscribeRequest_def SipRequest_def request_object_def

lemma make_request_fields:
  assumes "make_request nl mv [pv] hm bs = Inr (Some m)" and "view_wf mv"
  shows "msgHeaders m = hm" "propertiesLine m = pv" "requestMethod m = map toupper (toString mv)"
    "msgChannelId m = None" "msgBodies m = (if requestType m = M_INVITE then bs else [])"
proof -
  have eq: "buffer_equals mv s False \<longleftrightarrow> map toupper (toString mv) = map toupper s"
    if "NUL \<notin> set s" for s
    using that assms(2) by (simp add: buffer_equals_iff fold_case_def)
  note up = toupper_request_names
  show "msgHeaders m = hm" "propertiesLine m = pv" "requestMethod m = map toupper (toString mv)"
    "msgChannelId m = None" "msgBodies m = (if requestType m = M_INVITE then bs else [])"
    using assms(1) unfolding make_request_def
    by (auto simp: request_defs made_def bindO_assoc eq up simp del: list.map split: if_splits)
qed

text \<open>The methods the builder makes requests of, and the request it makes.\<close>

definition request_names :: "string list" where
  "request_names = [''INVITE'', ''ACK'', ''BYE'', ''OPTIONS'', ''SUBSCRIBE'']"

lemma make_request_made:
  assumes "view_wf mv" and "map toupper (toString mv) \<in> set request_names"
  shows "\<exists>m. \<forall>nl. make_request nl mv [pv] hm bs = bindO nl (\<lambda>_. Inr (Some m))"
proof -
  define u where "u = map toupper (toString mv)"
  have eq: "buffer_equals mv s False \<longleftrightarrow> u = map toupper s" if "NUL \<notin> set s" for s
    using that assms(1) by (simp add: buffer_equals_iff fold_case_def u_def)
  have u: "u = ''INVITE'' \<or> u = ''ACK'' \<or> u = ''BYE'' \<or> u = ''OPTIONS'' \<or> u = ''SUBSCRIBE''"
    using assms(2) unfolding u_def [symmetric] by (simp add: request_names_def)
  then obtain m where "\<forall>nl. make_request nl mv [pv] hm bs = bindO nl (\<lambda>_. Inr (Some m))"
    unfolding make_request_def Let_def
    by (elim disjE) (simp_all add: eq toupper_request_names made_def bindO_assoc request_defs del: list.map,
        blast+)
  then show ?thesis by blast
qed

lemma fst_getters:
  assumes "header_map_ok (msgHeaders m)" and "header_texts (msgHeaders m) = value_map hs Map.empty"
  shows "fst (header_value_at k m) = last_value hs k"
  using header_value_texts [OF assms(1)] assms(2)
  by (simp add: last_value_def value_map_eq split: option.splits)

definition sample_headers :: "(string \<times> string) list" where
  "sample_headers = [(''From'', ''<sip:a@x>;tag=1''), (''To'', ''<sip:b@y>''), (''call-id'', ''77@x''),
     (''CSeq'', ''1 INVITE''), (''Content-Length'', ''12''),
     (''Content-Type'', ''application/sdp'')]"

lemma sample_good: "\<forall>h \<in> set ((''Invite'', ''sip:b@y SIP/2.0'') # sample_headers). good_header h"
  by (simp add: sample_headers_def good_header_def header_line_def)

lemma last_value_texts:
  assumes "header_map_ok hm" and "header_texts hm = value_map hs Map.empty"
  shows "map_of hm k = None \<Longrightarrow> last_value hs k = []"
    and "map_of hm k = Some e \<Longrightarrow> \<exists>h. e = Some h \<and> header_fits k h \<and> last_value hs k = toString (headerValue h)"
proof -
  assume "map_of hm k = None"
  then show "last_value hs k = []"
    using assms(2) map_of_texts [OF assms(1)]
    by (auto simp: last_value_def value_map_eq split: option.splits)
next
  assume e: "map_of hm k = Some e"
  then obtain h where h: "e = Some h" "header_fits k h"
    using assms(1) by (auto simp: header_map_ok_def)
  have "value_map hs Map.empty k = Some (toString (headerValue h))"
    using e h(1) by (simp add: assms(2) [symmetric] header_texts_def)
  then have "last_value hs k = toString (headerValue h)"
    by (simp add: last_value_def value_map_eq split: option.splits)
  with h show "\<exists>h. e = Some h \<and> header_fits k h \<and> last_value hs k = toString (headerValue h)"
    by blast
qed

lemma typed_lookups:
  assumes "header_map_ok (msgHeaders m)" and "header_texts (msgHeaders m) = value_map hs Map.empty"
  shows "\<exists>t. getContentType nl m =
        (if map_of (msgHeaders m) ''CONTENT-TYPE'' = None then bindO nl (\<lambda>_. Inr t) else Inr t) \<and>
      (last_value hs ''CONTENT-TYPE'' \<noteq> [] \<longrightarrow> map_of (msgHeaders m) ''CONTENT-TYPE'' \<noteq> None \<and>
        t = content_type_of (buffer_of_string (last_value hs ''CONTENT-TYPE'')))"
    and "\<exists>n. getContentLength nl m =
        (if map_of (msgHeaders m) ''CONTENT-LENGTH'' = None then bindO nl (\<lambda>_. Inr 0) else Inr n) \<and>
      (\<forall>j < 2 ^ 31. last_value hs ''CONTENT-LENGTH'' = show_nat j \<longrightarrow>
        map_of (msgHeaders m) ''CONTENT-LENGTH'' \<noteq> None \<and> n = int j)"
    and "\<exists>ds. getHeaders m = Inr ds"
proof -
  note lv = last_value_texts [OF assms]
  show "\<exists>t. getContentType nl m =
        (if map_of (msgHeaders m) ''CONTENT-TYPE'' = None then bindO nl (\<lambda>_. Inr t) else Inr t) \<and>
      (last_value hs ''CONTENT-TYPE'' \<noteq> [] \<longrightarrow> map_of (msgHeaders m) ''CONTENT-TYPE'' \<noteq> None \<and>
        t = content_type_of (buffer_of_string (last_value hs ''CONTENT-TYPE'')))"
  proof (cases "map_of (msgHeaders m) ''CONTENT-TYPE''")
    case None
    then show ?thesis
      using lv(1) [OF None] by (intro exI [of _ Body_NONE]) (simp add: getContentType_def find_header_def)
  next
    case (Some e)
    then show ?thesis
      using lv(2) [OF Some] by (auto simp: getContentType_def find_header_def header_fits_def)
  qed
  show "\<exists>n. getContentLength nl m =
        (if map_of (msgHeaders m) ''CONTENT-LENGTH'' = None then bindO nl (\<lambda>_. Inr 0) else Inr n) \<and>
      (\<forall>j < 2 ^ 31. last_value hs ''CONTENT-LENGTH'' = show_nat j \<longrightarrow>
        map_of (msgHeaders m) ''CONTENT-LENGTH'' \<noteq> None \<and> n = int j)"
  proof (cases "map_of (msgHeaders m) ''CONTENT-LENGTH''")
    case None
    then show ?thesis
      using lv(1) [OF None] by (simp add: getContentLength_def find_header_def) (metis show_nat_not_Nil)
  next
    case (Some e)
    then show ?thesis
      using lv(2) [OF Some] by (auto simp: getContentLength_def find_header_def header_fits_def)
  qed
  have "\<exists>ds. descriptors l = Inr ds" if "\<forall>(k, e) \<in> set l. \<exists>h. e = Some h" for l
    using that by (induction l rule: descriptors.induct) auto
  then show "\<exists>ds. getHeaders m = Inr ds"
    using assms(1) std_wf_distinct [of "msgHeaders m"] unfolding getHeaders_def header_map_ok_def
    by (auto simp: split_def) (metis map_of_is_SomeI prod.collapse)
qed

lemma typed_values:
  assumes "header_map_ok (msgHeaders m)" and "header_texts (msgHeaders m) = value_map hs Map.empty"
  shows "last_value hs ''CONTENT-TYPE'' \<noteq> [] \<Longrightarrow>
      getContentType nl m = Inr (content_type_of (buffer_of_string (last_value hs ''CONTENT-TYPE'')))"
    and "last_value hs ''CONTENT-LENGTH'' = show_nat j \<Longrightarrow> j < 2 ^ 31 \<Longrightarrow> getContentLength nl m = Inr (int j)"
  using typed_lookups(1,2) [OF assms, of nl] by fastforce+

text \<open>Only a Via header of an unusual form can make the builder fail.\<close>

definition via_ok :: "string \<times> string \<Rightarrow> bool" where
  "via_ok h \<longleftrightarrow> (header_key (fst h) = ''VIA'' \<longrightarrow> usual_via (snd h))"

lemma make_header_total:
  assumes "view_wf v" and "k = ''VIA'' \<longrightarrow> usual_via (toString v)"
  shows "\<exists>h. make_header k name v = Inr h"
proof (cases "k = ''VIA''")
  case True
  then obtain via where "parse_via v = Inr via" "via_usable via"
    using usual_via_parsed [OF assms(1)] assms(2) by blast
  with True show ?thesis
    by (auto simp: make_header_def via_entry_def SipViaHeader_def via_of_def via_usable_def)
qed (simp add: make_header_def)

lemma add_headers_total:
  assumes "\<forall>l \<in> set ls. line_view l" and "map toString ls = map header_line hs"
    and "\<forall>h \<in> set hs. good_header h \<and> via_ok h"
  shows "\<exists>m'. add_headers n i ls m = Inr m'"
  using assms
proof (induction ls arbitrary: i hs m)
  case (Cons l ls)
  then obtain h hs' where hs: "hs = h # hs'" "toString l = header_line h"
      "map toString ls = map header_line hs'"
    by (cases hs) auto
  have "view_wf l" "view_ended l" "good_header h"
    using Cons.prems(1,3) hs(1) by (simp_all add: line_view_def)
  then obtain name v where nv: "buffer_split_on_first l (CHR '':'') = [name, v]" "view_wf name"
      "view_wf v" "toString name = fst h" "toString v = snd h"
    by (rule split_header_line [OF _ _ hs(2)])
  have "NUL \<notin> set (toString name)"
    using \<open>good_header h\<close> nv(4) by (simp add: good_header_def)
  then obtain m1 where "add_header name v m = Inr m1"
    using make_header_total [OF nv(3), of "header_key (fst h)" name] Cons.prems(3) hs(1)
    by (auto simp: add_header_eq [OF nv(2)] nv(4,5) via_ok_def)
  then show ?case
    using Cons.IH [OF _ hs(3), of "Suc i" m1] Cons.prems(1,3) hs(1) nv(1) by simp
qed simp

lemma builder_total:
  assumes "\<forall>h \<in> set ((meth, props) # hs). good_header h"
    and "\<forall>h \<in> set hs. via_ok h" and "map toupper meth \<in> set request_names"
  shows "\<exists>m mv pv hm. (\<forall>nl. builder nl \<lparr>message = normalised_text ((meth, props) # hs), dataBodies = bs\<rparr> =
      bindO nl (\<lambda>_. Inr (Some m))) \<and>
    make_request (Inr ()) mv [pv] hm bs = Inr (Some m) \<and> view_wf mv \<and> toString mv = meth \<and>
    toString pv = props \<and> header_map_ok hm \<and> header_texts hm = value_map hs Map.empty"
proof -
  let ?ls = "buffer_split_lines (buffer_of_string (normalised_text ((meth, props) # hs)))"
  note lines = builder_lines [OF assms(1)]
  obtain l ls where ls: "?ls = l # ls"
    using lines(1) by (cases ?ls) simp_all
  have l: "view_wf l" "view_ended l" "toString l = header_line (meth, props)"
    "good_header (meth, props)" "\<forall>l \<in> set ls. line_view l" "map toString ls = map header_line hs"
    "\<forall>h \<in> set hs. good_header h"
    using lines ls assms(1) by (simp_all add: line_view_def)
  obtain mv pv where mv: "buffer_split_on_first l (CHR '':'') = [mv, pv]" "view_wf mv"
      "toString mv = meth" "toString pv = props"
    using split_header_line [OF l(1-4)] unfolding fst_conv snd_conv by blast
  obtain hm where hm: "add_headers 2 1 ls [] = Inr hm"
    using add_headers_total [OF l(5,6)] assms(2) l(7) by blast
  have start: "header_map_ok []" "header_texts [] = Map.empty"
    by (simp_all add: header_map_ok_def header_texts_def fun_eq_iff)
  obtain m where m: "\<forall>nl. make_request nl mv [pv] hm bs = bindO nl (\<lambda>_. Inr (Some m))"
    using make_request_made [OF mv(2)] mv(3) assms(3) by metis
  then have "\<forall>nl. builder nl \<lparr>message = normalised_text ((meth, props) # hs), dataBodies = bs\<rparr> =
      bindO nl (\<lambda>_. Inr (Some m))"
    using ls mv(1) hm by (simp add: builder_def numeral_2_eq_2)
  then show ?thesis
    using m mv(2-4) add_headers_ok [OF l(5-7) hm start(1)] start(2)
    by (intro exI [of _ m] exI [of _ mv] exI [of _ pv] exI [of _ hm]) simp
qed

text \<open>
  C18: from a normalised header text of \<^verbatim>\<open>name:value\<close> lines, with a method the builder knows in any letter
  case and Via lines of the usual form, the builder makes one request, unless the log call of its
  constructor faults; then the builder faults with it. The request has the start line's method and
  properties; each accessor returns the value of the last header whose name matches up to letter case, and
  the empty string without one.
\<close>

theorem builder_reads_fields:
  assumes "\<forall>h \<in> set ((meth, props) # hs). good_header h"
    and "\<forall>h \<in> set hs. via_ok h" and "map toupper meth \<in> set request_names"
  shows "\<exists>m. (\<forall>nl. builder nl \<lparr>message = normalised_text ((meth, props) # hs), dataBodies = bs\<rparr> =
      bindO nl (\<lambda>_. Inr (Some m))) \<and>
    requestMethod m = map toupper meth \<and> toString (propertiesLine m) = props \<and>
    fst (getFrom m) = last_value hs ''FROM'' \<and> fst (getTo m) = last_value hs ''TO'' \<and>
    fst (getCallId m) = last_value hs ''CALL-ID'' \<and> fst (getCSequence m) = last_value hs ''CSEQ''"
proof -
  obtain m mv pv hm where b: "\<forall>nl. builder nl \<lparr>message = normalised_text ((meth, props) # hs), dataBodies = bs\<rparr> =
      bindO nl (\<lambda>_. Inr (Some m))"
    and r: "make_request (Inr ()) mv [pv] hm bs = Inr (Some m)" "view_wf mv" "toString mv = meth"
      "toString pv = props" "header_map_ok hm" "header_texts hm = value_map hs Map.empty"
    using builder_total [OF assms, of bs] by blast
  note f = make_request_fields [OF r(1,2)]
  show ?thesis
    using b r fst_getters [of m hs] unfolding getFrom_def getTo_def getCallId_def getCSequence_def
    by (intro exI [of _ m]) (simp add: f)
qed

text \<open>
  C23: the request built from such a text holds, under the keys the accessors cast, headers of the
  class they cast to, none of them null; so the headers can be listed, the body type is the one the
  Content-Type text names, and a content length written in decimal below 2^31 is read as that number.
\<close>

theorem builder_headers_typed:
  assumes "\<forall>h \<in> set ((meth, props) # hs). good_header h"
    and "\<forall>h \<in> set hs. via_ok h" and "map toupper meth \<in> set request_names"
  shows "\<exists>m. (\<forall>nl. builder nl \<lparr>message = normalised_text ((meth, props) # hs), dataBodies = bs\<rparr> =
      bindO nl (\<lambda>_. Inr (Some m))) \<and>
    header_map_ok (msgHeaders m) \<and> (\<exists>ds. getHeaders m = Inr ds) \<and>
    (last_value hs ''CONTENT-TYPE'' \<noteq> [] \<longrightarrow>
      getContentType nl m = Inr (content_type_of (buffer_of_string (last_value hs ''CONTENT-TYPE'')))) \<and>
    (\<forall>j < 2 ^ 31. last_value hs ''CONTENT-LENGTH'' = show_nat j \<longrightarrow> getContentLength nl m = Inr (int j))"
proof -
  obtain m mv pv hm where b: "\<forall>nl. builder nl \<lparr>message = normalised_text ((meth, props) # hs), dataBodies = bs\<rparr> =
      bindO nl (\<lambda>_. Inr (Some m))"
    and r: "make_request (Inr ()) mv [pv] hm bs = Inr (Some m)" "view_wf mv"
      "header_map_ok hm" "header_texts hm = value_map hs Map.empty"
    using builder_total [OF assms, of bs] by blast
  have ok: "header_map_ok (msgHeaders m)" "header_texts (msgHeaders m) = value_map hs Map.empty"
    using r make_request_fields [OF r(1,2)] by simp_all
  show ?thesis
    using b ok(1) typed_values [OF ok] typed_lookups(3) [OF ok] by (intro exI [of _ m]) simp
qed

definition sample_data :: normalised_sip_message_data where
  "sample_data = \<lparr>message = normalised_text ((''Invite'', ''sip:b@y SIP/2.0'') # sample_headers),
     dataBodies = []\<rparr>"

definition sample_message :: sip_message where
  "sample_message = (case builder (Inr ()) sample_data of Inr (Some m) \<Rightarrow> m
     | _ \<Rightarrow> request_object M_UNKNOWN ''UNKNOWN'' False null_buffer [] [])"

lemma sample_via: "\<forall>h \<in> set sample_headers. via_ok h"
  by (simp add: sample_headers_def header_eval via_ok_def)

lemma sample_method: "map toupper ''Invite'' \<in> set request_names"
  by code_simp

lemma sample_builder: "builder (Inr ()) sample_data = Inr (Some sample_message)"
proof -
  obtain m where "\<forall>nl. builder nl sample_data = bindO nl (\<lambda>_. Inr (Some m))"
    using builder_total [OF sample_good sample_via sample_method, of "[]"] unfolding sample_data_def by blast
  then have "builder (Inr ()) sample_data = Inr (Some m)" by simp
  then show ?thesis by (auto simp: sample_message_def)
qed

theorem builder_reads_fields_witness:
  "\<exists>m. (\<forall>nl. builder nl \<lparr>message = normalised_text ((''Invite'', ''sip:b@y SIP/2.0'') # sample_headers), dataBodies = []\<rparr> =
      bindO nl (\<lambda>_. Inr (Some m))) \<and>
    requestMethod m = map toupper ''Invite'' \<and> toString (propertiesLine m) = ''sip:b@y SIP/2.0'' \<and>
    fst (getFrom m) = last_value sample_headers ''FROM'' \<and> fst (getTo m) = last_value sample_headers ''TO'' \<and>
    fst (getCallId m) = last_value sample_headers ''CALL-ID'' \<and> fst (getCSequence m) = last_value sample_headers ''CSEQ''"
  by (rule builder_reads_fields [OF sample_good sample_via sample_method])

theorem builder_headers_typed_witness:
  "\<exists>m. (\<forall>nl. builder nl \<lparr>message = normalised_text ((''Invite'', ''sip:b@y SIP/2.0'') # sample_headers), dataBodies = []\<rparr> =
      bindO nl (\<lambda>_. Inr (Some m))) \<and>
    header_map_ok (msgHeaders m) \<and> (\<exists>ds. getHeaders m = Inr ds) \<and>
    getContentType (Inl NullDeref) m = Inr (content_type_of (buffer_of_string ''application/sdp'')) \<and>
    getContentLength (Inl NullDeref) m = Inr 12"
proof -
  have "last_value sample_headers ''CONTENT-TYPE'' = ''application/sdp''"
    "last_value sample_headers ''CONTENT-LENGTH'' = show_nat 12"
    by (simp_all add: sample_headers_def header_eval) code_simp
  note given = this
  have "getContentLength (Inl NullDeref) m = Inr 12"
    if "\<forall>j < 2 ^ 31. last_value sample_headers ''CONTENT-LENGTH'' = show_nat j \<longrightarrow>
      getContentLength (Inl NullDeref) m = Inr (int j)" for m
    using that [rule_format, of 12] given(2) by simp
  then show ?thesis
    using builder_headers_typed [OF sample_good sample_via sample_method, of "[]" "Inl NullDeref"] given(1)
    by (elim ex_forward) simp
qed

section \<open>Responses are framed\<close>

lemma header_at_other:
  "header_at k (snd (header_at j m)) = (fst (header_at k m), snd (header_at k (snd (header_at j m))))"
  by (auto simp: header_at_def split: option.splits)

lemma header_value_after:
  "fst (header_value_at k (snd (header_value_at j m))) = fst (header_value_at k m)"
proof -
  have "snd (header_value_at j m) = snd (header_at j m)" for j m
    by (simp add: header_value_at_def split: prod.split option.split)
  then show ?thesis
    using header_at_other [of k j m]
    by (auto simp: header_value_at_def split: prod.split option.split)
qed

definition response_lines :: "string \<Rightarrow> string \<Rightarrow> string \<Rightarrow> sip_message \<Rightarrow> string list" where
  "response_lines method via localTag m =
     [''SIP/2.0 '' @ method, ''Via: '' @ via, ''From: '' @ fst (getFrom m),
      ''To: '' @ fst (getTo m) @ '';tag='' @ localTag, ''Call-ID: '' @ fst (getCallId m),
      ''CSeq: '' @ fst (getCSequence m), ''Contact: <sip:me@192.168.0.4>'', ''User-Agent: Core-0-1'']"

definition line_block :: "string list \<Rightarrow> string" where
  "line_block ls = concat (map (\<lambda>l. l @ CRLF) ls)"

lemma line_block_simps [simp]:
  "line_block [] = []" "line_block (l # ls) = l @ CRLF @ line_block ls"
  "line_block (ls @ ks) = line_block ls @ line_block ks"
  by (simp_all add: line_block_def)

lemma header_block_line_block: "header_block ls = line_block ls @ CRLF"
  by (simp add: header_block_def line_block_def)

text \<open>
  The text \<^verbatim>\<open>getResponseViaContent\<close> returns, after it has logged it or that there is none; and the request
  after its fields were asked for.
\<close>

definition response_via :: "sip_message \<Rightarrow> string outcome" where
  "response_via m = bindO (find_header ''VIA'' m) (\<lambda>r.
     case r of None \<Rightarrow> Inr [] | Some h \<Rightarrow> bindO (via_of h) getResponseValue)"

lemma getResponseViaContent_eq:
  "getResponseViaContent nl m = bindO (response_via m) (\<lambda>via. bindO nl (\<lambda>_. Inr via))"
  by (simp add: getResponseViaContent_def response_via_def bindO_assoc cong: option.case_cong)
    (simp add: bindO_def split: sum.splits option.splits)

definition asked :: "sip_message \<Rightarrow> sip_message" where
  "asked m = snd (getCSequence (snd (getCallId (snd (getTo (snd (getFrom m)))))))"

lemma base_response_lines:
  assumes "response_via m = Inr via"
  shows "buildStandardBaseResponse nl method localTag m =
    bindO nl (\<lambda>_. Inr (line_block (response_lines method via localTag m), asked m))"
  using header_value_after
  by (cases nl) (simp_all add: buildStandardBaseResponse_def getResponseViaContent_eq assms response_lines_def
      asked_def getFrom_def getTo_def getCallId_def getCSequence_def split_def Let_def)

definition clean_fields :: "sip_message \<Rightarrow> bool" where
  "clean_fields m \<longleftrightarrow> CR \<notin> set (fst (getFrom m)) \<and> CR \<notin> set (fst (getTo m)) \<and>
     CR \<notin> set (fst (getCallId m)) \<and> CR \<notin> set (fst (getCSequence m))"

lemma response_lines_ok:
  assumes "clean_fields m" and "CR \<notin> set via" and "CR \<notin> set localTag" and "CR \<notin> set method"
    and "\<forall>l \<in> set extra. l \<noteq> [] \<and> CR \<notin> set l"
  shows "header_lines (response_lines method via localTag m @ extra)"
  using assms by (auto simp: header_lines_def response_lines_def clean_fields_def)

lemma CR_show_nat: "CR \<notin> set (show_nat n)"
  using show_nat_digits [of n] not_isdigit_simps(2) by blast

definition answer_lines :: "string \<Rightarrow> string list" where
  "answer_lines sdpAnswer =
     [''Accept: application/sdp'',
      ''Allow: INVITE, ACK, BYE, CANCEL, INFO, PRACK, REFER, UPDATE, NOTIFY'',
      ''Supported: siprec, record-aware'', ''Content-Type: application/sdp'',
      ''Content-Disposition: session'', ''Content-Length: '' @ show_nat (length sdpAnswer)]"

text \<open>
  C25: when the request has a readable Via and its fields hold no carriage return, the answer to an
  INVITE is a block of header lines, closed by the first empty line, and then exactly the session
  description, whose length is what the Content-Length line says; the lines repeat the request's
  Via, From, Call-ID and CSeq and add the tag to the To field. It is made unless the log call for the Via
  value faults, and then making it faults.
\<close>

theorem answer_response_framed:
  assumes "response_via m = Inr via" and "clean_fields m" and "CR \<notin> set via"
    and "CR \<notin> set localTag"
  shows "let ls = response_lines ''200 OK'' via localTag m @ answer_lines sdpAnswer in
    buildAnswerResponse nl localTag sdpAnswer m = bindO nl (\<lambda>_. Inr (header_block ls @ sdpAnswer, asked m)) \<and>
    header_lines ls \<and> first_match message_delimiter 0 (header_block ls) \<and>
    last ls = ''Content-Length: '' @ show_nat (length sdpAnswer)"
proof -
  let ?ls = "response_lines ''200 OK'' via localTag m @ answer_lines sdpAnswer"
  have "buildAnswerResponse nl localTag sdpAnswer m = bindO nl (\<lambda>_. Inr (header_block ?ls @ sdpAnswer, asked m))"
    by (simp add: buildAnswerResponse_def base_response_lines [OF assms(1)] bindO_assoc
        header_block_line_block answer_lines_def)
  moreover have "header_lines ?ls"
    by (rule response_lines_ok [OF assms(2-4)]) (simp_all add: answer_lines_def CR_show_nat)
  ultimately show ?thesis
    using header_block_first_match by (auto simp: Let_def answer_lines_def)
qed

text \<open>
  The responses without a body (\<^verbatim>\<open>100 Trying\<close>, \<^verbatim>\<open>180 Ringing\<close>, \<^verbatim>\<open>200 OK\<close>) are likewise one
  complete header block with a content length of zero and nothing behind it.
\<close>

theorem bodyless_responses_framed:
  assumes "response_via m = Inr via" and "clean_fields m" and "CR \<notin> set via"
    and "CR \<notin> set localTag"
  shows "let ls = (\<lambda>meth. response_lines meth via localTag m @ [''Content-Length: 0'']) in
    buildTryingResponse nl localTag m = bindO nl (\<lambda>_. Inr (header_block (ls ''100 Trying''), asked m)) \<and>
    buildRingingResponse nl localTag m = bindO nl (\<lambda>_. Inr (header_block (ls ''180 Ringing''), asked m)) \<and>
    buildOkResponse nl localTag m = bindO nl (\<lambda>_. Inr (header_block (ls ''200 OK''), asked m)) \<and>
    header_lines (ls ''100 Trying'') \<and> header_lines (ls ''180 Ringing'') \<and> header_lines (ls ''200 OK'')"
proof -
  have lines: "header_lines (response_lines meth via localTag m @ [''Content-Length: 0''])"
    if "CR \<notin> set meth" for meth
    using that by (intro response_lines_ok [OF assms(2-4)]) simp_all
  show ?thesis
    using lines [of "''100 Trying''"] lines [of "''180 Ringing''"] lines [of "''200 OK''"]
    by (simp add: Let_def buildTryingResponse_def buildRingingResponse_def buildOkResponse_def
        buildStandardFullResponse_def base_response_lines [OF assms(1)] bindO_assoc header_block_line_block)
qed

lemma sample_clean: "clean_fields sample_message" "response_via sample_message = Inr []"
proof -
  obtain mv pv hm where r: "make_request (Inr ()) mv [pv] hm [] = Inr (Some sample_message)" "view_wf mv"
      "header_map_ok hm" "header_texts hm = value_map sample_headers Map.empty"
    using builder_result [OF sample_good sample_builder [unfolded sample_data_def]] by metis
  note f = make_request_fields [OF r(1,2)]
  have v: "fst (header_value_at k sample_message) = last_value sample_headers k" for k
    using fst_getters [of sample_message sample_headers k] r(3,4) f(1) by simp
  have "CR \<notin> set (last_value sample_headers ''FROM'')" "CR \<notin> set (last_value sample_headers ''TO'')"
    "CR \<notin> set (last_value sample_headers ''CALL-ID'')" "CR \<notin> set (last_value sample_headers ''CSEQ'')"
    by (simp_all add: sample_headers_def header_eval)
  then show "clean_fields sample_message"
    by (simp add: clean_fields_def getFrom_def getTo_def getCallId_def getCSequence_def v)
  have "value_map sample_headers Map.empty ''VIA'' = None"
    by (simp add: sample_headers_def header_eval)
  then have "map_of hm ''VIA'' = None"
    using map_of_texts [OF r(3)] r(4) by simp
  then show "response_via sample_message = Inr []"
    by (simp add: response_via_def find_header_def f)
qed

theorem answer_response_framed_witness:
  "\<forall>nl. let ls = response_lines ''200 OK'' [] ''t1'' sample_message @ answer_lines ''v=0'' in
    buildAnswerResponse nl ''t1'' ''v=0'' sample_message = bindO nl (\<lambda>_. Inr (header_block ls @ ''v=0'', asked sample_message)) \<and>
    header_lines ls \<and> first_match message_delimiter 0 (header_block ls) \<and>
    last ls = ''Content-Length: '' @ show_nat (length ''v=0'')"
  by (rule allI, rule answer_response_framed) (simp_all add: sample_clean)

theorem bodyless_responses_framed_witness:
  "let ls = (\<lambda>meth. response_lines meth [] ''t1'' sample_message @ [''Content-Length: 0'']) in
    buildTryingResponse nl ''t1'' sample_message = bindO nl (\<lambda>_. Inr (header_block (ls ''100 Trying''), asked sample_message)) \<and>
    buildRingingResponse nl ''t1'' sample_message = bindO nl (\<lambda>_. Inr (header_block (ls ''180 Ringing''), asked sample_message)) \<and>
    buildOkResponse nl ''t1'' sample_message = bindO nl (\<lambda>_. Inr (header_block (ls ''200 OK''), asked sample_message)) \<and>
    header_lines (ls ''100 Trying'') \<and> header_lines (ls ''180 Ringing'') \<and> header_lines (ls ''200 OK'')"
  by (rule bodyless_responses_framed) (simp_all add: sample_clean)

section \<open>Where messages go wrong\<close>

text \<open>
  Asking a request without a To header for its To field inserts a null entry, and listing the
  headers afterwards dereferences it; before, the listing works.
\<close>

theorem getter_breaks_getHeaders:
  assumes "header_map_ok (msgHeaders m)" and "map_of (msgHeaders m) ''TO'' = None"
  shows "fst (getTo m) = [] \<and> getHeaders (snd (getTo m)) = Inl NullDeref"
proof -
  have "descriptors (std_put k None hs) = Inl NullDeref" if "\<forall>(k, e) \<in> set hs. \<exists>h. e = Some h"
    and "map_of hs k = None" for k hs
    using that
  proof (induction k "None :: sip_header option" hs rule: std_put.induct)
    case (2 k a b m)
    then show ?case by (auto split: if_splits)
  qed simp
  moreover have "\<forall>(k, e) \<in> set (msgHeaders m). \<exists>h. e = Some h"
    using assms(1) std_wf_distinct [of "msgHeaders m"] unfolding header_map_ok_def
    by (auto simp: split_def) (metis map_of_is_SomeI prod.collapse)
  ultimately show ?thesis
    using assms(2)
    by (simp add: getTo_def header_value_at_def header_at_def getHeaders_def)
qed

theorem getter_breaks_getHeaders_witness:
  "fst (getTo (request_object M_INVITE ''INVITE'' False null_buffer [] [])) = [] \<and>
    getHeaders (snd (getTo (request_object M_INVITE ''INVITE'' False null_buffer [] []))) = Inl NullDeref"
  by (rule getter_breaks_getHeaders)
    (simp_all add: request_object_def header_map_ok_def)

end
