(* ===== verification/SipParser.thy ===== *)
theory SipParser
  imports SipMessage Util
begin

text \<open>
  Model of \<^verbatim>\<open>src/src/components/sip/SipParser.h\<close> and \<^verbatim>\<open>SipParser.cpp\<close>. The caller hands in a piece of
  its memory, \<open>mem\<close>, of which the first \<open>len\<close> bytes are the piece (\<^const>\<open>mem_at\<close> reads NUL behind the
  memory). \<open>read_char\<close> is the body of the character loop of \<^verbatim>\<open>readHeaderLine\<close>, in which the message pointer
  is always \<open>lsPos\<close> while \<open>messageIndex\<close> lags behind it when lines are skipped; \<open>normalise_loop\<close> is the loop
  of \<^verbatim>\<open>normaliseHeaderData\<close>. \<open>loadMessageData\<close> returns the pending byte count and the messages for which
  the event handler is called, in order. The parser's own logger is there; the accessors of the message it
  calls, also for its log lines, may log through the message's, which is not.
\<close>

section \<open>Reading one header line\<close>

definition MaxMethodLength :: nat where "MaxMethodLength = 64"
definition MaxHeaderLineLength :: nat where "MaxHeaderLineLength = 512"

definition isValidHeaderFieldNameChar :: "char \<Rightarrow> bool" where
  "isValidHeaderFieldNameChar c = (isalpha c \<or> c = CHR ''-'')"

function skip_line :: "string \<Rightarrow> nat \<Rightarrow> nat \<Rightarrow> nat" where
  "skip_line mem sz pos =
     (if pos < sz then (if mem_at mem pos = LF then pos else skip_line mem sz (pos + 1)) else pos)"
  by pat_completeness auto

termination by (relation "measure (\<lambda>(_, sz, pos). sz - pos)") simp_all

declare skip_line.simps [simp del]

lemma skip_line_ge: "pos \<le> skip_line mem sz pos"
proof (induction mem sz pos rule: skip_line.induct)
  case (1 mem sz pos)
  then show ?case by (subst skip_line.simps) auto
qed

text \<open>The loop variables; \<open>name\<close> and \<open>line\<close> are the bytes written to \<^verbatim>\<open>method\<close> and \<^verbatim>\<open>line\<close>.\<close>

record line_state =
  lsPos :: nat
  messageIndex :: nat
  haveName :: bool
  haveStartOfValue :: bool
  lsName :: string
  lsLine :: string

datatype loop_step = Continue line_state | Break line_state

definition read_name :: "char \<Rightarrow> line_state \<Rightarrow> line_state" where
  "read_name c s =
     (if haveName s then s
      else if length (lsName s) \<ge> MaxMethodLength - 1 \<or> \<not> isValidHeaderFieldNameChar c
      then s\<lparr>haveName := True\<rparr>
      else s\<lparr>lsName := lsName s @ [c]\<rparr>)"

definition read_value :: "string \<Rightarrow> nat \<Rightarrow> char \<Rightarrow> line_state \<Rightarrow> loop_step" where
  "read_value mem sz c s =
     (if c = CR then Continue s
      else if c = LF then
        (if messageIndex s < sz - 1 \<and>
            (mem_at mem (lsPos s + 1) = CHR '' '' \<or> mem_at mem (lsPos s + 1) = TAB)
         then Continue s else Break s)
      else
        (let s = (if haveName s \<and> \<not> haveStartOfValue s \<and> c \<noteq> CHR '' '' \<and> c \<noteq> CHR '':'' \<and> c \<noteq> TAB
                  then s\<lparr>haveStartOfValue := True\<rparr> else s)
         in Continue (if haveStartOfValue s then s\<lparr>lsLine := lsLine s @ [c]\<rparr> else s)))"

text \<open>The loop's body; a line that starts with a dash is skipped.\<close>

definition read_char :: "string \<Rightarrow> nat \<Rightarrow> line_state \<Rightarrow> loop_step" where
  "read_char mem sz s =
     (let c = mem_at mem (lsPos s)
      in if \<not> haveName s \<and> lsName s = [] \<and> c = CHR ''-'' then
           Continue (s\<lparr>lsPos := skip_line mem sz (lsPos s)\<rparr>)
         else read_value mem sz c (read_name c s))"

lemma read_char_pos:
  "read_char mem sz s = Continue s' \<Longrightarrow> lsPos s \<le> lsPos s'"
  "read_char mem sz s = Break s' \<Longrightarrow> lsPos s \<le> lsPos s'"
  by (auto simp: read_char_def read_value_def read_name_def Let_def skip_line_ge split: if_splits)

function read_line :: "string \<Rightarrow> nat \<Rightarrow> line_state \<Rightarrow> line_state" where
  "read_line mem sz s =
     (if lsPos s < sz \<and> length (lsLine s) < MaxHeaderLineLength - 1 then
        (case read_char mem sz s of
           Break s' \<Rightarrow> s'
         | Continue s' \<Rightarrow>
             read_line mem sz (s'\<lparr>lsPos := lsPos s' + 1, messageIndex := messageIndex s' + 1\<rparr>))
      else s)"
  by pat_completeness auto

termination
proof (relation "measure (\<lambda>(_, sz, s). sz - lsPos s)")
  fix mem :: string and sz :: nat and s s' :: line_state
  assume "lsPos s < sz \<and> length (lsLine s) < MaxHeaderLineLength - 1"
    and "read_char mem sz s = Continue s'"
  then show "((mem, sz, s'\<lparr>lsPos := lsPos s' + 1, messageIndex := messageIndex s' + 1\<rparr>), mem, sz, s)
      \<in> measure (\<lambda>(_, sz, s). sz - lsPos s)"
    using read_char_pos(1) [of mem sz s s'] by (simp; linarith)
qed simp

declare read_line.simps [simp del]

lemma read_line_pos: "lsPos s \<le> lsPos (read_line mem sz s)"
proof (induction mem sz s rule: read_line.induct)
  case (1 mem sz s)
  show ?case
  proof (cases "lsPos s < sz \<and> length (lsLine s) < MaxHeaderLineLength - 1")
    case True
    then show ?thesis
      using "1.IH" read_char_pos [of mem sz s]
      by (subst read_line.simps) (fastforce split: loop_step.split)
  next
    case False
    then show ?thesis by (subst read_line.simps) auto
  qed
qed

record header_scan =
  scanPos :: nat
  scanName :: string
  scanLine :: string

definition start_of_line :: "nat \<Rightarrow> line_state" where
  "start_of_line pos = \<lparr>lsPos = pos, messageIndex = pos, haveName = False, haveStartOfValue = False,
     lsName = [], lsLine = []\<rparr>"

definition readHeaderLine :: "nat \<Rightarrow> string \<Rightarrow> nat \<Rightarrow> header_scan" where
  "readHeaderLine pos mem messageSize =
     (if pos \<ge> messageSize then \<lparr>scanPos = pos, scanName = [], scanLine = []\<rparr>
      else
        (let s = read_line mem messageSize (start_of_line pos)
         in \<lparr>scanPos = lsPos s + 1, scanName = lsName s, scanLine = lsLine s\<rparr>))"

lemma readHeaderLine_pos: "pos < sz \<Longrightarrow> pos < scanPos (readHeaderLine pos mem sz)"
  using read_line_pos [of "start_of_line pos" mem sz]
  by (simp add: readHeaderLine_def start_of_line_def Let_def)

section \<open>Parser state\<close>

record sip_parser =
  processingMessage :: bool
  parserData :: normalised_sip_message_data
  requiredContentLength :: int
  receivedContentLength :: int
  bodyBoundaryKey :: string
  bodyType :: body_type
  expectingBodyContentType :: "body_type option"
  expectingBodyContentTypeString :: string
  currentMessage :: "sip_message option"

definition new_sip_parser :: sip_parser where
  "new_sip_parser =
     \<lparr>processingMessage = False, parserData = \<lparr>message = [], dataBodies = []\<rparr>,
      requiredContentLength = 0, receivedContentLength = 0, bodyBoundaryKey = ''uniqueBoundary'',
      bodyType = Body_NONE, expectingBodyContentType = None, expectingBodyContentTypeString = [],
      currentMessage = None\<rparr>"

section \<open>Normalising the header\<close>

definition boundary_parameter :: "string \<Rightarrow> string option" where
  "boundary_parameter line =
     (case buffer_split (buffer_of_cstr line) (CHR '';'') of
        _ # part # _ \<Rightarrow>
          (case buffer_split part (CHR ''='') of
             key # v # _ \<Rightarrow> if buffer_equals key ''boundary'' False then Some (toString v) else None
           | _ \<Rightarrow> None)
      | _ \<Rightarrow> None)"

definition content_type_line :: "string \<Rightarrow> sip_parser \<Rightarrow> sip_parser" where
  "content_type_line line p =
     (if areEquivalent line ''application/sdp'' 0 then
        p\<lparr>bodyType := Body_SDP, expectingBodyContentType := Some Body_SDP\<rparr>
      else if buffer_starts_with (buffer_of_cstr line) ''multipart/mixed'' False then
        p\<lparr>bodyType := Body_MULTIPLE, expectingBodyContentType := Some Body_BOUNDARY,
          bodyBoundaryKey := (case boundary_parameter line of Some k \<Rightarrow> k | None \<Rightarrow> bodyBoundaryKey p)\<rparr>
      else if buffer_contains (buffer_of_cstr line) ''XML'' False then
        p\<lparr>bodyType := Body_XML, expectingBodyContentType := Some Body_XML\<rparr>
      else p\<lparr>bodyType := Body_OTHER, expectingBodyContentType := Some Body_OTHER,
             expectingBodyContentTypeString := line\<rparr>)"

lemma readHeaderLine_progress:
  assumes "scanLine (readHeaderLine pos mem sz) \<noteq> []"
  shows "sz - scanPos (readHeaderLine pos mem sz) < sz - pos"
proof -
  have "pos < sz"
    using assms by (auto simp: readHeaderLine_def split: if_splits)
  then show ?thesis
    using readHeaderLine_pos [of pos sz mem] by linarith
qed

function normalise_loop :: "nat \<Rightarrow> string \<Rightarrow> nat \<Rightarrow> string \<Rightarrow> sip_parser \<Rightarrow> string \<times> sip_parser" where
  "normalise_loop pos mem sz ss p =
     (let r = readHeaderLine pos mem sz
      in if scanLine r = [] then (ss, p)
         else if length (scanName r) > 1 then
           normalise_loop (scanPos r) mem sz (ss @ scanName r @ '':'' @ scanLine r @ CRLF)
             (if areEquivalent (scanName r) ''Content-Type'' 0 then content_type_line (scanLine r) p else p)
         else normalise_loop (scanPos r) mem sz (ss @ scanName r @ scanLine r @ CRLF) p)"
  by pat_completeness auto

termination
  by (relation "measure (\<lambda>(pos, _, sz, _). sz - pos)") (simp_all add: readHeaderLine_progress)

declare normalise_loop.simps [simp del]

definition normaliseHeaderData :: "string \<Rightarrow> nat \<Rightarrow> sip_parser \<Rightarrow> sip_parser" where
  "normaliseHeaderData mem messageSize p =
     (case normalise_loop 0 mem messageSize [] (p\<lparr>bodyType := Body_NONE\<rparr>) of
        (ss, p) \<Rightarrow> p\<lparr>parserData := (parserData p)\<lparr>message := ss\<rparr>\<rparr>)"

section \<open>Header and body\<close>

definition expected_body :: "body_type \<Rightarrow> body_type" where
  "expected_body t = (if t = Body_MULTIPLE then Body_BOUNDARY else t)"

definition parseHeaderData :: "logging \<Rightarrow> string \<Rightarrow> nat \<Rightarrow> sip_parser \<Rightarrow> (sip_message option \<times> sip_parser) outcome" where
  "parseHeaderData nl mem messageSize p =
     (let p = normaliseHeaderData mem messageSize p
      in bindO (builder nl (parserData p)) (\<lambda>msg.
         case msg of
           None \<Rightarrow> Inr (None, p)
         | Some m \<Rightarrow>
             bindO (getContentLength nl m) (\<lambda>n.
             if n \<noteq> 0 then
               bindO (getContentType nl m) (\<lambda>t.
                 Inr (Some m, p\<lparr>requiredContentLength := n,
                   expectingBodyContentType := Some (expected_body t)\<rparr>))
             else Inr (Some m, p\<lparr>requiredContentLength := n,
                   expectingBodyContentType := Some Body_NONE\<rparr>))))"

definition boundary_line_type :: "mapped_buffer \<Rightarrow> body_type \<Rightarrow> body_type" where
  "boundary_line_type line next =
     (if buffer_contains line ''Content-Type'' False then
        (if buffer_contains line ''sdp'' False then Body_SDP
         else if buffer_contains line ''xml'' False then Body_XML
         else Body_OTHER)
      else next)"

definition parse_boundary :: "string \<Rightarrow> mapped_buffer list \<Rightarrow> body_type outcome" where
  "parse_boundary key lines =
     (case lines of
        [] \<Rightarrow> Inl OutOfBounds
      | l # ls \<Rightarrow>
          Inr (if buffer_contains l key False then
                 (if buffer_ends_with l ''--'' False then Body_NONE
                  else fold boundary_line_type ls Body_NONE)
               else Body_NONE))"

definition store_body :: "body_type \<Rightarrow> string \<Rightarrow> sip_parser \<Rightarrow> sip_parser" where
  "store_body t body p =
     p\<lparr>parserData := (parserData p)\<lparr>dataBodies := std_insert t body (dataBodies (parserData p))\<rparr>\<rparr>"

definition add_body :: "logging \<Rightarrow> body_type \<Rightarrow> string \<Rightarrow> sip_parser \<Rightarrow> sip_parser outcome" where
  "add_body nl t body p =
     (case currentMessage p of
        None \<Rightarrow> Inl NullDeref
      | Some m \<Rightarrow> bindO (addBody nl t body m) (\<lambda>m. Inr (p\<lparr>currentMessage := Some m\<rparr>)))"

definition body_after :: "sip_parser \<Rightarrow> body_type" where
  "body_after p = (if bodyType p = Body_MULTIPLE then Body_BOUNDARY else Body_NONE)"

text \<open>
  \<^verbatim>\<open>data.bodies\<close> gets the bytes of the piece; the message gets the C string at their address, whose
  end is searched for up to the end of the caller's array.
\<close>

definition parseBodyData :: "logging \<Rightarrow> string \<Rightarrow> nat \<Rightarrow> sip_parser \<Rightarrow> sip_parser outcome" where
  "parseBodyData nl mem messageSize p =
     bindO (initialised (expectingBodyContentType p)) (\<lambda>expecting.
     let expect = (\<lambda>next p. Inr (p\<lparr>expectingBodyContentType := Some next\<rparr>)) in
     case expecting of
       Body_BOUNDARY \<Rightarrow>
         bindO (parse_boundary (bodyBoundaryKey p) (buffer_split_lines (view mem messageSize)))
           (\<lambda>next. expect next p)
     | Body_SDP \<Rightarrow>
         bindO (c_string mem) (\<lambda>text.
         bindO (add_body nl Body_SDP text (store_body Body_SDP (take messageSize mem) p))
           (\<lambda>q. expect (body_after q) q))
     | Body_XML \<Rightarrow>
         bindO (c_string mem) (\<lambda>text.
         bindO (add_body nl Body_XML text (store_body Body_XML (take messageSize mem) p))
           (\<lambda>q. expect (body_after q) q))
     | Body_OTHER \<Rightarrow>
         (let q = store_body Body_OTHER (take messageSize mem) p in expect (body_after q) q)
     | Body_NONE \<Rightarrow> expect Body_NONE p
     | Body_MULTIPLE \<Rightarrow> expect Body_NONE p
     | Body_UNKNOWN \<Rightarrow> expect Body_NONE p)"

section \<open>Pieces of a message\<close>

definition load_header :: "logging \<Rightarrow> string \<Rightarrow> nat \<Rightarrow> sip_parser \<Rightarrow> (nat \<times> sip_message list \<times> sip_parser) outcome" where
  "load_header nl mem len p =
     bindO (parseHeaderData nl mem len p) (\<lambda>(msg, p).
       let p = p\<lparr>currentMessage := msg\<rparr> in
       case msg of
         None \<Rightarrow> Inr (0, [], p)
       | Some m \<Rightarrow>
           bindO (getContentLength nl m) (\<lambda>n.
             if n = 0 then
               Inr (0, [m], p\<lparr>receivedContentLength := 0, processingMessage := False\<rparr>)
             else
               bindO (getContentType nl m) (\<lambda>t.
                 Inr (to_size_t n, [], p\<lparr>bodyType := t,
                   expectingBodyContentType := Some (expected_body t), processingMessage := True\<rparr>))))"

definition load_body :: "logging \<Rightarrow> string \<Rightarrow> nat \<Rightarrow> sip_parser \<Rightarrow> (nat \<times> sip_message list \<times> sip_parser) outcome" where
  "load_body nl mem len p =
     (case currentMessage p of
        None \<Rightarrow> Inl NullDeref
      | Some m \<Rightarrow>
          bindO (getContentType nl m) (\<lambda>_.
          bindO (parseBodyData nl mem len
             (p\<lparr>receivedContentLength := to_int32 (receivedContentLength p + int len)\<rparr>)) (\<lambda>p.
           case currentMessage p of
             None \<Rightarrow> Inl NullDeref
           | Some m \<Rightarrow>
               bindO (getContentLength nl m) (\<lambda>n.
                 if receivedContentLength p \<ge> n then
                   Inr (0, [m], p\<lparr>receivedContentLength := 0, processingMessage := False\<rparr>)
                 else
                   Inr (to_size_t (n - receivedContentLength p), [], p\<lparr>processingMessage := True\<rparr>)))))"

definition loadMessageData :: "logging \<Rightarrow> string \<Rightarrow> nat \<Rightarrow> sip_parser \<Rightarrow> (nat \<times> sip_message list \<times> sip_parser) outcome" where
  "loadMessageData nl mem len p = (if \<not> processingMessage p then load_header nl mem len p else load_body nl mem len p)"

section \<open>Reading well-formed header lines\<close>

abbreviation separators :: "char set" where
  "separators \<equiv> {CHR '' '', CHR '':'', TAB}"

definition advance :: "nat \<Rightarrow> line_state \<Rightarrow> line_state" where
  "advance n s = s\<lparr>lsPos := lsPos s + n, messageIndex := messageIndex s + n\<rparr>"

lemma advance_simps [simp]:
  "lsPos (advance n s) = lsPos s + n" "messageIndex (advance n s) = messageIndex s + n"
  "haveName (advance n s) = haveName s" "haveStartOfValue (advance n s) = haveStartOfValue s"
  "lsName (advance n s) = lsName s" "lsLine (advance n s) = lsLine s"
  "advance m (advance n s) = advance (n + m) s" "advance 0 s = s"
  "advance n (s\<lparr>lsName := a\<rparr>) = (advance n s)\<lparr>lsName := a\<rparr>"
  "advance n (s\<lparr>lsLine := a\<rparr>) = (advance n s)\<lparr>lsLine := a\<rparr>"
  by (simp_all add: advance_def add.assoc)

lemma mem_at_drop: "drop i m = c # r \<Longrightarrow> mem_at m i = c"
  by (auto simp: mem_at_def nth_via_drop dest: drop_eq_Nil [THEN iffD2])

lemma drop_step: "drop i m = c # r \<Longrightarrow> drop (Suc i) m = r"
  by (rule drop_Cons_step(3))

lemma read_line_step:
  assumes "lsPos s < sz" and "length (lsLine s) < 511" and "read_char mem sz s = Continue s'"
  shows "read_line mem sz s = read_line mem sz (advance 1 s')"
  using assms by (subst read_line.simps) (simp add: MaxHeaderLineLength_def advance_def)

lemma valid_name_char:
  assumes "isValidHeaderFieldNameChar c"
  shows "c \<noteq> CR" "c \<noteq> LF" "c \<notin> separators"
  using assms by (auto simp: isValidHeaderFieldNameChar_def isalpha_def isupper_def islower_def char_code_def)

lemma read_name_phase:
  "\<forall>c \<in> set n. isValidHeaderFieldNameChar c \<Longrightarrow> length (lsName s @ n) \<le> 63 \<Longrightarrow>
     (lsName s = [] \<longrightarrow> n \<noteq> [] \<longrightarrow> hd n \<noteq> CHR ''-'') \<Longrightarrow> \<not> haveName s \<Longrightarrow> \<not> haveStartOfValue s \<Longrightarrow>
     lsLine s = [] \<Longrightarrow> drop (lsPos s) mem = n @ r \<Longrightarrow> lsPos s + length n \<le> sz \<Longrightarrow>
     read_line mem sz s = read_line mem sz ((advance (length n) s)\<lparr>lsName := lsName s @ n\<rparr>)"
proof (induction n arbitrary: s)
  case Nil
  then show ?case by simp
next
  case (Cons c n)
  let ?s = "s\<lparr>lsName := lsName s @ [c]\<rparr>"
  have c: "mem_at mem (lsPos s) = c"
    using Cons.prems(7) by (simp add: mem_at_drop)
  have "read_char mem sz s = Continue ?s"
    using Cons.prems valid_name_char [of c]
    by (auto simp: read_char_def c read_name_def read_value_def MaxMethodLength_def Let_def)
  then have "read_line mem sz s = read_line mem sz (advance 1 ?s)"
    using Cons.prems by (intro read_line_step) auto
  also have "\<dots> = read_line mem sz ((advance (length n) (advance 1 ?s))\<lparr>lsName := lsName ?s @ n\<rparr>)"
    using Cons.prems drop_step [of "lsPos s" mem c "n @ r"] by (subst Cons.IH) simp_all
  finally show ?case by simp
qed

lemma read_separator_phase:
  "set sep \<subseteq> separators \<Longrightarrow> haveName s \<Longrightarrow> \<not> haveStartOfValue s \<Longrightarrow> lsLine s = [] \<Longrightarrow>
     drop (lsPos s) mem = sep @ r \<Longrightarrow> lsPos s + length sep \<le> sz \<Longrightarrow>
     read_line mem sz s = read_line mem sz (advance (length sep) s)"
proof (induction sep arbitrary: s)
  case (Cons c sep)
  have c: "mem_at mem (lsPos s) = c"
    using Cons.prems(5) by (simp add: mem_at_drop)
  have "read_char mem sz s = Continue s"
    using Cons.prems by (auto simp: read_char_def c read_name_def read_value_def Let_def)
  then have "read_line mem sz s = read_line mem sz (advance 1 s)"
    using Cons.prems by (intro read_line_step) auto
  also have "\<dots> = read_line mem sz (advance (length sep) (advance 1 s))"
    using Cons.prems drop_step [of "lsPos s" mem c "sep @ r"] by (intro Cons.IH) simp_all
  finally show ?case by simp
qed simp

lemma read_first_separator:
  assumes "c \<in> separators" and "\<not> haveName s" and "lsName s \<noteq> []" and "\<not> haveStartOfValue s"
    and "lsLine s = []" and "drop (lsPos s) mem = c # r" and "lsPos s < sz"
  shows "read_line mem sz s = read_line mem sz (advance 1 (s\<lparr>haveName := True\<rparr>))"
proof -
  have c: "mem_at mem (lsPos s) = c"
    using assms(6) by (simp add: mem_at_drop)
  have "\<not> isValidHeaderFieldNameChar c"
    using assms(1) by (auto simp: isValidHeaderFieldNameChar_def isalpha_def isupper_def islower_def
        char_code_def)
  then have "read_char mem sz s = Continue (s\<lparr>haveName := True\<rparr>)"
    using assms by (auto simp: read_char_def c read_name_def read_value_def Let_def)
  then show ?thesis
    using assms by (intro read_line_step) auto
qed

lemma read_value_phase:
  "CR \<notin> set v \<Longrightarrow> LF \<notin> set v \<Longrightarrow> haveName s \<Longrightarrow> haveStartOfValue s \<Longrightarrow>
     length (lsLine s @ v) < 511 \<Longrightarrow> drop (lsPos s) mem = v @ r \<Longrightarrow> lsPos s + length v \<le> sz \<Longrightarrow>
     read_line mem sz s = read_line mem sz ((advance (length v) s)\<lparr>lsLine := lsLine s @ v\<rparr>)"
proof (induction v arbitrary: s)
  case (Cons c v)
  let ?s = "s\<lparr>lsLine := lsLine s @ [c]\<rparr>"
  have c: "mem_at mem (lsPos s) = c"
    using Cons.prems(6) by (simp add: mem_at_drop)
  have "read_char mem sz s = Continue ?s"
    using Cons.prems by (auto simp: read_char_def c read_name_def read_value_def Let_def)
  then have "read_line mem sz s = read_line mem sz (advance 1 ?s)"
    using Cons.prems by (intro read_line_step) auto
  also have "\<dots> = read_line mem sz ((advance (length v) (advance 1 ?s))\<lparr>lsLine := lsLine ?s @ v\<rparr>)"
    using Cons.prems drop_step [of "lsPos s" mem c "v @ r"] by (subst Cons.IH) simp_all
  finally show ?case by simp
qed simp

lemma read_first_value:
  assumes "c \<notin> separators" and "c \<noteq> CR" and "c \<noteq> LF" and "haveName s" and "\<not> haveStartOfValue s"
    and "lsLine s = []" and "drop (lsPos s) mem = c # r" and "lsPos s < sz"
  shows "read_line mem sz s = read_line mem sz (advance 1 (s\<lparr>haveStartOfValue := True, lsLine := [c]\<rparr>))"
proof -
  have c: "mem_at mem (lsPos s) = c"
    using assms(7) by (simp add: mem_at_drop)
  have "read_char mem sz s = Continue (s\<lparr>haveStartOfValue := True, lsLine := [c]\<rparr>)"
    using assms by (auto simp: read_char_def c read_name_def read_value_def Let_def)
  then show ?thesis
    using assms by (intro read_line_step) auto
qed

text \<open>The end of a line that is not continued.\<close>

lemma read_line_end:
  assumes "haveName s \<or> lsName s = []" and "length (lsLine s) < 511" and "drop (lsPos s) mem = CR # LF # r"
    and "lsPos s + 2 \<le> sz" and "messageIndex s = lsPos s"
    and "lsPos s + 2 < sz \<longrightarrow> deref r \<noteq> CHR '' '' \<and> deref r \<noteq> TAB"
  shows "\<exists>s'. read_line mem sz s = s' \<and> lsPos s' = lsPos s + 1 \<and> lsName s' = lsName s \<and> lsLine s' = lsLine s"
proof -
  let ?s = "s\<lparr>haveName := True\<rparr>"
  have at: "mem_at mem (lsPos s) = CR" "drop (Suc (lsPos s)) mem = LF # r"
    "mem_at mem (Suc (lsPos s)) = LF" "drop (Suc (Suc (lsPos s))) mem = r"
    using assms(3) mem_at_drop drop_step by metis+
  have "\<not> isValidHeaderFieldNameChar CR" "\<not> isValidHeaderFieldNameChar LF"
    by (auto simp: isValidHeaderFieldNameChar_def isalpha_def isupper_def islower_def char_code_def)
  then have "read_char mem sz s = Continue ?s"
    by (auto simp: read_char_def at read_name_def read_value_def Let_def)
  then have "read_line mem sz s = read_line mem sz (advance 1 ?s)"
    using assms by (intro read_line_step) auto
  moreover have next_char: "mem_at mem (Suc (Suc (lsPos s))) = deref r"
    using at(4) mem_at_drop [of "Suc (Suc (lsPos s))" mem] by (cases r) (auto simp: mem_at_def)
  have "read_char mem sz (advance 1 ?s) = Break (advance 1 ?s)"
    using assms(4-6) at next_char by (auto simp: read_char_def read_name_def read_value_def Let_def)
  then have "read_line mem sz (advance 1 ?s) = advance 1 ?s"
    using assms by (subst read_line.simps) (simp add: MaxHeaderLineLength_def)
  ultimately show ?thesis by simp
qed

section \<open>Header blocks on the wire\<close>

text \<open>
  A header as sent: the name, what separates it from the value (colon and white space, or the space
  of the start line), the value. The bounds are the code's buffers: 63 and 510 characters.
\<close>

record wire_header =
  whName :: string
  whSep :: string
  whValue :: string

definition wire_line :: "wire_header \<Rightarrow> string" where
  "wire_line h = whName h @ whSep h @ whValue h @ CRLF"

definition wire_ok :: "wire_header \<Rightarrow> bool" where
  "wire_ok h \<longleftrightarrow>
     1 < length (whName h) \<and> length (whName h) \<le> 63 \<and> (\<forall>c \<in> set (whName h). isValidHeaderFieldNameChar c) \<and>
     hd (whName h) \<noteq> CHR ''-'' \<and> whSep h \<noteq> [] \<and> set (whSep h) \<subseteq> separators \<and>
     whValue h \<noteq> [] \<and> length (whValue h) < 511 \<and> hd (whValue h) \<notin> separators \<and>
     CR \<notin> set (whValue h) \<and> LF \<notin> set (whValue h)"

definition wire_block :: "wire_header list \<Rightarrow> string" where
  "wire_block hs = concat (map wire_line hs) @ CRLF"

definition header_of :: "wire_header \<Rightarrow> string \<times> string" where
  "header_of h = (whName h, whValue h)"

lemma header_of_simps [simp]: "fst (header_of h) = whName h" "snd (header_of h) = whValue h"
  by (simp_all add: header_of_def)

lemma drop_append_more:
  assumes "drop i m = xs @ ys"
  shows "drop (i + length xs) m = ys"
proof -
  have "drop (i + length xs) m = drop (length xs) (drop i m)"
    by (simp add: add.commute)
  then show ?thesis using assms by simp
qed

lemma read_wire_line:
  assumes h: "wire_ok h" and mem: "drop pos mem = wire_line h @ r" and sz: "pos + length (wire_line h) \<le> sz"
    and next_ok: "deref r \<noteq> CHR '' ''" "deref r \<noteq> TAB"
  shows "readHeaderLine pos mem sz =
    \<lparr>scanPos = pos + length (wire_line h), scanName = whName h, scanLine = whValue h\<rparr>"
proof -
  let ?n = "whName h"
  obtain c sep where sep: "whSep h = c # sep" "c \<in> separators" "set sep \<subseteq> separators"
    using h by (cases "whSep h") (auto simp: wire_ok_def)
  obtain d v where v: "whValue h = d # v" "d \<notin> separators" "d \<noteq> CR" "d \<noteq> LF" "CR \<notin> set v"
      "LF \<notin> set v" "length v < 510"
    using h by (cases "whValue h") (auto simp: wire_ok_def)
  have n: "?n \<noteq> []" "length ?n \<le> 63" "\<forall>c \<in> set ?n. isValidHeaderFieldNameChar c" "hd ?n \<noteq> CHR ''-''"
    using h by (auto simp: wire_ok_def)
  have len: "length (wire_line h) = length ?n + (1 + (length sep + (1 + (length v + 2))))"
    by (simp add: wire_line_def sep(1) v(1))
  let ?s0 = "start_of_line pos"
  define s1 where "s1 = (advance (length ?n) ?s0)\<lparr>lsName := ?n\<rparr>"
  define s2 where "s2 = advance 1 (s1\<lparr>haveName := True\<rparr>)"
  define s3 where "s3 = advance (length sep) s2"
  define s4 where "s4 = advance 1 (s3\<lparr>haveStartOfValue := True, lsLine := [d]\<rparr>)"
  define s5 where "s5 = (advance (length v) s4)\<lparr>lsLine := d # v\<rparr>"
  have m0: "drop pos mem = ?n @ c # sep @ d # v @ CR # LF # r"
    using mem by (simp add: wire_line_def sep(1) v(1))
  have m1: "drop (lsPos s1) mem = c # sep @ d # v @ CR # LF # r"
    using drop_append_more [OF m0] by (simp add: s1_def start_of_line_def)
  have m2: "drop (lsPos s2) mem = sep @ d # v @ CR # LF # r"
    using drop_step [OF m1] by (simp add: s2_def)
  have m3: "drop (lsPos s3) mem = d # v @ CR # LF # r"
    using drop_append_more [OF m2] by (simp add: s3_def)
  have m4: "drop (lsPos s4) mem = v @ CR # LF # r"
    using drop_step [OF m3] by (simp add: s4_def)
  have m5: "drop (lsPos s5) mem = CR # LF # r"
    using drop_append_more [OF m4] by (simp add: s5_def)
  have f1: "\<not> haveName s1" "lsName s1 = ?n" "\<not> haveStartOfValue s1" "lsLine s1 = []" "messageIndex s1 = lsPos s1"
    "lsPos s1 = pos + length ?n"
    by (simp_all add: s1_def start_of_line_def)
  have f3: "haveName s3" "lsName s3 = ?n" "\<not> haveStartOfValue s3" "lsLine s3 = []" "messageIndex s3 = lsPos s3"
    "lsPos s3 = pos + length ?n + 1 + length sep"
    using f1 by (simp_all add: s3_def s2_def)
  have f5: "haveName s5" "lsName s5 = ?n" "lsLine s5 = d # v" "messageIndex s5 = lsPos s5"
    "lsPos s5 = pos + length ?n + 1 + length sep + 1 + length v"
    using f3 by (simp_all add: s5_def s4_def)
  have "read_line mem sz ?s0 = read_line mem sz s1"
    using read_name_phase [of ?n ?s0 mem _ sz, OF n(3) _ _ _ _ _ _ ] n m0 sz len
    by (simp add: s1_def start_of_line_def)
  also have "\<dots> = read_line mem sz s2"
    unfolding s2_def by (rule read_first_separator [OF sep(2) f1(1) _ f1(3,4) m1]) (use n f1 sz len in auto)
  also have "\<dots> = read_line mem sz s3"
    unfolding s3_def by (rule read_separator_phase [OF sep(3) _ _ _ m2]) (use f1 sz len in \<open>auto simp: s2_def\<close>)
  also have "\<dots> = read_line mem sz s4"
    unfolding s4_def by (rule read_first_value [OF v(2-4) f3(1,3,4) m3]) (use f3 sz len in auto)
  also have "\<dots> = read_line mem sz ((advance (length v) s4)\<lparr>lsLine := lsLine s4 @ v\<rparr>)"
    by (rule read_value_phase [OF v(5,6) _ _ _ m4]) (use f3 v(7) sz len in \<open>auto simp: s4_def\<close>)
  also have "\<dots> = read_line mem sz s5"
    by (simp add: s5_def s4_def)
  finally have "read_line mem sz ?s0 = read_line mem sz s5" .
  moreover obtain s' where "read_line mem sz s5 = s'" "lsPos s' = lsPos s5 + 1" "lsName s' = ?n"
      "lsLine s' = d # v"
    using read_line_end [of s5 mem r sz] f5 m5 v(7) sz len next_ok by auto
  ultimately show ?thesis
    using sz len f5(5) by (simp add: readHeaderLine_def Let_def v(1))
qed

lemma read_block_end:
  assumes "drop pos mem = CRLF @ r" and "pos + 2 = sz"
  shows "scanLine (readHeaderLine pos mem sz) = []"
proof -
  obtain s' where "read_line mem sz (start_of_line pos) = s'" "lsLine s' = []"
    using read_line_end [of "start_of_line pos" mem r sz] assms by (auto simp: start_of_line_def)
  then show ?thesis by (simp add: readHeaderLine_def Let_def)
qed

lemma deref_wire_block:
  assumes "\<forall>h \<in> set hs. wire_ok h"
  shows "deref (wire_block hs @ r) \<noteq> CHR '' ''" "deref (wire_block hs @ r) \<noteq> TAB"
proof -
  have "deref (wire_block hs @ r) \<notin> separators"
  proof (cases hs)
    case (Cons h hs')
    then obtain c n where "whName h = c # n" "isValidHeaderFieldNameChar c"
      using assms by (cases "whName h") (auto simp: wire_ok_def)
    then show ?thesis
      using Cons valid_name_char [of c] by (simp add: wire_block_def wire_line_def)
  qed (simp add: wire_block_def)
  then show "deref (wire_block hs @ r) \<noteq> CHR '' ''" "deref (wire_block hs @ r) \<noteq> TAB" by auto
qed

lemma content_type_line_data [simp]: "parserData (content_type_line line p) = parserData p"
  "processingMessage (content_type_line line p) = processingMessage p"
  "currentMessage (content_type_line line p) = currentMessage p"
  "receivedContentLength (content_type_line line p) = receivedContentLength p"
  by (simp_all add: content_type_line_def)

lemma normalised_text_simps:
  "normalised_text [] = []"
  "normalised_text (h # hs) = fst h @ '':'' @ snd h @ CRLF @ normalised_text hs"
  by (simp_all add: normalised_text_def header_line_def)

lemma normalise_loop_block:
  "\<forall>h \<in> set hs. wire_ok h \<Longrightarrow> drop pos mem = wire_block hs @ r \<Longrightarrow> pos + length (wire_block hs) = sz \<Longrightarrow>
     \<exists>p'. normalise_loop pos mem sz ss p = (ss @ normalised_text (map header_of hs), p') \<and>
       parserData p' = parserData p \<and> processingMessage p' = processingMessage p \<and>
       currentMessage p' = currentMessage p \<and> receivedContentLength p' = receivedContentLength p"
proof (induction hs arbitrary: pos ss p)
  case Nil
  then have "scanLine (readHeaderLine pos mem sz) = []"
    using read_block_end [of pos mem r sz] by (simp add: wire_block_def)
  then show ?case
    by (subst normalise_loop.simps) (simp add: Let_def normalised_text_def)
next
  case (Cons h hs)
  let ?q = "if areEquivalent (whName h) ''Content-Type'' 0 then content_type_line (whValue h) p else p"
  have m: "drop pos mem = wire_line h @ wire_block hs @ r"
    using Cons.prems(2) by (simp add: wire_block_def)
  have len: "length (wire_block (h # hs)) = length (wire_line h) + length (wire_block hs)"
    by (simp add: wire_block_def)
  have scan: "readHeaderLine pos mem sz =
      \<lparr>scanPos = pos + length (wire_line h), scanName = whName h, scanLine = whValue h\<rparr>"
    by (rule read_wire_line [OF _ m]) (use Cons.prems len deref_wire_block [of hs r] in auto)
  have "wire_ok h" using Cons.prems(1) by simp
  then have "normalise_loop pos mem sz ss p = normalise_loop (pos + length (wire_line h)) mem sz
      (ss @ whName h @ '':'' @ whValue h @ CRLF) ?q"
    by (subst normalise_loop.simps) (simp add: scan Let_def wire_ok_def)
  moreover obtain p' where "normalise_loop (pos + length (wire_line h)) mem sz
        (ss @ whName h @ '':'' @ whValue h @ CRLF) ?q =
      ((ss @ whName h @ '':'' @ whValue h @ CRLF) @ normalised_text (map header_of hs), p')"
      "parserData p' = parserData ?q" "processingMessage p' = processingMessage ?q"
      "currentMessage p' = currentMessage ?q" "receivedContentLength p' = receivedContentLength ?q"
    using Cons.IH [OF _ drop_append_more [OF m], of "ss @ whName h @ '':'' @ whValue h @ CRLF" ?q]
      Cons.prems(1,3) len by auto
  ultimately show ?case
    by (auto simp: normalised_text_simps)
qed

lemma normalise_block:
  assumes "\<forall>h \<in> set hs. wire_ok h" and "take (length (wire_block hs)) mem = wire_block hs"
  shows "\<exists>q. normaliseHeaderData mem (length (wire_block hs)) p = q \<and>
    parserData q = (parserData p)\<lparr>message := normalised_text (map header_of hs)\<rparr> \<and>
    processingMessage q = processingMessage p \<and> receivedContentLength q = receivedContentLength p"
proof -
  have m: "drop 0 mem = wire_block hs @ drop (length (wire_block hs)) mem"
    using assms(2) append_take_drop_id [of "length (wire_block hs)" mem] by simp
  obtain p' where "normalise_loop 0 mem (length (wire_block hs)) [] (p\<lparr>bodyType := Body_NONE\<rparr>) =
      (normalised_text (map header_of hs), p')" "parserData p' = parserData p"
      "processingMessage p' = processingMessage p" "receivedContentLength p' = receivedContentLength p"
    using normalise_loop_block [OF assms(1) m, of "length (wire_block hs)" "[]" "p\<lparr>bodyType := Body_NONE\<rparr>"]
    by auto
  then show ?thesis by (simp add: normaliseHeaderData_def)
qed

section \<open>Whole messages\<close>

lemma wire_ok_good: "wire_ok h \<Longrightarrow> good_header (header_of h)"
proof -
  assume h: "wire_ok h"
  have "\<not> isValidHeaderFieldNameChar NUL" "\<not> isValidHeaderFieldNameChar (CHR '':'')"
    "\<not> isValidHeaderFieldNameChar CR" "\<not> isValidHeaderFieldNameChar LF"
    by (simp_all add: isValidHeaderFieldNameChar_def ctype_defs)
  then have "c \<noteq> NUL \<and> c \<noteq> CHR '':'' \<and> c \<noteq> CR \<and> c \<noteq> LF" if "c \<in> set (whName h)" for c
    using h that unfolding wire_ok_def by metis
  then show ?thesis
    using h by (auto simp: good_header_def header_line_def wire_ok_def)
qed

lemma c_str_padded: "NUL \<notin> set s \<Longrightarrow> c_str (s @ NUL # r) = s"
  by (induction s) (auto simp: c_str_def)

lemma length_show_nat_pos: "show_nat n \<noteq> []" by simp

text \<open>
  The header block of an INVITE with a session description: what the builder makes of it, and the state in
  which the parser waits for the body.
\<close>

definition awaits_offer :: "sip_message \<Rightarrow> sip_parser \<Rightarrow> bool" where
  "awaits_offer m p \<longleftrightarrow> processingMessage p \<and> currentMessage p = Some m \<and> receivedContentLength p = 0 \<and>
     bodyType p = Body_SDP \<and> expectingBodyContentType p = Some Body_SDP"

lemma invite_header:
  assumes idle: "\<not> processingMessage p" "receivedContentLength p = 0"
    and hs: "\<forall>h \<in> set (start # rest). wire_ok h" and inv: "map toupper (whName start) = ''INVITE''"
    and mem: "take (length (wire_block (start # rest))) mem = wire_block (start # rest)"
    and via: "\<forall>h \<in> set rest. via_ok (header_of h)"
    and clen: "last_value (map header_of rest) ''CONTENT-LENGTH'' = show_nat n" "0 < n" "n < 2 ^ 31"
    and ctype: "last_value (map header_of rest) ''CONTENT-TYPE'' \<noteq> []"
      "content_type_of (buffer_of_string (last_value (map header_of rest) ''CONTENT-TYPE'')) = Body_SDP"
  shows "\<exists>m p1. (\<forall>nl. loadMessageData nl mem (length (wire_block (start # rest))) p = bindO nl (\<lambda>_. Inr (n, [], p1))) \<and>
    (\<forall>nl. builder nl \<lparr>message = normalised_text ((whName start, whValue start) # map header_of rest),
        dataBodies = dataBodies (parserData p)\<rparr> = bindO nl (\<lambda>_. Inr (Some m))) \<and>
    awaits_offer m p1 \<and> dataBodies (parserData p1) = dataBodies (parserData p) \<and>
    requestMethod m = ''INVITE'' \<and> requestType m = M_INVITE \<and> msgBodies m = dataBodies (parserData p) \<and>
    header_map_ok (msgHeaders m) \<and> header_texts (msgHeaders m) = value_map (map header_of rest) Map.empty \<and>
    (\<forall>nl. getContentLength nl m = Inr (int n)) \<and> (\<forall>nl. getContentType nl m = Inr Body_SDP)"
proof -
  let ?hs = "map header_of rest" and ?q = "normaliseHeaderData mem (length (wire_block (start # rest))) p"
  let ?d = "\<lparr>message = normalised_text ((whName start, whValue start) # ?hs), dataBodies = dataBodies (parserData p)\<rparr>"
  have q: "parserData ?q = ?d" "receivedContentLength ?q = 0"
    using normalise_block [OF hs mem, of p] idle(2) by (auto simp: header_of_def [of start])
  have good: "\<forall>h \<in> set ((whName start, whValue start) # ?hs). good_header h"
    using hs wire_ok_good unfolding header_of_def by auto
  have "\<forall>h \<in> set ?hs. via_ok h" and "map toupper (whName start) \<in> set request_names"
    using via inv by (auto simp: request_names_def)
  from builder_total [OF good this, of "dataBodies (parserData p)"]
  obtain m mv pv hm where b: "\<forall>nl. builder nl ?d = bindO nl (\<lambda>_. Inr (Some m))"
    and mk: "make_request (Inr ()) mv [pv] hm (dataBodies (parserData p)) = Inr (Some m)" "view_wf mv"
      "toString mv = whName start" "header_map_ok hm" "header_texts hm = value_map ?hs Map.empty"
    by blast
  note f = make_request_fields [OF mk(1,2)]
  have ok: "header_map_ok (msgHeaders m)" "header_texts (msgHeaders m) = value_map ?hs Map.empty"
    using mk f by simp_all
  have meth: "requestMethod m = ''INVITE''"
    using f(3) mk(3) inv by simp
  then have type: "requestType m = M_INVITE"
    using mk(1) by (auto simp: make_request_def made_def request_defs Let_def bindO_eq_Inr_iff split: if_splits)
  have len: "getContentLength nl m = Inr (int n)" and ct: "getContentType nl m = Inr Body_SDP" for nl
    using typed_values [OF ok] clen ctype by auto
  let ?p1 = "?q\<lparr>requiredContentLength := int n, currentMessage := Some m, bodyType := Body_SDP,
      expectingBodyContentType := Some Body_SDP, processingMessage := True\<rparr>"
  have "loadMessageData nl mem (length (wire_block (start # rest))) p = bindO nl (\<lambda>_. Inr (n, [], ?p1))" for nl
    using idle(1) clen(2,3) b
    by (cases nl) (simp_all add: loadMessageData_def load_header_def parseHeaderData_def q(1) len ct Let_def
        expected_body_def to_size_t_nat)
  then show ?thesis
    using b meth type ok len ct f(5) q
    by (intro exI [of _ m] exI [of _ ?p1]) (simp add: awaits_offer_def)
qed

text \<open>A first piece of the body is what the message gets.\<close>

definition with_offer :: "string \<Rightarrow> sip_message \<Rightarrow> sip_message" where
  "with_offer body m = m\<lparr>msgBodies := std_put Body_SDP body (msgBodies m)\<rparr>"

lemma with_offer_simps [simp]:
  "msgHeaders (with_offer b m) = msgHeaders m" "requestMethod (with_offer b m) = requestMethod m"
  "requestType (with_offer b m) = requestType m" "getBody Body_SDP (with_offer b m) = b"
  by (simp_all add: with_offer_def getBody_def)

lemma typed_with_offer [simp]:
  "getContentLength nl (with_offer b m) = getContentLength nl m"
  "getContentType nl (with_offer b m) = getContentType nl m"
  by (simp_all add: with_offer_def getContentLength_def getContentType_def find_header_def)

lemma load_offer:
  assumes "awaits_offer m p" and "map_of (msgBodies m) Body_SDP = None"
    and "\<And>nl. getContentLength nl m = Inr (int n)" and "\<And>nl. getContentType nl m = Inr Body_SDP"
    and "length b \<le> n" and "n < 2 ^ 31" and "NUL \<notin> set b"
  shows "\<exists>p'. (\<forall>nl. loadMessageData nl (b @ NUL # pad) (length b) p =
      Inr (if length b = n then (0, [with_offer b m], p') else (n - length b, [], p'))) \<and>
    processingMessage p' = (length b \<noteq> n) \<and> currentMessage p' = Some (with_offer b m) \<and>
    expectingBodyContentType p' = Some Body_NONE \<and>
    receivedContentLength p' = (if length b = n then 0 else int (length b))"
proof -
  have len: "to_int32 (int (length b)) = int (length b)" "length b < n \<Longrightarrow> to_size_t (int n - int (length b)) = n - length b"
    using assms(5,6) by (simp_all add: to_int32_id to_size_t_nat flip: of_nat_diff)
  have cstr: "c_string (b @ NUL # pad) = Inr b"
    using c_str_padded [OF assms(7)] by (simp add: c_string_def)
  have body: "addBody nl Body_SDP b m = Inr (with_offer b m)" for nl
    using assms(2) by (simp add: addBody_def hasBodyOf_def with_offer_def)
  show ?thesis
    using assms(1,3-5) len
    by (cases "length b = n")
      (simp_all add: awaits_offer_def loadMessageData_def load_body_def parseBodyData_def cstr add_body_def
        store_body_def body body_after_def Let_def)
qed

text \<open>
  C17: an INVITE sent as one block of header lines and its session description in one piece reaches
  the event handler exactly once, after the body: the header piece announces exactly the body's
  length as pending, and the delivered request has the fields that were sent (the last one of each
  name), and the session description that was sent, provided the parser has seen none before. If the log
  call in the constructor of the request faults, the header piece ends with that fault instead.
\<close>

theorem invite_with_body_delivered:
  assumes idle: "\<not> processingMessage p" "receivedContentLength p = 0"
    and fresh: "map_of (dataBodies (parserData p)) Body_SDP = None"
    and hs: "\<forall>h \<in> set (start # rest). wire_ok h" and inv: "map toupper (whName start) = ''INVITE''"
    and mem: "take (length (wire_block (start # rest))) mem = wire_block (start # rest)"
    and via: "\<forall>h \<in> set rest. via_ok (header_of h)"
    and clen: "last_value (map header_of rest) ''CONTENT-LENGTH'' = show_nat (length body)"
    and ctype: "last_value (map header_of rest) ''CONTENT-TYPE'' \<noteq> []"
      "content_type_of (buffer_of_string (last_value (map header_of rest) ''CONTENT-TYPE'')) = Body_SDP"
    and body: "body \<noteq> []" "length body < 2 ^ 31" "NUL \<notin> set body"
  shows "\<exists>p1 m p2. loadMessageData nl mem (length (wire_block (start # rest))) p =
      bindO nl (\<lambda>_. Inr (length body, [], p1)) \<and>
    loadMessageData nl (body @ NUL # pad) (length body) p1 = Inr (0, [m], p2) \<and>
    \<not> processingMessage p2 \<and> requestMethod m = ''INVITE'' \<and> getBody Body_SDP m = body \<and>
    fst (getFrom m) = last_value (map header_of rest) ''FROM'' \<and>
    fst (getTo m) = last_value (map header_of rest) ''TO'' \<and>
    fst (getCallId m) = last_value (map header_of rest) ''CALL-ID'' \<and>
    fst (getCSequence m) = last_value (map header_of rest) ''CSEQ''"
proof -
  have "0 < length body" using body(1) by simp
  from invite_header [OF idle hs inv mem via clen this body(2) ctype]
  obtain m p1 where p1: "\<forall>nl. loadMessageData nl mem (length (wire_block (start # rest))) p = bindO nl (\<lambda>_. Inr (length body, [], p1))"
    and m: "awaits_offer m p1" "requestMethod m = ''INVITE''" "msgBodies m = dataBodies (parserData p)"
      "header_map_ok (msgHeaders m)" "header_texts (msgHeaders m) = value_map (map header_of rest) Map.empty"
      "\<forall>nl. getContentLength nl m = Inr (int (length body))" "\<forall>nl. getContentType nl m = Inr Body_SDP"
    by blast
  obtain p2 where p2: "loadMessageData nl (body @ NUL # pad) (length body) p1 = Inr (0, [with_offer body m], p2)"
      "\<not> processingMessage p2"
    using load_offer [OF m(1) _ _ _ order_refl body(2,3), of pad] m(3,6,7) fresh by auto
  have "fst (header_value_at k (with_offer body m)) = last_value (map header_of rest) k" for k
    using fst_getters [of "with_offer body m"] m(4,5) by simp
  then show ?thesis
    using p1 p2 m(2) unfolding getFrom_def getTo_def getCallId_def getCSequence_def
    by (intro exI [of _ p1] exI [of _ "with_offer body m"] exI [of _ p2]) simp
qed

definition sample_start :: wire_header where
  "sample_start = \<lparr>whName = ''INVITE'', whSep = '' '', whValue = ''sip:b@y SIP/2.0''\<rparr>"

definition sample_wire :: "wire_header list" where
  "sample_wire =
     [\<lparr>whName = ''From'', whSep = '': '', whValue = ''<sip:a@x>;tag=1''\<rparr>,
      \<lparr>whName = ''To'', whSep = '':'', whValue = ''<sip:b@y>''\<rparr>,
      \<lparr>whName = ''Call-ID'', whSep = '': '', whValue = ''77@x''\<rparr>,
      \<lparr>whName = ''CSeq'', whSep = '': '', whValue = ''1 INVITE''\<rparr>,
      \<lparr>whName = ''Content-Type'', whSep = '': '', whValue = ''application/sdp''\<rparr>,
      \<lparr>whName = ''Content-Length'', whSep = '': '', whValue = ''3''\<rparr>]"

lemma sample_wire_ok: "\<forall>h \<in> set (sample_start # sample_wire). wire_ok h"
  by (simp add: sample_start_def sample_wire_def wire_ok_def isValidHeaderFieldNameChar_def ctype_defs)

lemma sample_wire_values:
  "map toupper (whName sample_start) = ''INVITE''"
  "last_value (map header_of sample_wire) ''CONTENT-LENGTH'' = show_nat (length ''v=0'')"
  "last_value (map header_of sample_wire) ''CONTENT-TYPE'' = ''application/sdp''"
  "\<forall>h \<in> set sample_wire. via_ok (header_of h)"
  by (simp_all add: via_ok_def sample_start_def sample_wire_def header_eval show_nat.simps digit_char_def)

lemma sample_content_type: "content_type_of (buffer_of_string ''application/sdp'') = Body_SDP"
  by code_simp

theorem invite_with_body_delivered_witness:
  "\<exists>p1 m p2. loadMessageData (Inr ()) (wire_block (sample_start # sample_wire))
      (length (wire_block (sample_start # sample_wire))) new_sip_parser =
      bindO (Inr ()) (\<lambda>_. Inr (length ''v=0'', [], p1)) \<and>
    loadMessageData (Inr ()) (''v=0'' @ NUL # []) (length ''v=0'') p1 = Inr (0, [m], p2) \<and>
    \<not> processingMessage p2 \<and> requestMethod m = ''INVITE'' \<and> getBody Body_SDP m = ''v=0'' \<and>
    fst (getFrom m) = last_value (map header_of sample_wire) ''FROM'' \<and>
    fst (getTo m) = last_value (map header_of sample_wire) ''TO'' \<and>
    fst (getCallId m) = last_value (map header_of sample_wire) ''CALL-ID'' \<and>
    fst (getCSequence m) = last_value (map header_of sample_wire) ''CSEQ''"
  by (rule invite_with_body_delivered [OF _ _ _ sample_wire_ok sample_wire_values(1) _ sample_wire_values(4,2)])
    (simp_all add: new_sip_parser_def sample_wire_values(3) sample_content_type)

section \<open>Bodies that are not the message's own\<close>

fun load_pieces :: "logging \<Rightarrow> (string \<times> nat) list \<Rightarrow> sip_parser \<Rightarrow> (sip_message list \<times> sip_parser) outcome" where
  "load_pieces nl [] p = Inr ([], p)"
| "load_pieces nl ((mem, len) # ps) p =
     bindO (loadMessageData nl mem len p) (\<lambda>(n, ms, p).
     bindO (load_pieces nl ps p) (\<lambda>(ms', p). Inr (ms @ ms', p)))"

definition stored_offer :: "string \<Rightarrow> sip_parser \<Rightarrow> bool" where
  "stored_offer sdp p \<longleftrightarrow> map_of (dataBodies (parserData p)) Body_SDP = Some sdp \<and>
     (\<forall>m. processingMessage p \<longrightarrow> currentMessage p = Some m \<longrightarrow> requestType m = M_INVITE \<longrightarrow>
        map_of (msgBodies m) Body_SDP = Some sdp)"

lemma normalise_loop_data: "parserData (snd (normalise_loop pos mem sz ss p)) = parserData p"
proof (induction pos mem sz ss p rule: normalise_loop.induct)
  case (1 pos mem sz ss p)
  then show ?case by (subst normalise_loop.simps) (auto simp: Let_def)
qed

lemma normaliseHeaderData_bodies:
  "dataBodies (parserData (normaliseHeaderData mem sz p)) = dataBodies (parserData p)"
  using normalise_loop_data [of 0 mem sz "[]" "p\<lparr>bodyType := Body_NONE\<rparr>"]
  by (cases "normalise_loop 0 mem sz [] (p\<lparr>bodyType := Body_NONE\<rparr>)")
    (simp add: normaliseHeaderData_def)

lemma builder_bodies:
  "builder nl d = Inr (Some m) \<Longrightarrow> requestType m = M_INVITE \<Longrightarrow> msgBodies m = dataBodies d"
  by (auto simp: builder_def bindO_eq_Inr_iff make_request_def made_def request_defs Let_def
      split: list.splits if_splits)

lemma load_header_offer:
  assumes "stored_offer sdp p" and "load_header nl mem len p = Inr (n, ms, p')"
  shows "stored_offer sdp p' \<and> (\<forall>m \<in> set ms. requestType m = M_INVITE \<longrightarrow> getBody Body_SDP m = sdp)"
proof -
  let ?q = "normaliseHeaderData mem len p"
  have d: "map_of (dataBodies (parserData ?q)) Body_SDP = Some sdp"
    using assms(1) by (simp add: stored_offer_def normaliseHeaderData_bodies)
  obtain msg q where q: "parseHeaderData nl mem len p = Inr (msg, q)"
      "msg \<noteq> None \<longrightarrow> builder nl (parserData ?q) = Inr msg" "parserData q = parserData ?q"
    using assms(2) by (fastforce simp: load_header_def parseHeaderData_def bindO_eq_Inr_iff Let_def
        split: option.splits if_splits)
  then have b: "requestType m = M_INVITE \<longrightarrow> map_of (msgBodies m) Body_SDP = Some sdp" if "msg = Some m" for m
    using that d builder_bodies [of nl "parserData ?q" m] by auto
  show ?thesis
    using assms(2) b d q(3)
    by (auto simp: load_header_def q(1) stored_offer_def getBody_def Let_def bindO_eq_Inr_iff
        split: option.splits if_splits)
qed

lemma store_body_offer:
  "stored_offer sdp p \<Longrightarrow> stored_offer sdp (store_body t b p)"
  "processingMessage (store_body t b p) = processingMessage p"
  by (simp_all add: stored_offer_def store_body_def sm.ins_keeps)

lemma add_body_offer:
  assumes "stored_offer sdp p" and "add_body nl t b p = Inr p'"
  shows "stored_offer sdp p'" and "processingMessage p' = processingMessage p"
  using assms
  by (auto simp: stored_offer_def add_body_def addBody_def hasBodyOf_def bindO_eq_Inr_iff
      split: option.splits if_splits)

lemma expect_offer:
  "stored_offer sdp (p\<lparr>expectingBodyContentType := e\<rparr>) = stored_offer sdp p"
  by (simp add: stored_offer_def)

lemma parseBodyData_offer:
  assumes "stored_offer sdp p" and "processingMessage p" and "parseBodyData nl mem len p = Inr p'"
  shows "stored_offer sdp p' \<and> processingMessage p'"
proof -
  obtain e where e: "expectingBodyContentType p = Some e"
    using assms(3) by (cases "expectingBodyContentType p") (auto simp: parseBodyData_def initialised_def)
  have q: "stored_offer sdp q \<and> processingMessage q"
    if "add_body nl t b (store_body t' b' p) = Inr q" for t b t' b' q
    using add_body_offer [OF store_body_offer(1) [OF assms(1)] that] assms(2)
    by (simp add: store_body_offer(2))
  show ?thesis
    using assms q store_body_offer
    by (cases e) (auto simp: parseBodyData_def e bindO_eq_Inr_iff expect_offer Let_def)
qed

lemma load_body_offer:
  assumes "stored_offer sdp p" and "processingMessage p" and "load_body nl mem len p = Inr (n, ms, p')"
  shows "stored_offer sdp p' \<and> (\<forall>m \<in> set ms. requestType m = M_INVITE \<longrightarrow> getBody Body_SDP m = sdp)"
proof -
  let ?p = "p\<lparr>receivedContentLength := to_int32 (receivedContentLength p + int len)\<rparr>"
  have "stored_offer sdp ?p" "processingMessage ?p"
    using assms(1,2) by (simp_all add: stored_offer_def)
  moreover obtain q where q: "parseBodyData nl mem len ?p = Inr q"
    using assms(3) by (auto simp: load_body_def bindO_eq_Inr_iff split: option.splits)
  ultimately have "stored_offer sdp q" "processingMessage q"
    using parseBodyData_offer by blast+
  then show ?thesis
    using assms(3) q
    by (auto simp: load_body_def stored_offer_def getBody_def bindO_eq_Inr_iff split: option.splits if_splits)
qed

text \<open>
  C31: \<^verbatim>\<open>data.bodies\<close> is never cleared and never overwritten. Once a parser has stored a session
  description, every INVITE it delivers later has that one as its session description, whatever
  follows: on UDP, where all calls share one parser, every later call is offered the first call's
  media.
\<close>

theorem later_invites_get_the_first_offer:
  assumes "map_of (dataBodies (parserData p)) Body_SDP = Some sdp" and "\<not> processingMessage p"
    and "load_pieces nl pieces p = Inr (ms, p')"
  shows "\<forall>m \<in> set ms. requestType m = M_INVITE \<longrightarrow> getBody Body_SDP m = sdp"
proof -
  have "\<forall>m \<in> set ms. requestType m = M_INVITE \<longrightarrow> getBody Body_SDP m = sdp"
    if "stored_offer sdp p" "load_pieces nl pieces p = Inr (ms, p')" for p ms p'
    using that
  proof (induction pieces arbitrary: p ms)
    case (Cons piece ps)
    obtain mem len where piece: "piece = (mem, len)" by (cases piece)
    obtain n ms1 p1 ms2 where l: "loadMessageData nl mem len p = Inr (n, ms1, p1)"
        "load_pieces nl ps p1 = Inr (ms2, p')" "ms = ms1 @ ms2"
      using Cons.prems(2) by (auto simp: piece bindO_eq_Inr_iff)
    have "stored_offer sdp p1 \<and> (\<forall>m \<in> set ms1. requestType m = M_INVITE \<longrightarrow> getBody Body_SDP m = sdp)"
      using l(1) load_header_offer [OF Cons.prems(1)] load_body_offer [OF Cons.prems(1)]
      by (auto simp: loadMessageData_def split: if_splits)
    then show ?case
      using Cons.IH [of p1 ms2] l(2,3) by auto
  qed simp
  moreover have "stored_offer sdp p"
    using assms(1,2) by (simp add: stored_offer_def)
  ultimately show ?thesis
    using assms(3) by blast
qed

definition used_parser :: sip_parser where
  "used_parser = new_sip_parser\<lparr>parserData := \<lparr>message = [], dataBodies = [(Body_SDP, ''first'')]\<rparr>\<rparr>"

theorem later_invites_get_the_first_offer_witness:
  "\<exists>m p'. load_pieces (Inr ()) [(wire_block (sample_start # sample_wire), length (wire_block (sample_start # sample_wire))),
      (''v=0'' @ NUL # [], length ''v=0'')] used_parser = Inr ([m], p') \<and>
    requestType m = M_INVITE \<and> getBody Body_SDP m = ''first''"
proof -
  let ?n = "length (wire_block (sample_start # sample_wire))"
  have idle: "\<not> processingMessage used_parser" "receivedContentLength used_parser = 0"
    "map_of (dataBodies (parserData used_parser)) Body_SDP = Some ''first''"
    by (simp_all add: used_parser_def new_sip_parser_def)
  obtain m p1 where p1: "\<forall>nl. loadMessageData nl (wire_block (sample_start # sample_wire)) ?n used_parser =
      bindO nl (\<lambda>_. Inr (length ''v=0'', [], p1))"
    and m: "awaits_offer m p1" "requestType m = M_INVITE" "msgBodies m = dataBodies (parserData used_parser)"
      "\<forall>nl. getContentLength nl m = Inr (int (length ''v=0''))" "\<forall>nl. getContentType nl m = Inr Body_SDP"
    using invite_header [OF idle(1,2) sample_wire_ok sample_wire_values(1) _ sample_wire_values(4,2),
        of "wire_block (sample_start # sample_wire)"]
    by (simp add: sample_wire_values(3) sample_content_type) blast
  have "\<exists>p2. loadMessageData (Inr ()) (''v=0'' @ NUL # []) (length ''v=0'') p1 = Inr (0, [m], p2)"
    using m idle(3)
    by (simp add: awaits_offer_def loadMessageData_def load_body_def parseBodyData_def c_string_def add_body_def
        store_body_def addBody_def hasBodyOf_def body_after_def Let_def to_int32_id)
  then obtain p2 where l: "load_pieces (Inr ()) [(wire_block (sample_start # sample_wire), ?n),
      (''v=0'' @ NUL # [], length ''v=0'')] used_parser = Inr ([m], p2)"
    using p1 by (auto simp: bindO_eq_Inr_iff)
  then show ?thesis
    using later_invites_get_the_first_offer [OF idle(3,1) l] m(2) by auto
qed

text \<open>
  C34: a session description that arrives in two pieces, as TCP may cut it, is delivered without its
  second piece: after the header block of an INVITE (unless the log call of the request's constructor
  faults there) and the first piece the parser expects no body any more, and the second one is
  counted but dropped.
\<close>

theorem split_body_is_truncated:
  assumes idle: "\<not> processingMessage p" "receivedContentLength p = 0"
    and fresh: "map_of (dataBodies (parserData p)) Body_SDP = None"
    and hs: "\<forall>h \<in> set (start # rest). wire_ok h" and inv: "map toupper (whName start) = ''INVITE''"
    and mem: "take (length (wire_block (start # rest))) mem = wire_block (start # rest)"
    and via: "\<forall>h \<in> set rest. via_ok (header_of h)"
    and clen: "last_value (map header_of rest) ''CONTENT-LENGTH'' = show_nat (length (b1 @ b2))"
    and ctype: "last_value (map header_of rest) ''CONTENT-TYPE'' \<noteq> []"
      "content_type_of (buffer_of_string (last_value (map header_of rest) ''CONTENT-TYPE'')) = Body_SDP"
    and b: "b1 \<noteq> []" "b2 \<noteq> []" "length (b1 @ b2) < 2 ^ 31" "NUL \<notin> set b1"
  shows "\<exists>p1 p2 m p3. loadMessageData nl mem (length (wire_block (start # rest))) p =
      bindO nl (\<lambda>_. Inr (length (b1 @ b2), [], p1)) \<and>
    loadMessageData nl (b1 @ NUL # pad1) (length b1) p1 = Inr (length b2, [], p2) \<and>
    loadMessageData nl (b2 @ NUL # pad2) (length b2) p2 = Inr (0, [m], p3) \<and> getBody Body_SDP m = b1"
proof -
  have "0 < length (b1 @ b2)" using b(1) by simp
  from invite_header [OF idle hs inv mem via clen this b(3) ctype]
  obtain m p1 where p1: "\<forall>nl. loadMessageData nl mem (length (wire_block (start # rest))) p = bindO nl (\<lambda>_. Inr (length (b1 @ b2), [], p1))"
    and m: "awaits_offer m p1" "msgBodies m = dataBodies (parserData p)"
      "\<forall>nl. getContentLength nl m = Inr (int (length (b1 @ b2)))" "\<forall>nl. getContentType nl m = Inr Body_SDP"
    by blast
  obtain p2 where p2: "loadMessageData nl (b1 @ NUL # pad1) (length b1) p1 = Inr (length b2, [], p2)"
      "processingMessage p2" "currentMessage p2 = Some (with_offer b1 m)"
      "receivedContentLength p2 = int (length b1)" "expectingBodyContentType p2 = Some Body_NONE"
    using load_offer [OF m(1) _ _ _ _ b(3,4), of pad1] m(2,3,4) fresh b(2) by auto
  have len: "to_int32 (int (length b1) + int (length b2)) = int (length b1) + int (length b2)"
    using b(3) by (simp add: to_int32_id)
  have "\<exists>p3. loadMessageData nl (b2 @ NUL # pad2) (length b2) p2 = Inr (0, [with_offer b1 m], p3)"
    using p2(2-5) m(3,4) len by (simp add: loadMessageData_def load_body_def parseBodyData_def Let_def)
  then obtain p3 where "loadMessageData nl (b2 @ NUL # pad2) (length b2) p2 = Inr (0, [with_offer b1 m], p3)" ..
  then show ?thesis
    using p1 p2(1) by (intro exI [of _ p1] exI [of _ p2] exI [of _ "with_offer b1 m"] exI [of _ p3]) simp
qed

theorem split_body_is_truncated_witness:
  "\<exists>p1 p2 m p3. loadMessageData (Inr ()) (wire_block (sample_start # sample_wire))
      (length (wire_block (sample_start # sample_wire))) new_sip_parser =
      bindO (Inr ()) (\<lambda>_. Inr (length (''v='' @ ''0''), [], p1)) \<and>
    loadMessageData (Inr ()) (''v='' @ NUL # []) (length ''v='') p1 = Inr (length ''0'', [], p2) \<and>
    loadMessageData (Inr ()) (''0'' @ NUL # []) (length ''0'') p2 = Inr (0, [m], p3) \<and> getBody Body_SDP m = ''v=''"
  by (rule split_body_is_truncated [OF _ _ _ sample_wire_ok sample_wire_values(1) _ sample_wire_values(4)])
    (simp_all add: new_sip_parser_def sample_wire_values sample_content_type)

text \<open>
  A multipart body that holds nothing but line ends makes the parser read the first element of
  an empty vector.
\<close>

theorem blank_multipart_body_faults:
  assumes "expectingBodyContentType p = Some Body_BOUNDARY" and "len \<le> length mem"
    and "set (take len mem) \<subseteq> {CR, LF}"
  shows "parseBodyData nl mem len p = Inl OutOfBounds"
proof -
  have "tokens (\<lambda>c. c = CR \<or> c = LF) s = []" if "set s \<subseteq> {CR, LF}" for s
    using that by (induction s) auto
  then have "map toString (buffer_split_lines (view mem len)) = []"
    using assms(2,3) by (simp add: buffer_split_lines_tokens toString_view)
  then show ?thesis
    using assms(1) by (simp add: parseBodyData_def parse_boundary_def)
qed

theorem blank_multipart_body_faults_witness:
  "parseBodyData nl (CRLF @ [NUL]) 2 (new_sip_parser\<lparr>expectingBodyContentType := Some Body_BOUNDARY\<rparr>) =
    Inl OutOfBounds"
  by (rule blank_multipart_body_faults) simp_all

text \<open>
  a header name with a NUL byte is stored under the part before it: such a name makes an object
  of another class the entry that the Via accessors cast.
\<close>

theorem nul_in_name_confuses_classes:
  "case loadMessageData (Inr ()) (''INVITE x'' @ CRLF @ '':VIA'' @ [NUL] @ '':y'' @ CRLF @ CRLF) 20 new_sip_parser of
     Inr (0, [m], p) \<Rightarrow> getRemotePort m = Inl BadCast
   | _ \<Rightarrow> False"
  by code_simp

end
