(* ===== verification/SipDialogue.thy ===== *)
theory SipDialogue
  imports SipParser
begin

text \<open>
  Model of \<^verbatim>\<open>src/src/components/sip/SipDialogue.{h,cpp}\<close>, \<^verbatim>\<open>SipTransaction.h\<close> and
  \<^verbatim>\<open>SipDialogueManager.{h,cpp}\<close>. Messages and dialogues are heap objects that several parts refer to,
  so a pointer is an index into the list of the objects allocated so far (nothing is freed) and the
  null pointer is \<^const>\<open>None\<close>; the lists are part of the manager's state. A transaction is owned by
  its dialogue and is stored in it. Every accessor the code calls, also those called only for a log
  line, is called here, since some of them change the message. The manager of this theory has the logger
  its constructor looked up; SipInterface accounts for the one manager of the program, which found none.
\<close>

section \<open>Dialogues and transactions\<close>

datatype dialogue_state = NONE | INCOMING | OUTGOING | CONNECTED | CLEARING | CLEARED

record sip_transaction =
  transChannelId :: u32
  sipRequest :: "nat option"
  sdpOffer :: string

record sip_dialogue =
  dialogueCallId :: string
  dialogueChannelId :: u32
  currentTransaction :: "sip_transaction option"
  responseTag :: string
  dialogueState :: dialogue_state
  recordingState :: bool
  dialogueTransport :: transport_type

record dialogue_manager =
  channelToDialogueMap :: "(u32, nat) std_map"
  callIdToDialogueMap :: "(string, nat) std_map"
  lastChannelId :: u32
  dialogues :: "sip_dialogue list"
  messages :: "sip_message list"

definition new_dialogue_manager :: dialogue_manager where
  "new_dialogue_manager = \<lparr>channelToDialogueMap = [], callIdToDialogueMap = [], lastChannelId = 0,
     dialogues = [], messages = []\<rparr>"

definition empty_transaction :: sip_transaction where
  "empty_transaction = \<lparr>transChannelId = 0, sipRequest = None, sdpOffer = []\<rparr>"

definition SipTransaction :: "u32 \<Rightarrow> nat \<Rightarrow> string \<Rightarrow> sip_transaction" where
  "SipTransaction channelId request sdp =
     \<lparr>transChannelId = channelId, sipRequest = Some request, sdpOffer = sdp\<rparr>"

definition getStateStr :: "sip_dialogue \<Rightarrow> string" where
  "getStateStr d = (case dialogueState d of
       INCOMING \<Rightarrow> ''INCOMING''
     | OUTGOING \<Rightarrow> ''OUTGOING''
     | CONNECTED \<Rightarrow> ''CONNECTED''
     | CLEARING \<Rightarrow> ''CLEARING''
     | CLEARED \<Rightarrow> ''CLEARED''
     | NONE \<Rightarrow> ''NONE'')"

section \<open>Objects behind pointers\<close>

definition message_at :: "nat \<Rightarrow> dialogue_manager \<Rightarrow> sip_message outcome" where
  "message_at a s = (if a < length (messages s) then Inr (messages s ! a) else Inl NullDeref)"

definition with_message :: "nat \<Rightarrow> (sip_message \<Rightarrow> ('a \<times> sip_message) outcome) \<Rightarrow> dialogue_manager \<Rightarrow>
    ('a \<times> dialogue_manager) outcome" where
  "with_message a f s =
     bindO (message_at a s) (\<lambda>m.
     bindO (f m) (\<lambda>(x, m'). Inr (x, s\<lparr>messages := (messages s)[a := m']\<rparr>)))"

definition dialogue_at :: "nat \<Rightarrow> dialogue_manager \<Rightarrow> sip_dialogue outcome" where
  "dialogue_at d s = (if d < length (dialogues s) then Inr (dialogues s ! d) else Inl NullDeref)"

definition set_dialogue :: "nat \<Rightarrow> sip_dialogue \<Rightarrow> dialogue_manager \<Rightarrow> dialogue_manager" where
  "set_dialogue d x s = s\<lparr>dialogues := (dialogues s)[d := x]\<rparr>"

abbreviation callId_of :: "sip_message \<Rightarrow> (string \<times> sip_message) outcome" where
  "callId_of m \<equiv> Inr (getCallId m)"

abbreviation cseq_of :: "sip_message \<Rightarrow> (string \<times> sip_message) outcome" where
  "cseq_of m \<equiv> Inr (getCSequence m)"

definition SipTransaction_getType :: "sip_transaction \<Rightarrow> dialogue_manager \<Rightarrow> message_type outcome" where
  "SipTransaction_getType t s =
     (case sipRequest t of
        Some a \<Rightarrow> bindO (message_at a s) (\<lambda>m. Inr (requestType m))
      | None \<Rightarrow> Inr M_UNKNOWN)"

definition SipTransaction_toString :: "sip_transaction \<Rightarrow> string" where
  "SipTransaction_toString t =
     ''Transaction'' @ '' [channelId='' @ show_nat (unat (transChannelId t)) @ '']'' @
     '' [Request='' @ (case sipRequest t of Some a \<Rightarrow> ''Request'' | None \<Rightarrow> ''NONE'') @ '']'' @
     '' [SdpOffer='' @ sdpOffer t @ '']''"

section \<open>Operations of a dialogue\<close>

definition setCurrentTransaction :: "nat \<Rightarrow> sip_message \<Rightarrow> sip_dialogue \<Rightarrow> sip_dialogue" where
  "setCurrentTransaction a request d =
     (if currentTransaction d \<noteq> None then d
      else d\<lparr>currentTransaction := Some (SipTransaction (dialogueChannelId d) a
               (if requestType request = M_INVITE then getBody Body_SDP request else []))\<rparr>)"

definition endCurrentTransaction :: "sip_dialogue \<Rightarrow> sip_dialogue" where
  "endCurrentTransaction d = d\<lparr>currentTransaction := None\<rparr>"

definition SipDialogue :: "u32 \<Rightarrow> nat \<Rightarrow> dialogue_manager \<Rightarrow> (sip_dialogue \<times> dialogue_manager) outcome" where
  "SipDialogue channelId a s =
     bindO (with_message a callId_of s) (\<lambda>(callId, s).
     bindO (message_at a s) (\<lambda>request.
       Inr (setCurrentTransaction a request
              \<lparr>dialogueCallId = callId, dialogueChannelId = channelId, currentTransaction = None,
               responseTag = ''temporary-response-tag'', dialogueState = NONE,
               recordingState = False, dialogueTransport = Transport_UDP\<rparr>, s)))"

section \<open>Operations of the manager\<close>

definition retrieveDialogue :: "string \<Rightarrow> dialogue_manager \<Rightarrow> nat option" where
  "retrieveDialogue callId s = map_of (callIdToDialogueMap s) callId"

definition retrieveDialogueByChannel :: "u32 \<Rightarrow> dialogue_manager \<Rightarrow> nat option" where
  "retrieveDialogueByChannel channelId s = map_of (channelToDialogueMap s) channelId"

definition getNextChannelId :: "dialogue_manager \<Rightarrow> u32 \<times> dialogue_manager" where
  "getNextChannelId s = (lastChannelId s + 1, s\<lparr>lastChannelId := lastChannelId s + 1\<rparr>)"

definition add_dialogue :: "u32 \<Rightarrow> string \<Rightarrow> sip_dialogue \<Rightarrow> dialogue_manager \<Rightarrow> dialogue_manager" where
  "add_dialogue channelId callId x s =
     (let d = length (dialogues s)
      in s\<lparr>dialogues := dialogues s @ [x],
           channelToDialogueMap := std_insert channelId d (channelToDialogueMap s),
           callIdToDialogueMap := std_insert callId d (callIdToDialogueMap s)\<rparr>)"

definition startTransaction :: "nat option \<Rightarrow> dialogue_manager \<Rightarrow>
    (sip_transaction option \<times> dialogue_manager) outcome" where
  "startTransaction request s =
     (case request of
        None \<Rightarrow> Inr (None, s)
      | Some a \<Rightarrow>
          bindO (with_message a callId_of s) (\<lambda>(callId, s).
          bindO (with_message a callId_of s) (\<lambda>(key, s).
            if map_of (callIdToDialogueMap s) key \<noteq> None then Inr (None, s)
            else
              (case retrieveDialogue callId s of
                 Some d \<Rightarrow>
                   bindO (dialogue_at d s) (\<lambda>x.
                   bindO (message_at a s) (\<lambda>m.
                     let x = setCurrentTransaction a m x
                     in Inr (currentTransaction x, set_dialogue d x s)))
               | None \<Rightarrow>
                   (let (channelId, s) = getNextChannelId s
                    in bindO (SipDialogue channelId a s) (\<lambda>(x, s).
                         Inr (currentTransaction x, add_dialogue channelId callId x s)))))))"

definition getTransaction :: "u32 \<Rightarrow> dialogue_manager \<Rightarrow> sip_transaction option outcome" where
  "getTransaction channelId s =
     (case retrieveDialogueByChannel channelId s of
        None \<Rightarrow> Inr None
      | Some d \<Rightarrow> bindO (dialogue_at d s) (\<lambda>x. Inr (currentTransaction x)))"

definition endTransaction :: "u32 \<Rightarrow> dialogue_manager \<Rightarrow> dialogue_manager outcome" where
  "endTransaction channelId s =
     (case retrieveDialogueByChannel channelId s of
        None \<Rightarrow> Inr s
      | Some d \<Rightarrow> bindO (dialogue_at d s) (\<lambda>x. Inr (set_dialogue d (endCurrentTransaction x) s)))"

definition releaseDialogue :: "u32 \<Rightarrow> dialogue_manager \<Rightarrow> dialogue_manager" where
  "releaseDialogue channelId s = s"

text \<open>
  An \<^verbatim>\<open>INVITE\<close> for a known dialogue: when the stored transaction is an \<^verbatim>\<open>INVITE\<close> of another sequence,
  the new message is marked as a re-INVITE. The first reading of the stored sequence is a log argument.
\<close>

definition repeated_invite :: "nat \<Rightarrow> sip_transaction \<Rightarrow> dialogue_manager \<Rightarrow>
    (sip_transaction option \<times> dialogue_manager) outcome" where
  "repeated_invite a t s =
     (case sipRequest t of
        None \<Rightarrow> Inl NullDeref
      | Some r \<Rightarrow>
          bindO (with_message r cseq_of s) (\<lambda>(_, s).
          bindO (message_at r s) (\<lambda>stored.
            if requestType stored = M_INVITE then
              bindO (with_message a cseq_of s) (\<lambda>(sequence, s).
              bindO (with_message r cseq_of s) (\<lambda>(storedSequence, s).
                if sequence \<noteq> storedSequence then
                  bindO (with_message a (\<lambda>m. Inr ((), isReinvite True m)) s) (\<lambda>(_, s). Inr (Some t, s))
                else Inr (Some t, s)))
            else Inr (Some t, s))))"

definition invite_transaction :: "nat \<Rightarrow> dialogue_manager \<Rightarrow>
    (sip_transaction option \<times> dialogue_manager) outcome" where
  "invite_transaction a s =
     bindO (with_message a callId_of s) (\<lambda>(callId, s).
       case retrieveDialogue callId s of
         Some d \<Rightarrow>
           bindO (dialogue_at d s) (\<lambda>x.
             case currentTransaction x of
               None \<Rightarrow> Inr (None, s)
             | Some t \<Rightarrow> repeated_invite a t s)
       | None \<Rightarrow>
           bindO (startTransaction (Some a) s) (\<lambda>(transaction, s).
             case transaction of
               None \<Rightarrow> Inl NullDeref
             | Some t \<Rightarrow> Inr (Some t, s)))"

definition updateTransaction :: "nat option \<Rightarrow> dialogue_manager \<Rightarrow>
    (sip_transaction option \<times> dialogue_manager) outcome" where
  "updateTransaction sipMessage s =
     (case sipMessage of
        None \<Rightarrow> Inr (None, s)
      | Some a \<Rightarrow>
          bindO (message_at a s) (\<lambda>m.
            if isRequest m then
              if requestType m = M_INVITE then invite_transaction a s
              else
                bindO (with_message a callId_of s) (\<lambda>(callId, s).
                  case retrieveDialogue callId s of
                    None \<Rightarrow> Inr (None, s)
                  | Some d \<Rightarrow> bindO (dialogue_at d s) (\<lambda>x. Inr (currentTransaction x, s)))
            else
              bindO (with_message a callId_of s) (\<lambda>(callId, s).
                case retrieveDialogue callId s of
                  None \<Rightarrow> Inr (None, s)
                | Some d \<Rightarrow>
                    bindO (dialogue_at d s) (\<lambda>x.
                    bindO (with_message a (\<lambda>m. Inr ((), setChannelId (dialogueChannelId x) m)) s)
                      (\<lambda>(_, s). Inr (None, s))))))"

section \<open>What reading a message changes\<close>

text \<open>
  The accessors only add null entries to the header map. \<open>message_extends\<close> is the relation between a
  message and what it is after any number of reads; the re-INVITE flag may change too, and the channel
  of a response.
\<close>

definition message_extends :: "sip_message \<Rightarrow> sip_message \<Rightarrow> bool" where
  "message_extends m m' \<longleftrightarrow>
     requestType m' = requestType m \<and> isRequest m' = isRequest m \<and> msgBodies m' = msgBodies m \<and>
     (isRequest m \<longrightarrow> msgChannelId m' = msgChannelId m) \<and>
     (\<forall>k r. map_of (msgHeaders m) k = Some r \<longrightarrow> map_of (msgHeaders m') k = Some r) \<and>
     (\<forall>k h. map_of (msgHeaders m') k = Some (Some h) \<longrightarrow> map_of (msgHeaders m) k = Some (Some h))"

definition polite :: "(sip_message \<Rightarrow> ('a \<times> sip_message) outcome) \<Rightarrow> bool" where
  "polite f \<longleftrightarrow> (\<forall>m x m'. f m = Inr (x, m') \<longrightarrow> message_extends m m')"

lemma message_extends_refl [simp, intro]: "message_extends m m"
  by (simp add: message_extends_def)

lemma message_extends_trans:
  "message_extends m1 m2 \<Longrightarrow> message_extends m2 m3 \<Longrightarrow> message_extends m1 m3"
  unfolding message_extends_def by metis

lemma message_extends_fields:
  assumes "message_extends m m'"
  shows "requestType m' = requestType m" and "isRequest m' = isRequest m" and "getBody t m' = getBody t m"
  using assms by (simp_all add: message_extends_def getBody_def)

lemma header_at_extends: "message_extends m (snd (header_at k m))"
  by (auto simp: message_extends_def header_at_def split: option.splits)

lemma header_value_at_snd: "snd (header_value_at k m) = snd (header_at k m)"
  by (simp add: header_value_at_def split: prod.split option.split)

lemma header_value_extends:
  assumes "message_extends m m'"
  shows "fst (header_value_at k m') = fst (header_value_at k m)"
proof (cases "map_of (msgHeaders m) k")
  case None
  then have "map_of (msgHeaders m') k = None \<or> map_of (msgHeaders m') k = Some None"
    using assms unfolding message_extends_def by (metis not_None_eq option.distinct(1))
  with None show ?thesis by (auto simp: header_value_at_def header_at_def)
next
  case (Some r)
  then have "map_of (msgHeaders m') k = Some r"
    using assms unfolding message_extends_def by blast
  with Some show ?thesis
    by (simp add: header_value_at_def header_at_def split: option.split)
qed

lemma politeI:
  "(\<And>m x m'. f m = Inr (x, m') \<Longrightarrow> message_extends m m') \<Longrightarrow> polite f"
  by (simp add: polite_def)

lemma politeD: "polite f \<Longrightarrow> f m = Inr (x, m') \<Longrightarrow> message_extends m m'"
  by (simp add: polite_def)

lemma polite_return [intro]: "polite (\<lambda>m. Inr (x, m))"
  by (auto simp: polite_def)

lemma polite_bind:
  assumes "polite f" and "\<And>x. polite (g x)"
  shows "polite (\<lambda>m. bindO (f m) (\<lambda>(x, m'). g x m'))"
proof (rule politeI)
  fix m y m' assume "bindO (f m) (\<lambda>(x, m'). g x m') = Inr (y, m')"
  then obtain x m1 where "f m = Inr (x, m1)" and "g x m1 = Inr (y, m')"
    by (auto simp: bindO_eq_Inr_iff)
  then show "message_extends m m'"
    using assms message_extends_trans unfolding polite_def by metis
qed

lemma polite_view:
  "(\<And>x. polite (g x)) \<Longrightarrow> polite (\<lambda>m. bindO (h m) (\<lambda>x. g x m))"
  unfolding polite_def bindO_eq_Inr_iff by blast

lemma polite_header_value: "polite (\<lambda>m. Inr (header_value_at k m))"
proof (rule politeI)
  fix m x m' assume "(Inr (header_value_at k m) :: (string \<times> sip_message) outcome) = Inr (x, m')"
  then have "m' = snd (header_at k m)"
    using header_value_at_snd [of k m] by simp
  then show "message_extends m m'"
    using header_at_extends [of m k] by simp
qed

lemma polite_getters:
  "polite (\<lambda>m. Inr (getCallId m))" "polite (\<lambda>m. Inr (getCSequence m))" "polite (\<lambda>m. Inr (getTo m))"
  "polite (\<lambda>m. Inr (getFrom m))"
  by (simp_all add: getCallId_def getCSequence_def getTo_def getFrom_def polite_header_value)

lemma polite_via_getters:
  "polite getRemoteAddress" "polite getRemotePort" "polite getTransportType"
  using header_at_extends [where k = "''VIA''"]
  by (fastforce intro!: politeI simp: getRemoteAddress_def getRemotePort_def getTransportType_def
      bindO_eq_Inr_iff split: prod.splits option.splits dest: arg_cong [of _ _ snd])+

lemma polite_base: "polite (buildStandardBaseResponse nl meth localTag)"
proof -
  have step: "message_extends n m \<Longrightarrow> message_extends n (snd (header_value_at k m))" for n m k
    using header_at_extends [of m k] message_extends_trans by (auto simp: header_value_at_snd)
  show ?thesis
    by (auto intro!: politeI step simp: buildStandardBaseResponse_def bindO_eq_Inr_iff Let_def
        case_prod_beta getFrom_def getTo_def getCallId_def getCSequence_def)
qed

lemma polite_after:
  assumes "polite f"
  shows "polite (\<lambda>m. bindO (f m) (\<lambda>(s, m). Inr (g s, m)))"
  by (rule polite_bind [OF assms]) (rule polite_return)

lemma polite_builds:
  "polite (buildTryingResponse nl localTag)" "polite (buildOkResponse nl localTag)"
  "polite (buildSubscriptionAcceptedResponse nl localTag)" "polite (buildAnswerResponse nl localTag sdp)"
proof -
  have full: "polite (buildStandardFullResponse nl meth localTag)" for meth
    unfolding buildStandardFullResponse_def [abs_def] by (rule polite_after [OF polite_base])
  then show "polite (buildTryingResponse nl localTag)" "polite (buildOkResponse nl localTag)"
    by (simp_all add: buildTryingResponse_def [abs_def] buildOkResponse_def [abs_def])
  show "polite (buildSubscriptionAcceptedResponse nl localTag)"
    by (simp add: buildSubscriptionAcceptedResponse_def [abs_def] polite_base)
  show "polite (buildAnswerResponse nl localTag sdp)"
    unfolding buildAnswerResponse_def [abs_def] by (rule polite_after [OF polite_base])
qed

lemma polite_isReinvite: "polite (\<lambda>m. Inr ((), isReinvite b m))"
  by (simp add: polite_def isReinvite_def message_extends_def)

lemmas polite_all = polite_getters polite_via_getters polite_builds polite_isReinvite

lemma setChannelId_extends: "\<not> isRequest m \<Longrightarrow> message_extends m (setChannelId c m)"
  by (simp add: message_extends_def setChannelId_def)

section \<open>What reading does to the manager\<close>

definition quiet :: "dialogue_manager \<Rightarrow> dialogue_manager \<Rightarrow> bool" where
  "quiet s s' \<longleftrightarrow> s' = s\<lparr>messages := messages s'\<rparr> \<and> list_all2 message_extends (messages s) (messages s')"

lemma quiet_refl [simp, intro]: "quiet s s"
  by (simp add: quiet_def list_all2_refl)

lemma quiet_trans:
  assumes "quiet s1 s2" and "quiet s2 s3"
  shows "quiet s1 s3"
proof -
  have "list_all2 message_extends (messages s1) (messages s3)"
    by (rule list_all2_trans [OF message_extends_trans]) (use assms in \<open>auto simp: quiet_def\<close>)
  moreover have "s3 = s1\<lparr>messages := messages s3\<rparr>"
  proof -
    have "s3 = s2\<lparr>messages := messages s3\<rparr>" and "s2 = s1\<lparr>messages := messages s2\<rparr>"
      using assms by (auto simp: quiet_def)
    then show ?thesis
      by (metis dialogue_manager.surjective dialogue_manager.update_convs(5))
  qed
  ultimately show ?thesis by (simp add: quiet_def)
qed

lemma quiet_fields:
  assumes "quiet s s'"
  shows "dialogues s' = dialogues s" and "callIdToDialogueMap s' = callIdToDialogueMap s"
    and "channelToDialogueMap s' = channelToDialogueMap s" and "lastChannelId s' = lastChannelId s"
    and "length (messages s') = length (messages s)"
    and "a < length (messages s) \<Longrightarrow> message_extends (messages s ! a) (messages s' ! a)"
proof -
  have eq: "s' = s\<lparr>messages := messages s'\<rparr>"
    and all: "list_all2 message_extends (messages s) (messages s')"
    using assms by (auto simp: quiet_def)
  show "dialogues s' = dialogues s" "callIdToDialogueMap s' = callIdToDialogueMap s"
    "channelToDialogueMap s' = channelToDialogueMap s" "lastChannelId s' = lastChannelId s"
    by (subst eq, simp)+
  show "length (messages s') = length (messages s)"
    using all by (simp add: list_all2_lengthD)
  show "a < length (messages s) \<Longrightarrow> message_extends (messages s ! a) (messages s' ! a)"
    using all by (simp add: list_all2_nthD)
qed

lemma with_message_Inr:
  "with_message a f s = Inr (x, s') \<longleftrightarrow> a < length (messages s) \<and>
    (\<exists>m'. f (messages s ! a) = Inr (x, m') \<and> s' = s\<lparr>messages := (messages s)[a := m']\<rparr>)"
  by (auto simp: with_message_def message_at_def bindO_eq_Inr_iff split: if_splits)

lemma set_message_quiet:
  assumes "a < length (messages s)" and "message_extends (messages s ! a) m'"
  shows "quiet s (s\<lparr>messages := (messages s)[a := m']\<rparr>)"
  using assms by (auto simp: quiet_def list_all2_conv_all_nth nth_list_update)

lemma with_message_quiet:
  "polite f \<Longrightarrow> with_message a f s = Inr (x, s') \<Longrightarrow> quiet s s'"
  by (auto simp: with_message_Inr intro: set_message_quiet dest: politeD)

lemma with_callId:
  assumes "with_message a callId_of s = Inr (x, s')"
  shows "quiet s s'" and "a < length (messages s)" and "x = fst (getCallId (messages s ! a))"
  using with_message_quiet [OF polite_getters(1) assms] assms by (auto simp: with_message_Inr)

lemma callId_extends: "message_extends m m' \<Longrightarrow> fst (getCallId m') = fst (getCallId m)"
  by (simp add: getCallId_def header_value_extends)

lemma cseq_extends: "message_extends m m' \<Longrightarrow> fst (getCSequence m') = fst (getCSequence m)"
  by (simp add: getCSequence_def header_value_extends)

section \<open>The two indexes of the dialogues\<close>

text \<open>
  A store whose items are found under two keys. The dialogue manager keeps a map from channels and one
  from call ids; a client only needs that both find exactly the live items under their keys.
\<close>

locale two_index =
  fixes wf :: "'s \<Rightarrow> bool"
    and live :: "'s \<Rightarrow> 'd \<Rightarrow> bool"
    and find1 :: "'s \<Rightarrow> 'a \<Rightarrow> 'd option" and key1 :: "'s \<Rightarrow> 'd \<Rightarrow> 'a"
    and find2 :: "'s \<Rightarrow> 'b \<Rightarrow> 'd option" and key2 :: "'s \<Rightarrow> 'd \<Rightarrow> 'b"
  assumes find1_iff: "wf s \<Longrightarrow> find1 s a = Some d \<longleftrightarrow> live s d \<and> key1 s d = a"
    and find2_iff: "wf s \<Longrightarrow> find2 s b = Some d \<longleftrightarrow> live s d \<and> key2 s d = b"
begin

lemma find1_key: "wf s \<Longrightarrow> live s d \<Longrightarrow> find1 s (key1 s d) = Some d"
  by (simp add: find1_iff)

lemma find2_key: "wf s \<Longrightarrow> live s d \<Longrightarrow> find2 s (key2 s d) = Some d"
  by (simp add: find2_iff)

lemma key1_inject: "wf s \<Longrightarrow> live s d \<Longrightarrow> live s e \<Longrightarrow> key1 s d = key1 s e \<longleftrightarrow> d = e"
  using find1_key by (metis option.inject)

lemma key2_inject: "wf s \<Longrightarrow> live s d \<Longrightarrow> live s e \<Longrightarrow> key2 s d = key2 s e \<longleftrightarrow> d = e"
  using find2_key by (metis option.inject)

lemma found_agree: "wf s \<Longrightarrow> find2 s b = Some d \<Longrightarrow> find1 s (key1 s d) = Some d"
  by (simp add: find1_iff find2_iff)

lemma not_found2: "wf s \<Longrightarrow> find2 s b = None \<Longrightarrow> live s d \<Longrightarrow> key2 s d \<noteq> b"
  using find2_key by fastforce

end

definition dialogue_ok :: "sip_message list \<Rightarrow> sip_dialogue \<Rightarrow> bool" where
  "dialogue_ok ms x \<longleftrightarrow> responseTag x = ''temporary-response-tag'' \<and>
     (\<exists>a. a < length ms \<and> requestType (ms ! a) = M_INVITE \<and>
        dialogueCallId x = fst (getCallId (ms ! a)) \<and>
        currentTransaction x = Some (SipTransaction (dialogueChannelId x) a (getBody Body_SDP (ms ! a))))"

definition live_dialogue :: "dialogue_manager \<Rightarrow> nat \<Rightarrow> bool" where
  "live_dialogue s d \<longleftrightarrow> d < length (dialogues s)"

definition channel_of :: "dialogue_manager \<Rightarrow> nat \<Rightarrow> u32" where
  "channel_of s d = dialogueChannelId (dialogues s ! d)"

definition call_of :: "dialogue_manager \<Rightarrow> nat \<Rightarrow> string" where
  "call_of s d = dialogueCallId (dialogues s ! d)"

definition manager_inv :: "dialogue_manager \<Rightarrow> bool" where
  "manager_inv s \<longleftrightarrow>
     unat (lastChannelId s) = length (dialogues s) \<and>
     (\<forall>d < length (dialogues s). channel_of s d = of_nat (Suc d) \<and> dialogue_ok (messages s) (dialogues s ! d)) \<and>
     (\<forall>k d. map_of (channelToDialogueMap s) k = Some d \<longleftrightarrow> live_dialogue s d \<and> channel_of s d = k) \<and>
     (\<forall>k d. map_of (callIdToDialogueMap s) k = Some d \<longleftrightarrow> live_dialogue s d \<and> call_of s d = k) \<and>
     std_wf (channelToDialogueMap s) \<and> std_wf (callIdToDialogueMap s)"

interpretation dm: two_index manager_inv live_dialogue
  "\<lambda>s k. retrieveDialogueByChannel k s" channel_of "\<lambda>s k. retrieveDialogue k s" call_of
  by unfold_locales (auto simp: manager_inv_def retrieveDialogue_def retrieveDialogueByChannel_def)

lemma manager_inv_new: "manager_inv new_dialogue_manager"
  by (simp add: manager_inv_def new_dialogue_manager_def live_dialogue_def)

lemma dialogue_ok_extends:
  assumes "list_all2 message_extends ms ms'" and "dialogue_ok ms x"
  shows "dialogue_ok ms' x"
proof -
  have "length ms' = length ms" "\<And>a. a < length ms \<Longrightarrow> message_extends (ms ! a) (ms' ! a)"
    using assms(1) by (auto simp: list_all2_conv_all_nth)
  moreover obtain a where "a < length ms" "requestType (ms ! a) = M_INVITE"
      "dialogueCallId x = fst (getCallId (ms ! a))"
      "currentTransaction x = Some (SipTransaction (dialogueChannelId x) a (getBody Body_SDP (ms ! a)))"
    using assms(2) by (auto simp: dialogue_ok_def)
  ultimately show ?thesis
    using assms(2) callId_extends [of "ms ! a" "ms' ! a"] message_extends_fields(1,3) [of "ms ! a" "ms' ! a"]
    by (auto simp: dialogue_ok_def)
qed

lemma dialogue_ok_more: "dialogue_ok ms x \<Longrightarrow> dialogue_ok (ms @ ms') x"
  unfolding dialogue_ok_def by (metis length_append nth_append trans_less_add1)

lemma manager_inv_dialogue:
  assumes "manager_inv s" and "live_dialogue s d"
  shows "dialogue_ok (messages s) (dialogues s ! d)"
  using assms by (simp add: manager_inv_def live_dialogue_def)

lemma quiet_inv:
  assumes "quiet s s'" and "manager_inv s"
  shows "manager_inv s'"
proof -
  have "list_all2 message_extends (messages s) (messages s')"
    using assms(1) by (simp add: quiet_def)
  then show ?thesis
    using assms(2) quiet_fields [OF assms(1)]
    by (auto simp: manager_inv_def live_dialogue_def channel_of_def call_of_def intro: dialogue_ok_extends)
qed

lemma message_inv:
  "manager_inv s \<Longrightarrow> manager_inv (s\<lparr>messages := messages s @ [m]\<rparr>)"
  by (auto simp: manager_inv_def live_dialogue_def channel_of_def call_of_def intro: dialogue_ok_more)

lemma set_dialogue_inv:
  assumes "manager_inv s" and "live_dialogue s d"
    and "dialogueChannelId x = channel_of s d" and "dialogueCallId x = call_of s d"
    and "responseTag x = responseTag (dialogues s ! d)"
    and "currentTransaction x = currentTransaction (dialogues s ! d)"
  shows "manager_inv (set_dialogue d x s)"
proof -
  have keys: "channel_of (set_dialogue d x s) = channel_of s" "call_of (set_dialogue d x s) = call_of s"
    using assms(2-4)
    by (auto simp: fun_eq_iff channel_of_def call_of_def set_dialogue_def live_dialogue_def nth_list_update)
  have "dialogue_ok (messages s) x"
    using manager_inv_dialogue [OF assms(1,2)] assms(3-6)
    by (auto simp: dialogue_ok_def channel_of_def call_of_def)
  then show ?thesis
    using assms(1,2) keys
    by (auto simp: manager_inv_def live_dialogue_def set_dialogue_def nth_list_update)
qed

section \<open>What an incoming message does to the manager\<close>

text \<open>The dialogue a new \<^verbatim>\<open>INVITE\<close> at address \<open>a\<close> gets.\<close>

definition fresh_dialogue :: "u32 \<Rightarrow> nat \<Rightarrow> sip_message \<Rightarrow> sip_dialogue" where
  "fresh_dialogue ch a m = \<lparr>dialogueCallId = fst (getCallId m), dialogueChannelId = ch,
     currentTransaction = Some (SipTransaction ch a (getBody Body_SDP m)),
     responseTag = ''temporary-response-tag'', dialogueState = NONE, recordingState = False,
     dialogueTransport = Transport_UDP\<rparr>"

definition opened :: "nat \<Rightarrow> dialogue_manager \<Rightarrow> dialogue_manager \<Rightarrow> bool" where
  "opened a s s' \<longleftrightarrow>
     (\<exists>s1 ch. quiet s s1 \<and> ch = lastChannelId s + 1 \<and>
        s' = add_dialogue ch (fst (getCallId (messages s ! a))) (fresh_dialogue ch a (messages s ! a))
               (s1\<lparr>lastChannelId := ch\<rparr>))"

lemma opened_fields:
  assumes "opened a s s'"
  shows "dialogues s' = dialogues s @ [fresh_dialogue (lastChannelId s + 1) a (messages s ! a)]"
    and "list_all2 message_extends (messages s) (messages s')"
    and "lastChannelId s' = lastChannelId s + 1"
    and "channelToDialogueMap s' = std_insert (lastChannelId s + 1) (length (dialogues s)) (channelToDialogueMap s)"
    and "callIdToDialogueMap s' =
      std_insert (fst (getCallId (messages s ! a))) (length (dialogues s)) (callIdToDialogueMap s)"
proof -
  obtain s1 where s1: "quiet s s1" and s': "s' = add_dialogue (lastChannelId s + 1)
      (fst (getCallId (messages s ! a))) (fresh_dialogue (lastChannelId s + 1) a (messages s ! a))
      (s1\<lparr>lastChannelId := lastChannelId s + 1\<rparr>)"
    using assms by (auto simp: opened_def)
  then show "dialogues s' = dialogues s @ [fresh_dialogue (lastChannelId s + 1) a (messages s ! a)]"
    "list_all2 message_extends (messages s) (messages s')"
    "lastChannelId s' = lastChannelId s + 1"
    "channelToDialogueMap s' = std_insert (lastChannelId s + 1) (length (dialogues s)) (channelToDialogueMap s)"
    "callIdToDialogueMap s' =
      std_insert (fst (getCallId (messages s ! a))) (length (dialogues s)) (callIdToDialogueMap s)"
    using quiet_fields(1-3) [OF s1] s1 by (simp_all add: add_dialogue_def Let_def quiet_def)
qed

lemma opened_keys:
  assumes "opened a s s'" and "live_dialogue s d"
  shows "channel_of s' d = channel_of s d" and "call_of s' d = call_of s d"
  using assms(2) opened_fields(1) [OF assms(1)]
  by (simp_all add: channel_of_def call_of_def live_dialogue_def nth_append)

lemma opened_new_keys:
  assumes "opened a s s'"
  shows "channel_of s' (length (dialogues s)) = lastChannelId s + 1"
    and "call_of s' (length (dialogues s)) = fst (getCallId (messages s ! a))"
  using opened_fields(1) [OF assms] by (simp_all add: channel_of_def call_of_def fresh_dialogue_def)

lemma index_extend:
  fixes n :: nat
  assumes "\<And>k d. f k = Some d \<longleftrightarrow> d < n \<and> key d = k" and "\<And>d. d < n \<Longrightarrow> key' d = key d"
    and "f (key' n) = None"
  shows "(f(key' n \<mapsto> n)) k = Some d \<longleftrightarrow> (d < n \<or> d = n) \<and> key' d = k"
proof (cases "k = key' n")
  case True
  have "d < n \<Longrightarrow> key' d \<noteq> key' n"
    using assms by (metis option.distinct(1))
  then show ?thesis using True by auto
next
  case False
  then show ?thesis using assms(1,2) by auto
qed

lemma opened_inv:
  assumes "opened a s s'" and "manager_inv s" and "retrieveDialogue (fst (getCallId (messages s ! a))) s = None"
    and "a < length (messages s)" and "requestType (messages s ! a) = M_INVITE"
    and "length (dialogues s) + 1 < 2 ^ 32"
  shows "manager_inv s'"
proof -
  let ?n = "length (dialogues s)" and ?ch = "lastChannelId s + 1"
  note fields = opened_fields [OF assms(1)]
  note keys = opened_keys [OF assms(1)] opened_new_keys [OF assms(1)]
  have last: "unat (lastChannelId s) = ?n"
    using assms(2) by (simp add: manager_inv_def)
  then have ch: "unat ?ch = Suc ?n"
    using assms(6) by (rule u32_unat_Suc)
  then have ch': "?ch = of_nat (Suc ?n)"
    by (rule u32_of_nat_unat)
  have chans: "channel_of s d = of_nat (Suc d)" if "d < ?n" for d
    using assms(2) that by (simp add: manager_inv_def)
  have new: "channel_of s d \<noteq> ?ch" if "d < ?n" for d
  proof
    assume eq: "channel_of s d = ?ch"
    have "unat (of_nat (Suc d) :: u32) = Suc d"
      using that assms(6) by (intro u32_unat_of_nat) simp
    then have "unat (channel_of s d) = Suc d"
      using chans [OF that] by simp
    then show False using eq ch that by simp
  qed
  have find: "map_of (channelToDialogueMap s) ?ch = None"
    using new dm.find1_iff [OF assms(2), of ?ch]
    by (cases "map_of (channelToDialogueMap s) ?ch")
      (auto simp: retrieveDialogueByChannel_def live_dialogue_def)
  have ok: "dialogue_ok (messages s') (dialogues s' ! d)" if "d < length (dialogues s')" for d
  proof (cases "d < ?n")
    case True
    then have "dialogue_ok (messages s) (dialogues s ! d)"
      using assms(2) by (simp add: manager_inv_def)
    then show ?thesis
      using True fields(1,2) dialogue_ok_extends by (simp add: nth_append)
  next
    case False
    have "dialogue_ok (messages s) (fresh_dialogue ?ch a (messages s ! a))"
      using assms(4,5) by (auto simp: dialogue_ok_def fresh_dialogue_def)
    then show ?thesis
      using False that fields(1,2) dialogue_ok_extends by (simp add: nth_append)
  qed
  have old: "map_of (channelToDialogueMap s) k = Some d \<longleftrightarrow> d < ?n \<and> channel_of s d = k"
    "map_of (callIdToDialogueMap s) c = Some d \<longleftrightarrow> d < ?n \<and> call_of s d = c" for k c d
    using dm.find1_iff [OF assms(2)] dm.find2_iff [OF assms(2)]
    by (simp_all add: retrieveDialogueByChannel_def retrieveDialogue_def live_dialogue_def)
  have live: "live_dialogue s' d \<longleftrightarrow> d < ?n \<or> d = ?n" for d
    using fields(1) by (auto simp: live_dialogue_def)
  have keys': "channel_of s' d = channel_of s d" "call_of s' d = call_of s d" if "d < ?n" for d
    using keys(1,2) that by (simp_all add: live_dialogue_def)
  have none: "map_of (callIdToDialogueMap s) (fst (getCallId (messages s ! a))) = None"
    using assms(3) by (simp add: retrieveDialogue_def)
  have by_channel: "map_of (channelToDialogueMap s') k = Some d \<longleftrightarrow> live_dialogue s' d \<and> channel_of s' d = k" for k d
    using index_extend [OF old(1) keys'(1)] by (simp add: fields(4) sm.lookup_ins keys(3) find live)
  have by_call: "map_of (callIdToDialogueMap s') k = Some d \<longleftrightarrow> live_dialogue s' d \<and> call_of s' d = k" for k d
    using index_extend [OF old(2) keys'(2)] by (simp add: fields(5) sm.lookup_ins keys(4) none live)
  have "channel_of s' d = of_nat (Suc d)" if "d < length (dialogues s')" for d
  proof (cases "d < ?n")
    case True
    then show ?thesis using chans keys'(1) by simp
  next
    case False
    then have "d = ?n" using that fields(1) by simp
    then show ?thesis using keys(3) ch' by metis
  qed
  moreover have "std_wf (channelToDialogueMap s')" "std_wf (callIdToDialogueMap s')"
    using assms(2) by (simp_all add: fields manager_inv_def sm.wf_ins)
  moreover have "unat (lastChannelId s') = length (dialogues s')"
    using ch fields(1,3) by simp
  ultimately show ?thesis
    unfolding manager_inv_def using by_channel by_call ok by blast
qed

lemma new_dialogue:
  assumes "SipDialogue ch a s = Inr (x, s')" and "requestType (messages s ! a) = M_INVITE"
  shows "quiet s s' \<and> x = fresh_dialogue ch a (messages s ! a)"
proof -
  obtain c m where c: "with_message a callId_of s = Inr (c, s')" and m: "message_at a s' = Inr m"
    and x: "x = setCurrentTransaction a m \<lparr>dialogueCallId = c, dialogueChannelId = ch,
      currentTransaction = None, responseTag = ''temporary-response-tag'', dialogueState = NONE,
      recordingState = False, dialogueTransport = Transport_UDP\<rparr>"
    using assms(1) by (auto simp: SipDialogue_def bindO_eq_Inr_iff)
  note c = with_callId [OF c]
  have "message_extends (messages s ! a) m"
    using m quiet_fields(6) [OF c(1,2)] by (auto simp: message_at_def split: if_splits)
  then show ?thesis
    using x c assms(2) message_extends_fields [of "messages s ! a" m]
    by (simp add: setCurrentTransaction_def fresh_dialogue_def)
qed

lemma startTransaction_opens:
  assumes "startTransaction (Some a) s = Inr (r, s')"
    and "retrieveDialogue (fst (getCallId (messages s ! a))) s = None"
    and "requestType (messages s ! a) = M_INVITE"
  shows "opened a s s' \<and> r = currentTransaction (fresh_dialogue (lastChannelId s + 1) a (messages s ! a))"
proof -
  let ?c = "fst (getCallId (messages s ! a))" and ?ch = "lastChannelId s + 1"
  obtain c s1 key s2 where 1: "with_message a callId_of s = Inr (c, s1)"
    and 2: "with_message a callId_of s1 = Inr (key, s2)"
    and rest: "(if map_of (callIdToDialogueMap s2) key \<noteq> None then Inr (None, s2)
      else (case retrieveDialogue c s2 of
        Some d \<Rightarrow> bindO (dialogue_at d s2) (\<lambda>x. bindO (message_at a s2) (\<lambda>m.
          let x = setCurrentTransaction a m x in Inr (currentTransaction x, set_dialogue d x s2)))
      | None \<Rightarrow> (let (channelId, s) = getNextChannelId s2
          in bindO (SipDialogue channelId a s) (\<lambda>(x, s).
               Inr (currentTransaction x, add_dialogue channelId c x s))))) = Inr (r, s')"
    using assms(1) by (auto simp: startTransaction_def bindO_eq_Inr_iff)
  note 1 = with_callId [OF 1] and 2 = with_callId [OF 2]
  have ext: "message_extends (messages s ! a) (messages s1 ! a)" "message_extends (messages s ! a) (messages s2 ! a)"
    using quiet_fields(6) [OF 1(1,2)] quiet_fields(6) [OF quiet_trans [OF 1(1) 2(1)] 1(2)] by simp_all
  then have keys: "c = ?c" "key = ?c"
    using 1(3) 2(3) callId_extends by simp_all
  have q: "quiet s s2" by (rule quiet_trans [OF 1(1) 2(1)])
  have none: "retrieveDialogue ?c s2 = None" "map_of (callIdToDialogueMap s2) ?c = None"
    using assms(2) quiet_fields(2) [OF q] by (simp_all add: retrieveDialogue_def)
  let ?s3 = "s2\<lparr>lastChannelId := ?ch\<rparr>"
  obtain x s4 where new: "SipDialogue ?ch a ?s3 = Inr (x, s4)"
    and r: "r = currentTransaction x" and s': "s' = add_dialogue ?ch ?c x s4"
    using rest none quiet_fields(4) [OF q] by (auto simp: keys getNextChannelId_def bindO_eq_Inr_iff)
  have q4: "quiet ?s3 s4" "x = fresh_dialogue ?ch a (messages s2 ! a)"
    using new_dialogue [OF new] assms(3) message_extends_fields(1) [OF ext(2)] by simp_all
  have x: "x = fresh_dialogue ?ch a (messages s ! a)"
    using q4(2) message_extends_fields(3) [OF ext(2)] callId_extends [OF ext(2)]
    by (simp add: fresh_dialogue_def)
  have "quiet s (s4\<lparr>lastChannelId := lastChannelId s\<rparr>)"
    using quiet_trans [OF q, of "s4\<lparr>lastChannelId := lastChannelId s\<rparr>"] q4(1) quiet_fields(4) [OF q]
    by (cases s2, cases s4) (auto simp: quiet_def)
  moreover have "s' = add_dialogue ?ch ?c x (s4\<lparr>lastChannelId := lastChannelId s, lastChannelId := ?ch\<rparr>)"
    using quiet_fields(4) [OF q4(1)] s' by (cases s4) simp
  ultimately show ?thesis
    unfolding opened_def r x by (metis dialogue_manager.update_convs(3) dialogue_manager.fold_congs(3))
qed

text \<open>
  The update of the manager for an incoming message: a request that opens a dialogue, or a change that
  only reads, with the current transaction of the dialogue of the call.
\<close>

definition updated :: "nat \<Rightarrow> dialogue_manager \<Rightarrow> sip_transaction option \<Rightarrow> dialogue_manager \<Rightarrow> bool" where
  "updated a s r s' \<longleftrightarrow>
     (let m = messages s ! a; dialogue = retrieveDialogue (fst (getCallId m)) s
      in if isRequest m \<and> requestType m = M_INVITE \<and> dialogue = None then opened a s s' \<and> r \<noteq> None
         else quiet s s' \<and>
           r = (if isRequest m then (case dialogue of None \<Rightarrow> None | Some d \<Rightarrow> currentTransaction (dialogues s ! d))
                else None))"

lemma repeated_invite_quiet:
  assumes "repeated_invite a t s = Inr (r, s')"
  shows "quiet s s' \<and> r = Some t"
  using assms
  by (auto simp: repeated_invite_def bindO_eq_Inr_iff split: option.splits if_splits
      dest!: with_message_quiet [OF polite_getters(2)] with_message_quiet [OF polite_isReinvite]
      intro: quiet_trans)

lemma updateTransaction_updated:
  assumes "updateTransaction (Some a) s = Inr (r, s')"
  shows "a < length (messages s) \<and> updated a s r s'"
proof -
  have a: "a < length (messages s)" and m: "message_at a s = Inr (messages s ! a)"
    using assms by (auto simp: updateTransaction_def message_at_def bindO_eq_Inr_iff split: if_splits)
  let ?m = "messages s ! a" and ?c = "fst (getCallId (messages s ! a))"
  consider (invite) "isRequest ?m" "requestType ?m = M_INVITE" | (other) "isRequest ?m" "requestType ?m \<noteq> M_INVITE"
    | (response) "\<not> isRequest ?m" by blast
  then show ?thesis
  proof cases
    case invite
    then obtain c s1 where c: "with_message a callId_of s = Inr (c, s1)"
      and rest: "(case retrieveDialogue c s1 of
         Some d \<Rightarrow> bindO (dialogue_at d s1) (\<lambda>x. case currentTransaction x of
             None \<Rightarrow> Inr (None, s1) | Some t \<Rightarrow> repeated_invite a t s1)
       | None \<Rightarrow> bindO (startTransaction (Some a) s1) (\<lambda>(transaction, s).
             case transaction of None \<Rightarrow> Inl NullDeref | Some t \<Rightarrow> Inr (Some t, s))) = Inr (r, s')"
      using assms m by (auto simp: updateTransaction_def invite_transaction_def bindO_eq_Inr_iff)
    note c = with_callId [OF c]
    note f = quiet_fields [OF c(1)]
    have ext: "message_extends ?m (messages s1 ! a)"
      by (rule f(6) [OF a])
    show ?thesis
    proof (cases "retrieveDialogue ?c s")
      case (Some d)
      then have "retrieveDialogue c s1 = Some d"
        using c(3) f(2) by (simp add: retrieveDialogue_def)
      then have "(case currentTransaction (dialogues s ! d) of
          None \<Rightarrow> Inr (None, s1) | Some t \<Rightarrow> repeated_invite a t s1) = Inr (r, s')"
        using rest f(1) by (auto simp: dialogue_at_def bindO_eq_Inr_iff split: if_splits)
      then have "quiet s s' \<and> r = currentTransaction (dialogues s ! d)"
        using c(1) repeated_invite_quiet quiet_trans by (fastforce split: option.splits)
      then show ?thesis
        using Some invite a by (simp add: updated_def)
    next
      case None
      have "retrieveDialogue c s1 = None"
        using None c(3) f(2) by (simp add: retrieveDialogue_def)
      then have start: "startTransaction (Some a) s1 = Inr (r, s')" and "r \<noteq> None"
        using rest by (auto simp: bindO_eq_Inr_iff split: option.splits)
      have "opened a s1 s'"
        using startTransaction_opens [OF start] None c(3) f(2) message_extends_fields(1) [OF ext]
          callId_extends [OF ext] invite(2)
        by (simp add: retrieveDialogue_def)
      then have "opened a s s'"
        using quiet_trans [OF c(1)] f(4) callId_extends [OF ext] message_extends_fields(3) [OF ext]
        by (auto simp: opened_def fresh_dialogue_def)
      then show ?thesis
        using None invite a \<open>r \<noteq> None\<close> by (simp add: updated_def)
    qed
  next
    case other
    then obtain c s1 where c: "with_message a callId_of s = Inr (c, s1)"
      and rest: "(case retrieveDialogue c s1 of None \<Rightarrow> Inr (None, s1)
        | Some d \<Rightarrow> bindO (dialogue_at d s1) (\<lambda>x. Inr (currentTransaction x, s1))) = Inr (r, s')"
      using assms m by (auto simp: updateTransaction_def bindO_eq_Inr_iff)
    note c = with_callId [OF c]
    have found: "retrieveDialogue c s1 = retrieveDialogue ?c s"
      using c(3) quiet_fields(2) [OF c(1)] by (simp add: retrieveDialogue_def)
    then show ?thesis
      using rest c(1) other a quiet_fields(1) [OF c(1)]
      by (cases "retrieveDialogue ?c s")
        (auto simp: updated_def dialogue_at_def bindO_eq_Inr_iff split: if_splits)
  next
    case response
    then obtain c s1 where c: "with_message a callId_of s = Inr (c, s1)"
      and rest: "(case retrieveDialogue c s1 of None \<Rightarrow> Inr (None, s1)
        | Some d \<Rightarrow> bindO (dialogue_at d s1) (\<lambda>x.
            bindO (with_message a (\<lambda>m. Inr ((), setChannelId (dialogueChannelId x) m)) s1)
              (\<lambda>(_, s). Inr (None, s)))) = Inr (r, s')"
      using assms m by (auto simp: updateTransaction_def bindO_eq_Inr_iff)
    note c = with_callId [OF c]
    have "\<not> isRequest (messages s1 ! a)"
      using response message_extends_fields(2) [OF quiet_fields(6) [OF c(1) a]] by simp
    then have "quiet s1 (s1\<lparr>messages := (messages s1)[a := setChannelId ch (messages s1 ! a)]\<rparr>)" for ch
      using set_message_quiet setChannelId_extends a quiet_fields(5) [OF c(1)] by metis
    then have "quiet s s' \<and> r = None"
      using rest c(1) quiet_trans
      by (auto simp: bindO_eq_Inr_iff with_message_Inr split: option.splits)
    then show ?thesis
      using response a by (simp add: updated_def)
  qed
qed

lemma updated_inv:
  assumes "updated a s r s'" and "manager_inv s" and "a < length (messages s)"
    and "length (dialogues s) + 1 < 2 ^ 32"
  shows "manager_inv s'"
  using assms opened_inv quiet_inv by (auto simp: updated_def Let_def split: if_splits)

section \<open>No message makes the manager fail\<close>

lemma with_getter_total:
  "a < length (messages s) \<Longrightarrow> \<exists>s'. with_message a (\<lambda>m. Inr (f m)) s = Inr (fst (f (messages s ! a)), s')"
  by (simp add: with_message_def message_at_def case_prod_beta)

lemma repeated_invite_total:
  assumes "a < length (messages s)" and "r < length (messages s)" and "sipRequest t = Some r"
  shows "\<exists>s'. repeated_invite a t s = Inr (Some t, s')"
proof -
  obtain c s1 where 1: "with_message r cseq_of s = Inr (c, s1)"
    using with_getter_total [OF assms(2), of getCSequence] by blast
  note len1 = quiet_fields(5) [OF with_message_quiet [OF polite_getters(2) 1]]
  obtain c2 s2 where 2: "with_message a cseq_of s1 = Inr (c2, s2)"
    using with_getter_total [of a s1 getCSequence] assms(1) len1 by auto
  note len2 = quiet_fields(5) [OF with_message_quiet [OF polite_getters(2) 2]]
  obtain c3 s3 where 3: "with_message r cseq_of s2 = Inr (c3, s3)"
    using with_getter_total [of r s2 getCSequence] assms(2) len1 len2 by auto
  note len3 = quiet_fields(5) [OF with_message_quiet [OF polite_getters(2) 3]]
  show ?thesis
    using assms len1 len2 len3 1 2 3
    by (auto simp: repeated_invite_def message_at_def with_message_def [of a "\<lambda>m. Inr ((), isReinvite True m)"])
qed

lemma startTransaction_total:
  assumes "a < length (messages s)" and "retrieveDialogue (fst (getCallId (messages s ! a))) s = None"
  shows "\<exists>r s'. startTransaction (Some a) s = Inr (r, s') \<and> r \<noteq> None"
proof -
  obtain c s1 where 1: "with_message a callId_of s = Inr (c, s1)"
    using with_getter_total [OF assms(1), of getCallId] by blast
  note q1 = with_callId [OF 1]
  obtain key s2 where 2: "with_message a callId_of s1 = Inr (key, s2)"
    using with_getter_total [of a s1 getCallId] assms(1) quiet_fields(5) [OF q1(1)] by auto
  note q2 = with_callId [OF 2]
  have "c = fst (getCallId (messages s ! a))" "key = c"
    using q1 q2 callId_extends [OF quiet_fields(6) [OF q1(1) assms(1)]] by simp_all
  then have none: "retrieveDialogue c s2 = None" "map_of (callIdToDialogueMap s2) key = None"
    using assms(2) quiet_fields(2) [OF q1(1)] quiet_fields(2) [OF q2(1)] by (simp_all add: retrieveDialogue_def)
  have len: "a < length (messages (snd (getNextChannelId s2)))"
    using assms(1) quiet_fields(5) [OF q1(1)] quiet_fields(5) [OF q2(1)] by (simp add: getNextChannelId_def)
  obtain c3 s3 where 3: "with_message a callId_of (snd (getNextChannelId s2)) = Inr (c3, s3)"
    using with_getter_total [OF len, of getCallId] by blast
  have "a < length (messages s3)"
    using len quiet_fields(5) [OF with_callId(1) [OF 3]] by simp
  then show ?thesis
    using 1 2 3 none
    by (auto simp: startTransaction_def SipDialogue_def case_prod_beta message_at_def setCurrentTransaction_def)
qed



section \<open>Repeated and re-INVITE requests\<close>

lemma with_getter:
  "b < length (messages s) \<Longrightarrow> with_message b (\<lambda>m. Inr (f m)) s =
     Inr (fst (f (messages s ! b)), s\<lparr>messages := (messages s)[b := snd (f (messages s ! b))]\<rparr>)"
  by (simp add: with_message_def message_at_def case_prod_beta)

lemma header_at_reinvite [simp]: "reinviteFlag (snd (header_at k m)) = reinviteFlag m"
  by (simp add: header_at_def split: option.split)

lemma getter_extends:
  "message_extends m (snd (getCallId m))" "message_extends m (snd (getCSequence m))"
  by (simp_all add: getCallId_def getCSequence_def header_value_at_snd header_at_extends)

lemma getter_snd [simp]:
  "reinviteFlag (snd (getCallId m)) = reinviteFlag m" "reinviteFlag (snd (getCSequence m)) = reinviteFlag m"
  "requestType (snd (getCallId m)) = requestType m" "requestType (snd (getCSequence m)) = requestType m"
  "fst (getCSequence (snd (getCallId m))) = fst (getCSequence m)"
  "fst (getCSequence (snd (getCSequence m))) = fst (getCSequence m)"
  using getter_extends [of m] cseq_extends message_extends_fields(1)
  by (simp_all add: getCallId_def getCSequence_def header_value_at_snd)

lemma repeated_invite_flag:
  assumes "a < length (messages s)" and "r < length (messages s)" and "a \<noteq> r"
    and "sipRequest t = Some r" and "requestType (messages s ! r) = M_INVITE"
  shows "\<exists>s'. repeated_invite a t s = Inr (Some t, s') \<and>
    reinviteFlag (messages s' ! a) =
      (if fst (getCSequence (messages s ! a)) \<noteq> fst (getCSequence (messages s ! r)) then Some True
       else reinviteFlag (messages s ! a))"
  using assms
  by (auto simp: repeated_invite_def with_getter message_at_def isReinvite_def)


definition call_message :: "string \<Rightarrow> sip_message" where
  "call_message sequence = request_object M_INVITE ''INVITE'' False null_buffer
     [(''CALL-ID'', Some (SipCallIdHeader (buffer_of_string ''77@x''))),
      (''CSEQ'', Some (SipCSeqHeader (buffer_of_string sequence)))] []"

lemma call_message_simps [simp]:
  "requestType (call_message n) = M_INVITE" "isRequest (call_message n)" "reinviteFlag (call_message n) = None"
  "getBody t (call_message n) = []" "msgChannelId (call_message n) = None"
  by (simp_all add: call_message_def request_object_def getBody_def)

lemma call_message_texts [simp]:
  "fst (getCallId (call_message n)) = ''77@x''" "fst (getCSequence (call_message n)) = n"
  by (simp_all add: call_message_def request_object_def getCallId_def getCSequence_def
      header_value_at_def header_at_def SipCallIdHeader_def SipCSeqHeader_def plain_header_def
      buffer_of_string_def toString_def)

definition known_call :: dialogue_manager where
  "known_call = \<lparr>channelToDialogueMap = [(1, 0)], callIdToDialogueMap = [(''77@x'', 0)], lastChannelId = 1,
     dialogues = [fresh_dialogue 1 0 (call_message ''1 INVITE'')],
     messages = [call_message ''1 INVITE'', call_message ''2 INVITE'']\<rparr>"

lemma known_call_inv: "manager_inv known_call"
proof -
  have "dialogue_ok (messages known_call) (fresh_dialogue 1 0 (call_message ''1 INVITE''))"
    by (auto simp: dialogue_ok_def fresh_dialogue_def known_call_def)
  then show ?thesis
    by (simp add: manager_inv_def known_call_def live_dialogue_def channel_of_def call_of_def
        fresh_dialogue_def std_wf_def) auto
qed


end
