(* ===== verification/SipInterface.thy ===== *)
theory SipInterface
  imports SipDialogue
begin

text \<open>
  Model of \<^verbatim>\<open>src/src/components/sip/SipInterface.{h,cpp}\<close>, \<^verbatim>\<open>SipConnection.hpp\<close> and the classes of
  \<^verbatim>\<open>events/\<close>. What the interface does to the outside, datagrams handed to \<^verbatim>\<open>uv_udp_send\<close> and events
  handed to the registered handler, is a trace of actions, oldest first. The handler
  (\<^verbatim>\<open>sipEventHandler\<close> of \<^verbatim>\<open>core.cpp\<close>) never calls back into the interface. Where C++ leaves the order
  of argument evaluation open, the model evaluates from left to right.

  The dialogue manager is a static object of the class: it is made before \<^verbatim>\<open>main\<close> registers the logger, so
  that its look-up in the registry finds none. Every function of the manager the interface calls starts, or
  goes on after a look-up that changes nothing, with a call through that pointer; here \<open>nl\<close> comes before
  each of them.
\<close>

section \<open>Events and actions\<close>

datatype call_event =
    CallNewCallEvent (eventChannel: u32) (eventCallId: string) string string string
      "(string \<times> string) list" "(body_type, string) std_map"
  | CallAnsweredEvent (eventChannel: u32) (eventCallId: string)
  | CallClearedEvent (eventChannel: u32) (eventCallId: string) int
  | CallMediaRecordingStartedEvent (eventChannel: u32) (eventCallId: string) bool int string

definition getEventTypeName :: "call_event \<Rightarrow> string" where
  "getEventTypeName e = (case e of
       CallNewCallEvent _ _ _ _ _ _ _ \<Rightarrow> ''New Call''
     | CallAnsweredEvent _ _ \<Rightarrow> ''Call Answered''
     | CallClearedEvent _ _ _ \<Rightarrow> ''Call Cleared''
     | CallMediaRecordingStartedEvent _ _ _ _ _ \<Rightarrow> ''Recording Start'')"

datatype action =
    Send (destAddress: string) (destPort: int) (viaTransport: transport_type) (datagram: string)
  | Event call_event

record sip_interface =
  dialogueManager :: dialogue_manager
  udpParser :: sip_parser
  lastConnectionId :: u32
  actions :: "action list"

definition new_sip_interface :: sip_interface where
  "new_sip_interface = \<lparr>dialogueManager = new_dialogue_manager, udpParser = new_sip_parser,
     lastConnectionId = 0, actions = []\<rparr>"

record sip_connection =
  connectionId :: u32
  messageBuffer :: message_buffer
  sipParser :: sip_parser
  pendingMessageBytes :: nat

definition SipConnection :: "u32 \<Rightarrow> string \<Rightarrow> sip_connection" where
  "SipConnection connId fresh = \<lparr>connectionId = connId, messageBuffer = new_message_buffer 16192 fresh,
     sipParser = new_sip_parser, pendingMessageBytes = 0\<rparr>"

section \<open>Access to the objects\<close>

definition ask :: "nat \<Rightarrow> (sip_message \<Rightarrow> ('a \<times> sip_message) outcome) \<Rightarrow> sip_interface \<Rightarrow>
    ('a \<times> sip_interface) outcome" where
  "ask a f i = bindO (with_message a f (dialogueManager i)) (\<lambda>(x, s). Inr (x, i\<lparr>dialogueManager := s\<rparr>))"

definition look :: "nat \<Rightarrow> (sip_message \<Rightarrow> 'a outcome) \<Rightarrow> sip_interface \<Rightarrow> 'a outcome" where
  "look a f i = bindO (message_at a (dialogueManager i)) f"

definition dialogue_of :: "nat \<Rightarrow> sip_interface \<Rightarrow> sip_dialogue outcome" where
  "dialogue_of d i = dialogue_at d (dialogueManager i)"

definition put_dialogue :: "nat \<Rightarrow> sip_dialogue \<Rightarrow> sip_interface \<Rightarrow> sip_interface" where
  "put_dialogue d x i = i\<lparr>dialogueManager := set_dialogue d x (dialogueManager i)\<rparr>"

definition setState :: "nat \<Rightarrow> dialogue_state \<Rightarrow> sip_interface \<Rightarrow> sip_interface outcome" where
  "setState d st i = bindO (dialogue_of d i) (\<lambda>x. Inr (put_dialogue d (x\<lparr>dialogueState := st\<rparr>) i))"

definition handler :: "call_event \<Rightarrow> sip_interface \<Rightarrow> sip_interface" where
  "handler e i = i\<lparr>actions := actions i @ [Event e]\<rparr>"

definition sendMessage :: "string \<Rightarrow> int \<Rightarrow> transport_type \<Rightarrow> string \<Rightarrow> sip_interface \<Rightarrow> sip_interface" where
  "sendMessage remoteSipAddress remoteSipPort transport responseMessage i =
     i\<lparr>actions := actions i @ [Send (c_str remoteSipAddress) remoteSipPort transport responseMessage]\<rparr>"

text \<open>The four reads every reply is made of, in the order of the arguments of \<^verbatim>\<open>sendMessage\<close>.\<close>

definition reply :: "nat \<Rightarrow> (sip_message \<Rightarrow> (string \<times> sip_message) outcome) \<Rightarrow> sip_interface \<Rightarrow>
    sip_interface outcome" where
  "reply a build i =
     bindO (ask a getRemoteAddress i) (\<lambda>(address, i).
     bindO (ask a getRemotePort i) (\<lambda>(prt, i).
     bindO (ask a getTransportType i) (\<lambda>(transport, i).
     bindO (ask a build i) (\<lambda>(response, i).
       Inr (sendMessage address prt transport response i)))))"

definition dialogue_for :: "logging \<Rightarrow> nat \<Rightarrow> sip_interface \<Rightarrow> (nat option \<times> sip_interface) outcome" where
  "dialogue_for nl a i =
     bindO (ask a callId_of i) (\<lambda>(callId, i).
     bindO nl (\<lambda>_. Inr (retrieveDialogue callId (dialogueManager i), i)))"

section \<open>Requests\<close>

definition processSubscribe :: "logging \<Rightarrow> nat \<Rightarrow> sip_interface \<Rightarrow> sip_interface outcome" where
  "processSubscribe nl a i = reply a (buildSubscriptionAcceptedResponse nl ''subscription'') i"

definition processInvite :: "logging \<Rightarrow> nat \<Rightarrow> sip_interface \<Rightarrow> sip_interface outcome" where
  "processInvite nl a i =
     bindO (dialogue_for nl a i) (\<lambda>(dialogue, i).
       case dialogue of
         None \<Rightarrow> Inr i
       | Some d \<Rightarrow>
           bindO (setState d INCOMING i) (\<lambda>i.
           bindO (dialogue_of d i) (\<lambda>x.
           bindO (reply a (buildTryingResponse nl (responseTag x)) i) (\<lambda>i.
           bindO (ask a callId_of i) (\<lambda>(callId, i).
           bindO (ask a (\<lambda>m. Inr (getTo m)) i) (\<lambda>(to, i).
           bindO (ask a (\<lambda>m. Inr (getFrom m)) i) (\<lambda>(fromField, i).
           bindO (look a getHeaders i) (\<lambda>headers.
           bindO (look a (\<lambda>m. Inr (getBodies m)) i) (\<lambda>bodies.
             Inr (handler (CallNewCallEvent (dialogueChannelId x) callId (responseTag x) to fromField
                    headers bodies) i))))))))))"

definition processAck :: "logging \<Rightarrow> nat \<Rightarrow> sip_interface \<Rightarrow> sip_interface outcome" where
  "processAck nl a i =
     bindO (dialogue_for nl a i) (\<lambda>(dialogue, i).
       case dialogue of
         None \<Rightarrow> Inr i
       | Some d \<Rightarrow>
           bindO (dialogue_of d i) (\<lambda>x.
             if dialogueState x = INCOMING then
               bindO (setState d CONNECTED i) (\<lambda>i.
               bindO (ask a callId_of i) (\<lambda>(callId, i).
                 Inr (handler (CallAnsweredEvent (dialogueChannelId x) callId) i)))
             else Inr i))"

definition processBye :: "logging \<Rightarrow> nat \<Rightarrow> sip_interface \<Rightarrow> sip_interface outcome" where
  "processBye nl a i =
     bindO (dialogue_for nl a i) (\<lambda>(dialogue, i).
       case dialogue of
         None \<Rightarrow> bindO (look a getChannelId i) (\<lambda>_. Inr i)
       | Some d \<Rightarrow>
           bindO (dialogue_of d i) (\<lambda>x.
             if dialogueState x = CONNECTED then
               bindO (if recordingState x then
                        bindO (look a getChannelId i) (\<lambda>channelId.
                        bindO (ask a callId_of i) (\<lambda>(callId, i).
                          Inr (handler (CallMediaRecordingStartedEvent channelId (c_str callId) False 0 ''OK'') i)))
                      else Inr i) (\<lambda>i.
               bindO (setState d CLEARED i) (\<lambda>i.
               bindO (reply a (buildOkResponse nl (responseTag x)) i) (\<lambda>i.
               bindO (ask a callId_of i) (\<lambda>(callId, i).
                 Inr (handler (CallClearedEvent (dialogueChannelId x) callId 200) i)))))
             else if dialogueState x = CLEARING then
               bindO (setState d CLEARED i) (\<lambda>i.
               bindO (ask a callId_of i) (\<lambda>(callId, i).
                 Inr (handler (CallClearedEvent (dialogueChannelId x) callId 200) i)))
             else Inr i))"

definition processCancel :: "logging \<Rightarrow> nat \<Rightarrow> sip_interface \<Rightarrow> sip_interface outcome" where
  "processCancel nl a i =
     bindO (dialogue_for nl a i) (\<lambda>(dialogue, i).
       case dialogue of
         None \<Rightarrow> Inr i
       | Some d \<Rightarrow>
           bindO (dialogue_of d i) (\<lambda>x.
             if dialogueState x = INCOMING then
               bindO (ask a callId_of i) (\<lambda>(callId, i).
                 Inr (handler (CallClearedEvent (dialogueChannelId x) callId 487) i))
             else Inr i))"

definition processOptions :: "logging \<Rightarrow> nat \<Rightarrow> sip_interface \<Rightarrow> sip_interface outcome" where
  "processOptions nl a i = bindO (dialogue_for nl a i) (\<lambda>(dialogue, i). Inr i)"

definition processRequest :: "logging \<Rightarrow> message_type \<Rightarrow> nat \<Rightarrow> sip_interface \<Rightarrow> sip_interface outcome" where
  "processRequest nl t a i =
     (case t of
        M_INVITE \<Rightarrow> processInvite nl a i
      | M_ACK \<Rightarrow> processAck nl a i
      | M_BYE \<Rightarrow> processBye nl a i
      | M_CANCEL \<Rightarrow> processCancel nl a i
      | M_OPTIONS \<Rightarrow> processOptions nl a i
      | M_SUBSCRIBE \<Rightarrow> processSubscribe nl a i
      | _ \<Rightarrow> Inr i)"

definition processMessage :: "logging \<Rightarrow> nat option \<Rightarrow> sip_interface \<Rightarrow> sip_interface outcome" where
  "processMessage nl sipMessage i =
     (case sipMessage of
        None \<Rightarrow> Inr i
      | Some a \<Rightarrow>
          bindO nl (\<lambda>_.
          bindO (updateTransaction (Some a) (dialogueManager i)) (\<lambda>(transaction, s).
            let i = i\<lparr>dialogueManager := s\<rparr>
            in case transaction of
                 None \<Rightarrow> Inr i
               | Some t \<Rightarrow>
                   bindO (message_at a s) (\<lambda>m.
                     if isRequest m then processRequest nl (requestType m) a i else Inr i))))"

section \<open>Messages from the parsers\<close>

text \<open>The parser allocates a message and hands its address to the handler.\<close>

definition deliver :: "logging \<Rightarrow> sip_message \<Rightarrow> sip_interface \<Rightarrow> sip_interface outcome" where
  "deliver nl m i =
     (let s = dialogueManager i
      in processMessage nl (Some (length (messages s)))
           (i\<lparr>dialogueManager := s\<lparr>messages := messages s @ [m]\<rparr>\<rparr>))"

primrec deliver_all :: "logging \<Rightarrow> sip_message list \<Rightarrow> sip_interface \<Rightarrow> sip_interface outcome" where
  "deliver_all nl [] i = Inr i"
| "deliver_all nl (m # ms) i = bindO (deliver nl m i) (deliver_all nl ms)"

text \<open>
  One round of the loop of \<^verbatim>\<open>onUdpRecv\<close>, then the loop: whether it ends is a property to prove, so the
  result is an option. \<open>dest\<close> holds what the local array holds, at first something unknown.
\<close>

definition udp_round :: "logging \<Rightarrow> message_buffer \<Rightarrow> string \<Rightarrow> sip_interface \<Rightarrow>
    (message_buffer \<times> string \<times> sip_interface) outcome" where
  "udp_round nl mb dest i =
     bindO (pull_delim mb dest 4096 message_delimiter) (\<lambda>(count, dest, mb).
     bindO (if count = 0 \<and> getStoredByteCount mb \<noteq> 0
            then pull_bytes mb dest 4096 (getStoredByteCount mb)
            else Inr (count, dest, mb)) (\<lambda>(count, dest, mb).
     bindO (loadMessageData nl dest count (udpParser i)) (\<lambda>(_, delivered, p).
     bindO (deliver_all nl delivered (i\<lparr>udpParser := p\<rparr>)) (\<lambda>i. Inr (mb, dest, i)))))"

partial_function (option) udp_loop :: "logging \<Rightarrow> message_buffer \<Rightarrow> string \<Rightarrow> sip_interface \<Rightarrow>
    sip_interface outcome option" where
  "udp_loop nl mb dest i =
     (case udp_round nl mb dest i of
        Inl e \<Rightarrow> Some (Inl e)
      | Inr (mb, dest, i) \<Rightarrow> (if getStoredByteCount mb \<noteq> 0 then udp_loop nl mb dest i else Some (Inr i)))"

definition onUdpRecv :: "logging \<Rightarrow> string \<Rightarrow> string \<Rightarrow> int \<Rightarrow> string \<Rightarrow> sip_interface \<Rightarrow>
    sip_interface outcome option" where
  "onUdpRecv nl fresh dest bytes_read base i =
     (if bytes_read > 0 then
        (case push (new_message_buffer 4096 fresh) (take (nat bytes_read) base) of
           Inl e \<Rightarrow> Some (Inl e)
         | Inr (_, mb) \<Rightarrow> udp_loop nl mb dest i)
      else Some (Inr i))"

definition tcp_round :: "logging \<Rightarrow> sip_connection \<Rightarrow> string \<Rightarrow> sip_interface \<Rightarrow>
    (nat \<times> sip_connection \<times> string \<times> sip_interface) outcome" where
  "tcp_round nl c dest i =
     bindO (if pendingMessageBytes c \<noteq> 0
            then pull_bytes (messageBuffer c) dest 1024 (pendingMessageBytes c)
            else pull_delim (messageBuffer c) dest 1024 message_delimiter) (\<lambda>(count, dest, mb).
       let c = c\<lparr>messageBuffer := mb\<rparr>
       in if count \<noteq> 0 then
            bindO (loadMessageData nl dest count (sipParser c)) (\<lambda>(pending, delivered, p).
            bindO (deliver_all nl delivered i) (\<lambda>i.
              Inr (count, c\<lparr>sipParser := p, pendingMessageBytes := pending\<rparr>, dest, i)))
          else Inr (count, c, dest, i))"

partial_function (option) tcp_loop :: "logging \<Rightarrow> sip_connection \<Rightarrow> string \<Rightarrow> sip_interface \<Rightarrow>
    (sip_connection \<times> sip_interface) outcome option" where
  "tcp_loop nl c dest i =
     (case tcp_round nl c dest i of
        Inl e \<Rightarrow> Some (Inl e)
      | Inr (count, c, dest, i) \<Rightarrow> (if count > 0 then tcp_loop nl c dest i else Some (Inr (c, i))))"

declare udp_loop.simps [code] tcp_loop.simps [code]

text \<open>\<^verbatim>\<open>UV_EOF\<close> and the other negative counts close the connection or do nothing.\<close>

definition onTcpRecv :: "logging \<Rightarrow> string \<Rightarrow> int \<Rightarrow> string \<Rightarrow> sip_connection \<Rightarrow> sip_interface \<Rightarrow>
    (sip_connection \<times> sip_interface) outcome option" where
  "onTcpRecv nl dest bytes_read base c i =
     (if bytes_read > 0 then
        (case push (messageBuffer c) (take (nat bytes_read) base) of
           Inl e \<Rightarrow> Some (Inl e)
         | Inr (_, mb) \<Rightarrow> tcp_loop nl (c\<lparr>messageBuffer := mb\<rparr>) dest i)
      else Some (Inr (c, i)))"

definition onTcpConnection :: "int \<Rightarrow> string \<Rightarrow> sip_interface \<Rightarrow> sip_connection option \<times> sip_interface" where
  "onTcpConnection status fresh i =
     (if status \<noteq> 0 then (None, i)
      else (let n = lastConnectionId i + 1
            in (Some (SipConnection n fresh), i\<lparr>lastConnectionId := n\<rparr>)))"

section \<open>Operations the controller calls\<close>

definition getMediaOffer :: "logging \<Rightarrow> u32 \<Rightarrow> sip_interface \<Rightarrow> string outcome" where
  "getMediaOffer nl channelId i = bindO nl (\<lambda>_.
     case retrieveDialogueByChannel channelId (dialogueManager i) of
        None \<Rightarrow> Inr []
      | Some d \<Rightarrow>
          bindO (dialogue_of d i) (\<lambda>x.
            case currentTransaction x of None \<Rightarrow> Inr [] | Some t \<Rightarrow> Inr (sdpOffer t)))"

definition answerCall :: "logging \<Rightarrow> u32 \<Rightarrow> string \<Rightarrow> string \<Rightarrow> string \<Rightarrow> sip_interface \<Rightarrow> (int \<times> sip_interface) outcome" where
  "answerCall nl channelId tag contactField sdpAnswer i = bindO nl (\<lambda>_.
     case retrieveDialogueByChannel channelId (dialogueManager i) of
        None \<Rightarrow> Inr (0, i)
      | Some d \<Rightarrow>
          bindO (dialogue_of d i) (\<lambda>x.
            case currentTransaction x of
              None \<Rightarrow> Inr (0, i)
            | Some t \<Rightarrow>
                (case sipRequest t of
                   None \<Rightarrow> Inr (1, i)
                 | Some a \<Rightarrow>
                     bindO (ask a (buildAnswerResponse nl (responseTag x) sdpAnswer) i) (\<lambda>(response, i).
                     bindO (ask a getRemoteAddress i) (\<lambda>(address, i).
                     bindO (ask a getRemotePort i) (\<lambda>(prt, i).
                     bindO (ask a getTransportType i) (\<lambda>(transport, i).
                       Inr (0, sendMessage address prt transport response i))))))))"

definition startRecordingCall :: "logging \<Rightarrow> u32 \<Rightarrow> string \<Rightarrow> sip_interface \<Rightarrow> (int \<times> sip_interface) outcome" where
  "startRecordingCall nl channelId filename i = bindO nl (\<lambda>_.
     case retrieveDialogueByChannel channelId (dialogueManager i) of
        None \<Rightarrow> Inr (- 1, i)
      | Some d \<Rightarrow>
          bindO (dialogue_of d i) (\<lambda>x.
            let i = put_dialogue d (x\<lparr>recordingState := True\<rparr>) i
            in Inr (0, handler (CallMediaRecordingStartedEvent (dialogueChannelId x)
                 (c_str (dialogueCallId x)) True 0 ''OK'') i)))"

definition stopRecordingCall :: "u32 \<Rightarrow> sip_interface \<Rightarrow> int \<times> sip_interface" where
  "stopRecordingCall channelId i = (0, i)"

definition rejectCall :: "u32 \<Rightarrow> int \<Rightarrow> string \<Rightarrow> sip_interface \<Rightarrow> int \<times> sip_interface" where
  "rejectCall channelId reasonCode reasonMessage i = (0, i)"

definition clearCall :: "u32 \<Rightarrow> int \<Rightarrow> string \<Rightarrow> sip_interface \<Rightarrow> int \<times> sip_interface" where
  "clearCall channelId reasonCode reasonMessage i = (0, i)"

text \<open>Declared and called, with nothing behind them.\<close>

definition processResponse :: "nat \<Rightarrow> sip_interface \<Rightarrow> sip_interface" where
  "processResponse a i = i"

definition interface_getTransaction :: "u32 \<Rightarrow> sip_interface \<Rightarrow> sip_transaction" where
  "interface_getTransaction channelId i = empty_transaction"

section \<open>The effect of the handlers\<close>

text \<open>
  \<open>edit ds s s'\<close>: the manager became \<open>s'\<close>, where the dialogues are \<open>ds\<close> and messages were only read.
  \<open>effect ds acts i i'\<close>: the interface did this and the actions \<open>acts\<close>. Effects compose.
\<close>

definition edit :: "sip_dialogue list \<Rightarrow> dialogue_manager \<Rightarrow> dialogue_manager \<Rightarrow> bool" where
  "edit ds s s' \<longleftrightarrow> s' = s\<lparr>dialogues := ds, messages := messages s'\<rparr> \<and>
     list_all2 message_extends (messages s) (messages s')"

definition effect :: "sip_dialogue list \<Rightarrow> action list \<Rightarrow> sip_interface \<Rightarrow> sip_interface \<Rightarrow> bool" where
  "effect ds acts i i' \<longleftrightarrow>
     (\<exists>s'. i' = i\<lparr>dialogueManager := s', actions := actions i @ acts\<rparr> \<and> edit ds (dialogueManager i) s')"

abbreviation current :: "sip_interface \<Rightarrow> sip_dialogue list" where
  "current i \<equiv> dialogues (dialogueManager i)"

lemma quiet_edit: "quiet s s' \<longleftrightarrow> edit (dialogues s) s s'"
  by (cases s, cases s') (auto simp: quiet_def edit_def)

lemma edit_trans:
  assumes "edit ds1 s1 s2" and "edit ds2 s2 s3"
  shows "edit ds2 s1 s3"
proof -
  have "list_all2 message_extends (messages s1) (messages s3)"
    by (rule list_all2_trans [OF message_extends_trans]) (use assms in \<open>auto simp: edit_def\<close>)
  then show ?thesis
    using assms by (cases s1, cases s2, cases s3) (auto simp: edit_def)
qed

lemma edit_fields:
  assumes "edit ds s s'"
  shows "dialogues s' = ds" and "callIdToDialogueMap s' = callIdToDialogueMap s"
    and "channelToDialogueMap s' = channelToDialogueMap s" and "lastChannelId s' = lastChannelId s"
    and "list_all2 message_extends (messages s) (messages s')"
  using assms by (cases s, cases s', auto simp: edit_def)+

lemma effect_trans:
  assumes "effect ds1 acts1 i1 i2" and "effect ds2 acts2 i2 i3"
  shows "effect ds2 (acts1 @ acts2) i1 i3"
  using assms unfolding effect_def by (fastforce intro: edit_trans)

lemma effect_fields:
  assumes "effect ds acts i i'"
  shows "current i' = ds" and "actions i' = actions i @ acts"
    and "retrieveDialogue c (dialogueManager i') = retrieveDialogue c (dialogueManager i)"
    and "length (messages (dialogueManager i')) = length (messages (dialogueManager i))"
    and "a < length (messages (dialogueManager i)) \<Longrightarrow>
      message_extends (messages (dialogueManager i) ! a) (messages (dialogueManager i') ! a)"
proof -
  obtain s' where i': "i' = i\<lparr>dialogueManager := s', actions := actions i @ acts\<rparr>"
    and "edit ds (dialogueManager i) s'"
    using assms by (auto simp: effect_def)
  note f = edit_fields [OF this(2)]
  show "current i' = ds" "actions i' = actions i @ acts"
    "retrieveDialogue c (dialogueManager i') = retrieveDialogue c (dialogueManager i)"
    "length (messages (dialogueManager i')) = length (messages (dialogueManager i))"
    "a < length (messages (dialogueManager i)) \<Longrightarrow>
      message_extends (messages (dialogueManager i) ! a) (messages (dialogueManager i') ! a)"
    using f list_all2_lengthD [OF f(5)] list_all2_nthD [OF f(5)] by (simp_all add: i' retrieveDialogue_def)
qed

lemma edit_refl: "edit (current i) (dialogueManager i) (dialogueManager i)"
  using quiet_edit quiet_refl by blast

lemma effect_refl: "effect (current i) [] i i"
  unfolding effect_def using edit_refl by (intro exI [of _ "dialogueManager i"]) simp

lemma ask_Inr:
  "ask a f i = Inr (x, i') \<longleftrightarrow>
     (\<exists>s. with_message a f (dialogueManager i) = Inr (x, s) \<and> i' = i\<lparr>dialogueManager := s\<rparr>)"
  by (auto simp: ask_def bindO_eq_Inr_iff)

lemma ask_effect: "polite f \<Longrightarrow> ask a f i = Inr (x, i') \<Longrightarrow> effect (current i) [] i i'"
  by (auto simp: ask_Inr effect_def quiet_edit [symmetric] intro: with_message_quiet)

lemma ask_callId:
  assumes "ask a callId_of i = Inr (c, i')"
  shows "effect (current i) [] i i'" and "a < length (messages (dialogueManager i))"
    and "c = fst (getCallId (messages (dialogueManager i) ! a))"
  using ask_effect [OF polite_getters(1) assms] assms by (auto simp: ask_Inr dest: with_callId)

lemma handler_effect: "effect (current i) [Event e] i (handler e i)"
  unfolding effect_def using edit_refl by (intro exI [of _ "dialogueManager i"]) (simp add: handler_def)

lemma reply_effect:
  assumes "reply a build i = Inr i'" and "polite build"
  shows "\<exists>adr prt tr resp. effect (current i) [Send adr prt tr resp] i i'"
proof -
  obtain adr i1 prt i2 tr i3 resp i4 where asks: "ask a getRemoteAddress i = Inr (adr, i1)"
      "ask a getRemotePort i1 = Inr (prt, i2)" "ask a getTransportType i2 = Inr (tr, i3)"
      "ask a build i3 = Inr (resp, i4)" and i': "i' = sendMessage adr prt tr resp i4"
    using assms(1) by (auto simp: reply_def bindO_eq_Inr_iff)
  have "effect (current i) [] i i4"
    using ask_effect [OF polite_via_getters(1) asks(1)] ask_effect [OF polite_via_getters(2) asks(2)]
      ask_effect [OF polite_via_getters(3) asks(3)] ask_effect [OF assms(2) asks(4)]
    by (metis append_Nil effect_fields(1) effect_trans)
  then show ?thesis
    unfolding i' by (fastforce simp: effect_def sendMessage_def)
qed

lemma setState_effect:
  assumes "setState d st i = Inr i'"
  shows "d < length (current i) \<and>
    effect ((current i)[d := (current i ! d)\<lparr>dialogueState := st\<rparr>]) [] i i'"
proof -
  let ?x = "(current i ! d)\<lparr>dialogueState := st\<rparr>" and ?s = "dialogueManager i"
  have "i' = i\<lparr>dialogueManager := set_dialogue d ?x ?s\<rparr>" "d < length (current i)"
    using assms by (auto simp: setState_def dialogue_of_def dialogue_at_def bindO_eq_Inr_iff
        put_dialogue_def split: if_splits)
  moreover have "edit ((current i)[d := ?x]) ?s (set_dialogue d ?x ?s)"
    by (auto simp: edit_def set_dialogue_def intro: list_all2_refl)
  ultimately show ?thesis
    unfolding effect_def by (intro conjI exI [of _ "set_dialogue d ?x ?s"]) simp_all
qed

lemma dialogue_for_Inr:
  assumes "dialogue_for nl a i = Inr (r, i')"
  shows "effect (current i) [] i i'" and "a < length (messages (dialogueManager i))"
    and "r = retrieveDialogue (fst (getCallId (messages (dialogueManager i) ! a))) (dialogueManager i)"
  using assms ask_callId effect_fields(3) by (fastforce simp: dialogue_for_def bindO_eq_Inr_iff)+

lemma dialogue_of_Inr: "dialogue_of d i = Inr x \<longleftrightarrow> d < length (current i) \<and> x = current i ! d"
  by (auto simp: dialogue_of_def dialogue_at_def)

lemma effect_then:
  assumes "effect ds acts i i1" and "effect (current i1) acts' i1 i2"
  shows "effect ds (acts @ acts') i i2"
  using effect_trans [OF assms] effect_fields(1) [OF assms(1)] by simp

lemma ask_then: "effect ds acts i i1 \<Longrightarrow> polite f \<Longrightarrow> ask a f i1 = Inr (x, i2) \<Longrightarrow> effect ds acts i i2"
  using effect_then [OF _ ask_effect] by fastforce

lemma handler_then: "effect ds acts i i1 \<Longrightarrow> effect ds (acts @ [Event e]) i (handler e i1)"
  by (rule effect_then [OF _ handler_effect])

lemma reply_then:
  assumes "effect ds acts i i1" and "reply a build i1 = Inr i2" and "polite build"
  obtains adr prt tr resp where "effect ds (acts @ [Send adr prt tr resp]) i i2"
  using reply_effect [OF assms(2,3)] effect_then [OF assms(1)] by blast

abbreviation call_at :: "nat \<Rightarrow> sip_interface \<Rightarrow> string" where
  "call_at a i \<equiv> fst (getCallId (messages (dialogueManager i) ! a))"

abbreviation found_at :: "nat \<Rightarrow> sip_interface \<Rightarrow> nat option" where
  "found_at a i \<equiv> retrieveDialogue (call_at a i) (dialogueManager i)"

lemma call_at_effect:
  "effect ds acts i i' \<Longrightarrow> a < length (messages (dialogueManager i)) \<Longrightarrow> call_at a i' = call_at a i"
  using effect_fields(5) callId_extends by blast

text \<open>Every handler leaves the interface alone when there is no dialogue for the call.\<close>

lemma process_without_dialogue:
  assumes "found_at a i = None"
  shows "processInvite nl a i = Inr i' \<Longrightarrow> effect (current i) [] i i'"
    and "processAck nl a i = Inr i' \<Longrightarrow> effect (current i) [] i i'"
    and "processBye nl a i = Inr i' \<Longrightarrow> effect (current i) [] i i'"
    and "processCancel nl a i = Inr i' \<Longrightarrow> effect (current i) [] i i'"
  using assms dialogue_for_Inr(1,3)
  by (auto simp: processInvite_def processAck_def processBye_def processCancel_def bindO_eq_Inr_iff
      split: option.splits)

lemma processOptions_effect: "processOptions nl a i = Inr i' \<Longrightarrow> effect (current i) [] i i'"
  using dialogue_for_Inr(1) by (auto simp: processOptions_def bindO_eq_Inr_iff)

lemma processSubscribe_effect:
  "processSubscribe nl a i = Inr i' \<Longrightarrow> \<exists>adr prt tr resp. effect (current i) [Send adr prt tr resp] i i'"
  using reply_effect polite_builds(3) by (auto simp: processSubscribe_def)

lemma processInvite_effect:
  assumes "processInvite nl a i = Inr i'" and "found_at a i = Some d"
  shows "\<exists>adr prt tr resp to fromField headers bodies. d < length (current i) \<and>
    effect ((current i)[d := (current i ! d)\<lparr>dialogueState := INCOMING\<rparr>])
      [Send adr prt tr resp, Event (CallNewCallEvent (dialogueChannelId (current i ! d)) (call_at a i)
         (responseTag (current i ! d)) to fromField headers bodies)] i i'"
proof -
  obtain r i1 where 1: "dialogue_for nl a i = Inr (r, i1)"
    and rest: "(case r of None \<Rightarrow> Inr i1 | Some d \<Rightarrow>
           bindO (setState d INCOMING i1) (\<lambda>i.
           bindO (dialogue_of d i) (\<lambda>x.
           bindO (reply a (buildTryingResponse nl (responseTag x)) i) (\<lambda>i.
           bindO (ask a callId_of i) (\<lambda>(callId, i).
           bindO (ask a (\<lambda>m. Inr (getTo m)) i) (\<lambda>(to, i).
           bindO (ask a (\<lambda>m. Inr (getFrom m)) i) (\<lambda>(fromField, i).
           bindO (look a getHeaders i) (\<lambda>headers.
           bindO (look a (\<lambda>m. Inr (getBodies m)) i) (\<lambda>bodies.
             Inr (handler (CallNewCallEvent (dialogueChannelId x) callId (responseTag x) to fromField
                    headers bodies) i)))))))))) = Inr i'"
    using assms(1) by (auto simp: processInvite_def bindO_eq_Inr_iff)
  note for_d = dialogue_for_Inr [OF 1]
  have "r = Some d" using for_d(3) assms(2) by simp
  then obtain i2 i3 c i4 to i5 fromField i6 headers bodies where
    2: "setState d INCOMING i1 = Inr i2" and d2: "d < length (current i2)"
    and 3: "reply a (buildTryingResponse nl (responseTag (current i2 ! d))) i2 = Inr i3"
    and 4: "ask a callId_of i3 = Inr (c, i4)" and 5: "ask a (\<lambda>m. Inr (getTo m)) i4 = Inr (to, i5)"
    and 6: "ask a (\<lambda>m. Inr (getFrom m)) i5 = Inr (fromField, i6)"
    and i': "i' = handler (CallNewCallEvent (dialogueChannelId (current i2 ! d)) c
      (responseTag (current i2 ! d)) to fromField headers bodies) i6"
    using rest by (auto simp: bindO_eq_Inr_iff dialogue_of_Inr)
  let ?ds = "(current i)[d := (current i ! d)\<lparr>dialogueState := INCOMING\<rparr>]"
  have e2: "effect ?ds [] i i2"
    using effect_trans [OF for_d(1)] setState_effect [OF 2] effect_fields(1) [OF for_d(1)] by fastforce
  then obtain adr prt tr resp where e3: "effect ?ds [Send adr prt tr resp] i i3"
    using reply_then [OF e2 3 polite_builds(1)] by (metis append_Nil)
  have "c = call_at a i"
    using ask_callId(3) [OF 4] call_at_effect [OF e3 for_d(2)] by simp
  moreover have "effect ?ds ([Send adr prt tr resp] @ [Event (CallNewCallEvent (dialogueChannelId (current i2 ! d)) c
      (responseTag (current i2 ! d)) to fromField headers bodies)]) i i'"
    unfolding i' by (intro handler_then ask_then [OF _ _ 6] ask_then [OF _ _ 5] ask_then [OF _ _ 4] e3 polite_getters)
  moreover have "current i2 ! d = (current i ! d)\<lparr>dialogueState := INCOMING\<rparr>" "d < length (current i)"
    using d2 effect_fields(1) [OF e2] by simp_all
  ultimately show ?thesis by simp blast
qed

lemma processAck_effect:
  assumes "processAck nl a i = Inr i'" and "found_at a i = Some d"
  shows "d < length (current i) \<and>
    (if dialogueState (current i ! d) = INCOMING
     then effect ((current i)[d := (current i ! d)\<lparr>dialogueState := CONNECTED\<rparr>])
       [Event (CallAnsweredEvent (dialogueChannelId (current i ! d)) (call_at a i))] i i'
     else effect (current i) [] i i')"
proof -
  obtain r i1 where 1: "dialogue_for nl a i = Inr (r, i1)"
    and rest: "(case r of None \<Rightarrow> Inr i1 | Some d \<Rightarrow>
           bindO (dialogue_of d i1) (\<lambda>x.
             if dialogueState x = INCOMING then
               bindO (setState d CONNECTED i1) (\<lambda>i.
               bindO (ask a callId_of i) (\<lambda>(callId, i).
                 Inr (handler (CallAnsweredEvent (dialogueChannelId x) callId) i)))
             else Inr i1)) = Inr i'"
    using assms(1) by (auto simp: processAck_def bindO_eq_Inr_iff)
  note for_d = dialogue_for_Inr [OF 1]
  have r: "r = Some d" using for_d(3) assms(2) by simp
  have cur: "current i1 = current i" by (rule effect_fields(1) [OF for_d(1)])
  have d: "d < length (current i)"
    using rest r cur by (auto simp: bindO_eq_Inr_iff dialogue_of_Inr)
  show ?thesis
  proof (cases "dialogueState (current i ! d) = INCOMING")
    case True
    then obtain i2 c i3 where 2: "setState d CONNECTED i1 = Inr i2" and 3: "ask a callId_of i2 = Inr (c, i3)"
      and i': "i' = handler (CallAnsweredEvent (dialogueChannelId (current i ! d)) c) i3"
      using rest r cur by (auto simp: bindO_eq_Inr_iff dialogue_of_Inr)
    let ?ds = "(current i)[d := (current i ! d)\<lparr>dialogueState := CONNECTED\<rparr>]"
    have e2: "effect ?ds [] i i2"
      using effect_trans [OF for_d(1)] setState_effect [OF 2] cur by fastforce
    have "c = call_at a i"
      using ask_callId(3) [OF 3] call_at_effect [OF e2 for_d(2)] by simp
    then show ?thesis
      using True d handler_then [OF ask_then [OF e2 polite_getters(1) 3]] by (simp add: i')
  next
    case False
    then have "i' = i1"
      using rest r cur by (auto simp: bindO_eq_Inr_iff dialogue_of_Inr)
    then show ?thesis using False d for_d(1) by simp
  qed
qed

lemma processCancel_effect:
  assumes "processCancel nl a i = Inr i'" and "found_at a i = Some d"
  shows "d < length (current i) \<and>
    effect (current i)
      (if dialogueState (current i ! d) = INCOMING
       then [Event (CallClearedEvent (dialogueChannelId (current i ! d)) (call_at a i) 487)] else []) i i'"
proof -
  obtain r i1 where 1: "dialogue_for nl a i = Inr (r, i1)"
    and rest: "(case r of None \<Rightarrow> Inr i1 | Some d \<Rightarrow>
           bindO (dialogue_of d i1) (\<lambda>x.
             if dialogueState x = INCOMING then
               bindO (ask a callId_of i1) (\<lambda>(callId, i).
                 Inr (handler (CallClearedEvent (dialogueChannelId x) callId 487) i))
             else Inr i1)) = Inr i'"
    using assms(1) by (auto simp: processCancel_def bindO_eq_Inr_iff)
  note for_d = dialogue_for_Inr [OF 1]
  have r: "r = Some d" using for_d(3) assms(2) by simp
  have cur: "current i1 = current i" by (rule effect_fields(1) [OF for_d(1)])
  have d: "d < length (current i)"
    using rest r cur by (auto simp: bindO_eq_Inr_iff dialogue_of_Inr)
  show ?thesis
  proof (cases "dialogueState (current i ! d) = INCOMING")
    case True
    then obtain c i2 where 2: "ask a callId_of i1 = Inr (c, i2)"
      and i': "i' = handler (CallClearedEvent (dialogueChannelId (current i ! d)) c 487) i2"
      using rest r cur by (auto simp: bindO_eq_Inr_iff dialogue_of_Inr)
    have "c = call_at a i"
      using ask_callId(3) [OF 2] call_at_effect [OF for_d(1,2)] by simp
    then show ?thesis
      using True d handler_then [OF ask_then [OF for_d(1) polite_getters(1) 2]] by (simp add: i')
  next
    case False
    then have "i' = i1"
      using rest r cur by (auto simp: bindO_eq_Inr_iff dialogue_of_Inr)
    then show ?thesis using False d for_d(1) by simp
  qed
qed

text \<open>
  A \<^verbatim>\<open>BYE\<close> for a recorded call reads the channel of the request, which nothing sets for a request:
  without an indeterminate value the handler only returns when the call is not recorded.
\<close>

lemma processBye_effect:
  assumes "processBye nl a i = Inr i'" and "found_at a i = Some d"
    and "msgChannelId (messages (dialogueManager i) ! a) = None" and "isRequest (messages (dialogueManager i) ! a)"
  shows "d < length (current i) \<and>
    (if dialogueState (current i ! d) = CONNECTED
     then \<not> recordingState (current i ! d) \<and> (\<exists>adr prt tr resp.
       effect ((current i)[d := (current i ! d)\<lparr>dialogueState := CLEARED\<rparr>])
         [Send adr prt tr resp,
          Event (CallClearedEvent (dialogueChannelId (current i ! d)) (call_at a i) 200)] i i')
     else if dialogueState (current i ! d) = CLEARING
     then effect ((current i)[d := (current i ! d)\<lparr>dialogueState := CLEARED\<rparr>])
       [Event (CallClearedEvent (dialogueChannelId (current i ! d)) (call_at a i) 200)] i i'
     else effect (current i) [] i i')"
proof -
  obtain r i1 where 1: "dialogue_for nl a i = Inr (r, i1)"
    and rest: "(case r of None \<Rightarrow> bindO (look a getChannelId i1) (\<lambda>_. Inr i1) | Some d \<Rightarrow>
           bindO (dialogue_of d i1) (\<lambda>x.
             if dialogueState x = CONNECTED then
               bindO (if recordingState x then
                        bindO (look a getChannelId i1) (\<lambda>channelId.
                        bindO (ask a callId_of i1) (\<lambda>(callId, i).
                          Inr (handler (CallMediaRecordingStartedEvent channelId (c_str callId) False 0 ''OK'') i)))
                      else Inr i1) (\<lambda>i.
               bindO (setState d CLEARED i) (\<lambda>i.
               bindO (reply a (buildOkResponse nl (responseTag x)) i) (\<lambda>i.
               bindO (ask a callId_of i) (\<lambda>(callId, i).
                 Inr (handler (CallClearedEvent (dialogueChannelId x) callId 200) i)))))
             else if dialogueState x = CLEARING then
               bindO (setState d CLEARED i1) (\<lambda>i.
               bindO (ask a callId_of i) (\<lambda>(callId, i).
                 Inr (handler (CallClearedEvent (dialogueChannelId x) callId 200) i)))
             else Inr i1)) = Inr i'"
    using assms(1) by (auto simp: processBye_def bindO_eq_Inr_iff)
  note for_d = dialogue_for_Inr [OF 1]
  have r: "r = Some d" using for_d(3) assms(2) by simp
  have cur: "current i1 = current i" by (rule effect_fields(1) [OF for_d(1)])
  have d: "d < length (current i)"
    using rest r cur by (auto simp: bindO_eq_Inr_iff dialogue_of_Inr)
  have unset: "look a getChannelId i1 = Inl Indeterminate \<or> look a getChannelId i1 = Inl NullDeref"
    using effect_fields(5) [OF for_d(1,2)] assms(3,4)
    by (auto simp: look_def message_at_def getChannelId_def initialised_def message_extends_def)
  let ?ds = "(current i)[d := (current i ! d)\<lparr>dialogueState := CLEARED\<rparr>]"
  have cleared: "effect ?ds [] i i2" if "setState d CLEARED i1 = Inr i2" for i2
    using effect_trans [OF for_d(1)] setState_effect [OF that] cur by fastforce
  consider (connected) "dialogueState (current i ! d) = CONNECTED"
    | (clearing) "dialogueState (current i ! d) = CLEARING"
    | (other) "dialogueState (current i ! d) \<noteq> CONNECTED" "dialogueState (current i ! d) \<noteq> CLEARING" by blast
  then show ?thesis
  proof cases
    case connected
    then obtain i2 i3 c i4 where rec: "\<not> recordingState (current i ! d)" and 2: "setState d CLEARED i1 = Inr i2"
      and 3: "reply a (buildOkResponse nl (responseTag (current i ! d))) i2 = Inr i3"
      and 4: "ask a callId_of i3 = Inr (c, i4)"
      and i': "i' = handler (CallClearedEvent (dialogueChannelId (current i ! d)) c 200) i4"
      using rest r cur unset by (auto simp: bindO_eq_Inr_iff dialogue_of_Inr split: if_splits)
    obtain adr prt tr resp where e3: "effect ?ds [Send adr prt tr resp] i i3"
      using reply_then [OF cleared [OF 2] 3 polite_builds(2)] by (metis append_Nil)
    have "c = call_at a i"
      using ask_callId(3) [OF 4] call_at_effect [OF e3 for_d(2)] by simp
    then show ?thesis
      using connected rec d handler_then [OF ask_then [OF e3 polite_getters(1) 4]] by (simp add: i') blast
  next
    case clearing
    then obtain i2 c i3 where 2: "setState d CLEARED i1 = Inr i2" and 3: "ask a callId_of i2 = Inr (c, i3)"
      and i': "i' = handler (CallClearedEvent (dialogueChannelId (current i ! d)) c 200) i3"
      using rest r cur by (auto simp: bindO_eq_Inr_iff dialogue_of_Inr)
    have "c = call_at a i"
      using ask_callId(3) [OF 3] call_at_effect [OF cleared [OF 2] for_d(2)] by simp
    then show ?thesis
      using clearing d handler_then [OF ask_then [OF cleared [OF 2] polite_getters(1) 3]] by (simp add: i')
  next
    case other
    then have "i' = i1"
      using rest r cur by (auto simp: bindO_eq_Inr_iff dialogue_of_Inr)
    then show ?thesis using other d for_d(1) by simp
  qed
qed

end
