(* ===== verification/CallProtocol.thy ===== *)
theory CallProtocol
  imports SipInterface
begin

text \<open>
  What the interface promises its controller: the events of a channel follow the call protocol below,
  and the state of the channel's dialogue is the state the protocol has reached. The proof is an
  invariant of every reachable interface, where a step is one message, one call of an operation, or a
  change of the parser.
\<close>

section \<open>The call protocol\<close>

fun call_protocol :: "dialogue_state \<Rightarrow> call_event \<Rightarrow> dialogue_state option" where
  "call_protocol st (CallNewCallEvent _ _ _ _ _ _ _) = Some INCOMING"
| "call_protocol st (CallAnsweredEvent _ _) = (if st = INCOMING then Some CONNECTED else None)"
| "call_protocol st (CallClearedEvent _ _ code) =
     (if st = CONNECTED \<and> code = 200 then Some CLEARED
      else if st = INCOMING \<and> code = 487 then Some INCOMING else None)"
| "call_protocol st (CallMediaRecordingStartedEvent _ _ start _ _) = (if start then Some st else None)"

fun run_protocol :: "dialogue_state \<Rightarrow> call_event list \<Rightarrow> dialogue_state option" where
  "run_protocol st [] = Some st"
| "run_protocol st (e # es) =
     (case call_protocol st e of None \<Rightarrow> None | Some st' \<Rightarrow> run_protocol st' es)"

lemma run_protocol_append:
  "run_protocol st es = Some st' \<Longrightarrow> run_protocol st (es @ es') = run_protocol st' es'"
  by (induction st es rule: run_protocol.induct) (auto split: option.splits)

fun events_of :: "action list \<Rightarrow> call_event list" where
  "events_of [] = []"
| "events_of (Event e # acts) = e # events_of acts"
| "events_of (Send _ _ _ _ # acts) = events_of acts"

lemma events_of_append [simp]: "events_of (acts @ acts') = events_of acts @ events_of acts'"
  by (induction acts rule: events_of.induct) auto

lemma set_events_of: "e \<in> set (events_of acts) \<longleftrightarrow> Event e \<in> set acts"
  by (induction acts rule: events_of.induct) auto

definition channel_events :: "u32 \<Rightarrow> action list \<Rightarrow> call_event list" where
  "channel_events ch acts = filter (\<lambda>e. eventChannel e = ch) (events_of acts)"

lemma channel_events_append:
  "channel_events ch (acts @ acts') = channel_events ch acts @ channel_events ch acts'"
  by (simp add: channel_events_def)

section \<open>The invariant\<close>

definition event_of_dialogue :: "call_event \<Rightarrow> sip_dialogue \<Rightarrow> bool" where
  "event_of_dialogue e x \<longleftrightarrow> eventChannel e = dialogueChannelId x \<and>
     eventCallId e \<in> {dialogueCallId x, c_str (dialogueCallId x)}"

definition reached_states :: "dialogue_state set" where
  "reached_states = {NONE, INCOMING, CONNECTED, CLEARED}"

definition follows_protocol :: "action list \<Rightarrow> sip_dialogue \<Rightarrow> bool" where
  "follows_protocol acts x \<longleftrightarrow> dialogueState x \<in> reached_states \<and>
     run_protocol NONE (channel_events (dialogueChannelId x) acts) = Some (dialogueState x)"

definition calls_inv :: "sip_dialogue list \<Rightarrow> action list \<Rightarrow> bool" where
  "calls_inv ds acts \<longleftrightarrow> (\<forall>x \<in> set ds. follows_protocol acts x) \<and>
     (\<forall>e \<in> set (events_of acts). \<exists>x \<in> set ds. event_of_dialogue e x)"

definition plain_message :: "sip_message \<Rightarrow> bool" where
  "plain_message m \<longleftrightarrow> (isRequest m \<longrightarrow> msgChannelId m = None)"

definition interface_inv :: "sip_interface \<Rightarrow> bool" where
  "interface_inv i \<longleftrightarrow> manager_inv (dialogueManager i) \<and> calls_inv (current i) (actions i) \<and>
     (\<forall>m \<in> set (messages (dialogueManager i)). plain_message m)"

lemma interface_inv_new: "interface_inv new_sip_interface"
  by (simp add: interface_inv_def new_sip_interface_def manager_inv_new calls_inv_def)
    (simp add: new_dialogue_manager_def)

lemma plain_messages_extend:
  assumes "list_all2 message_extends ms ms'" and "\<forall>m \<in> set ms. plain_message m"
  shows "\<forall>m \<in> set ms'. plain_message m"
proof
  fix m assume "m \<in> set ms'"
  then obtain a where "a < length ms'" "m = ms' ! a"
    by (auto simp: in_set_conv_nth)
  then show "plain_message m"
    using assms by (auto simp: list_all2_conv_all_nth plain_message_def message_extends_def)
qed

text \<open>
  An effect on one dialogue keeps the invariant when its events belong to that dialogue and the
  protocol takes the old state to the new one.
\<close>

lemma calls_inv_step:
  assumes "calls_inv ds acts" and "d < length ds" and "distinct (map dialogueChannelId ds)"
    and "dialogueChannelId x = dialogueChannelId (ds ! d)" and "dialogueCallId x = dialogueCallId (ds ! d)"
    and "\<forall>e \<in> set (events_of acts'). event_of_dialogue e (ds ! d)"
    and "run_protocol (dialogueState (ds ! d)) (events_of acts') = Some (dialogueState x)"
    and "dialogueState x \<in> reached_states"
  shows "calls_inv (ds[d := x]) (acts @ acts')"
proof -
  have other: "dialogueChannelId (ds ! e) \<noteq> dialogueChannelId (ds ! d)" if "e < length ds" "e \<noteq> d" for e
    using assms(2,3) that by (simp add: distinct_conv_nth)
  have mine: "channel_events (dialogueChannelId x) acts' = events_of acts'"
    using assms(4,6) by (auto simp: channel_events_def event_of_dialogue_def intro: filter_True)
  have not_mine: "channel_events (dialogueChannelId (ds ! e)) acts' = []" if "e < length ds" "e \<noteq> d" for e
    using assms(6) other [OF that] by (auto simp: channel_events_def event_of_dialogue_def filter_empty_conv)
  have fp: "follows_protocol acts (ds ! e)" if "e < length ds" for e
    using assms(1) that by (simp add: calls_inv_def)
  have "follows_protocol (acts @ acts') (ds[d := x] ! e)" if "e < length ds" for e
  proof (cases "e = d")
    case True
    have "run_protocol NONE (channel_events (dialogueChannelId x) acts) = Some (dialogueState (ds ! d))"
      using fp [OF assms(2)] assms(4) by (simp add: follows_protocol_def)
    then show ?thesis
      using True assms(2,7,8)
      by (simp add: follows_protocol_def channel_events_append mine run_protocol_append)
  next
    case False
    then show ?thesis
      using fp [OF that] not_mine [OF that False] by (simp add: follows_protocol_def channel_events_append)
  qed
  then have all: "\<forall>y \<in> set (ds[d := x]). follows_protocol (acts @ acts') y"
    by (auto simp: in_set_conv_nth)
  have same: "event_of_dialogue e x = event_of_dialogue e (ds ! d)" for e
    using assms(4,5) by (simp add: event_of_dialogue_def)
  have "\<exists>y \<in> set (ds[d := x]). event_of_dialogue e y" if "y \<in> set ds" "event_of_dialogue e y" for e y
  proof -
    obtain k where "k < length ds" "ds ! k = y"
      using \<open>y \<in> set ds\<close> unfolding in_set_conv_nth by blast
    then have "ds[d := x] ! k \<in> set (ds[d := x])"
      by (intro nth_mem) simp
    moreover have "event_of_dialogue e (ds[d := x] ! k)"
      using that(2) same \<open>ds ! k = y\<close> assms(2) by (cases "k = d") simp_all
    ultimately show ?thesis by blast
  qed
  moreover have "x \<in> set (ds[d := x])"
    using assms(2) by (rule set_update_memI)
  ultimately have "\<forall>e \<in> set (events_of (acts @ acts')). \<exists>y \<in> set (ds[d := x]). event_of_dialogue e y"
    using assms(1,6) same by (fastforce simp: calls_inv_def)
  with all show ?thesis by (simp add: calls_inv_def)
qed

lemma channels_distinct:
  assumes "manager_inv s"
  shows "distinct (map dialogueChannelId (dialogues s))"
proof -
  have "dialogueChannelId (dialogues s ! d) \<noteq> dialogueChannelId (dialogues s ! e)"
    if "d < length (dialogues s)" "e < length (dialogues s)" "d \<noteq> e" for d e
    using dm.key1_inject [OF assms, of d e] that by (simp add: live_dialogue_def channel_of_def)
  then show ?thesis by (simp add: distinct_conv_nth)
qed

lemma effect_inv:
  assumes "interface_inv i" and "effect ((current i)[d := x]) acts i i'" and "d < length (current i)"
    and "x = (current i ! d)\<lparr>dialogueState := st, recordingState := r\<rparr>"
    and "\<forall>e \<in> set (events_of acts). event_of_dialogue e (current i ! d)"
    and "run_protocol (dialogueState (current i ! d)) (events_of acts) = Some st" and "st \<in> reached_states"
  shows "interface_inv i'"
proof -
  have inv: "manager_inv (dialogueManager i)" "calls_inv (current i) (actions i)"
    using assms(1) by (simp_all add: interface_inv_def)
  obtain s' where i': "i' = i\<lparr>dialogueManager := s', actions := actions i @ acts\<rparr>"
    and e: "edit ((current i)[d := x]) (dialogueManager i) s'"
    using assms(2) by (auto simp: effect_def)
  have "manager_inv (set_dialogue d x (dialogueManager i))"
    by (rule set_dialogue_inv [OF inv(1)])
      (use assms(3,4) in \<open>simp_all add: live_dialogue_def channel_of_def call_of_def\<close>)
  moreover have "quiet (set_dialogue d x (dialogueManager i)) s'"
    using e by (auto simp: quiet_def edit_def set_dialogue_def)
  ultimately have "manager_inv s'"
    using quiet_inv by blast
  moreover have "calls_inv ((current i)[d := x]) (actions i @ acts)"
    by (rule calls_inv_step [OF inv(2) assms(3) channels_distinct [OF inv(1)]]) (use assms(4-7) in simp_all)
  moreover have "\<forall>m \<in> set (messages s'). plain_message m"
    by (rule plain_messages_extend [OF edit_fields(5) [OF e]]) (use assms(1) in \<open>simp add: interface_inv_def\<close>)
  ultimately show ?thesis
    using edit_fields(1) [OF e] by (simp add: interface_inv_def i')
qed

text \<open>An effect without events and without a change of the dialogues.\<close>

lemma silent_inv:
  assumes "interface_inv i" and "effect (current i) acts i i'" and "events_of acts = []"
  shows "interface_inv i'"
proof -
  obtain s' where i': "i' = i\<lparr>dialogueManager := s', actions := actions i @ acts\<rparr>"
    and e: "edit (current i) (dialogueManager i) s'"
    using assms(2) by (auto simp: effect_def)
  have "manager_inv s'"
    using e quiet_inv assms(1) by (auto simp: quiet_edit [symmetric] interface_inv_def)
  moreover have "\<forall>m \<in> set (messages s'). plain_message m"
    by (rule plain_messages_extend [OF edit_fields(5) [OF e]]) (use assms(1) in \<open>simp add: interface_inv_def\<close>)
  ultimately show ?thesis
    using assms(1,3) edit_fields(1) [OF e]
    by (simp add: interface_inv_def i' calls_inv_def follows_protocol_def channel_events_def)
qed

section \<open>Every step keeps the invariant\<close>

lemma found_dialogue:
  assumes "interface_inv i" and "found_at a i = Some d"
  shows "d < length (current i)" and "dialogueCallId (current i ! d) = call_at a i"
    and "dialogueState (current i ! d) \<in> reached_states"
proof -
  have "live_dialogue (dialogueManager i) d \<and> call_of (dialogueManager i) d = call_at a i"
    using assms dm.find2_iff by (auto simp: interface_inv_def)
  then show "d < length (current i)" "dialogueCallId (current i ! d) = call_at a i"
    by (simp_all add: live_dialogue_def call_of_def)
  then show "dialogueState (current i ! d) \<in> reached_states"
    using assms(1) by (simp add: interface_inv_def calls_inv_def follows_protocol_def)
qed

lemma set_same_dialogue: "d < length ds \<Longrightarrow> ds[d := (ds ! d)\<lparr>dialogueState := dialogueState (ds ! d)\<rparr>] = ds"
  by simp

lemma processRequest_inv:
  assumes "interface_inv i" and "processRequest nl t a i = Inr i'"
    and "a < length (messages (dialogueManager i))" and "isRequest (messages (dialogueManager i) ! a)"
  shows "interface_inv i'"
proof (cases "found_at a i")
  case None
  show ?thesis
  proof (cases "t = M_SUBSCRIBE")
    case True
    then show ?thesis
      using assms(2) processSubscribe_effect silent_inv [OF assms(1)] by (fastforce simp: processRequest_def)
  next
    case False
    then have "effect (current i) [] i i'"
      using assms(2) process_without_dialogue [OF None] processOptions_effect effect_refl
      by (cases t) (simp_all add: processRequest_def)
    then show ?thesis by (rule silent_inv [OF assms(1)]) simp
  qed
next
  case (Some d)
  note found = found_dialogue [OF assms(1) Some]
  have channel_unset: "msgChannelId (messages (dialogueManager i) ! a) = None"
    using assms(1,3,4) by (auto simp: interface_inv_def plain_message_def)
  have step: "interface_inv i'"
    if "effect ((current i)[d := (current i ! d)\<lparr>dialogueState := st\<rparr>]) acts i i'"
      and "\<forall>e \<in> set (events_of acts). event_of_dialogue e (current i ! d)"
      and "run_protocol (dialogueState (current i ! d)) (events_of acts) = Some st"
      and "st \<in> reached_states" for st acts
    by (rule effect_inv [OF assms(1) that(1) found(1) _ that(2,3,4),
          where r = "recordingState (current i ! d)"]) simp
  have keep: "interface_inv i'"
    if "effect (current i) acts i i'" and "\<forall>e \<in> set (events_of acts). event_of_dialogue e (current i ! d)"
      and "run_protocol (dialogueState (current i ! d)) (events_of acts) = Some (dialogueState (current i ! d))"
    for acts
    using step [OF _ that(2,3) found(3)] that(1) found(1) by simp
  have mine: "event_of_dialogue e (current i ! d)"
    if "eventChannel e = dialogueChannelId (current i ! d)" "eventCallId e = call_at a i" for e
    using that found(2) by (simp add: event_of_dialogue_def)
  consider (invite) "t = M_INVITE" | (ack) "t = M_ACK" | (bye) "t = M_BYE" | (cancel) "t = M_CANCEL"
    | (options) "t = M_OPTIONS" | (subscribe) "t = M_SUBSCRIBE" | (other) "processRequest nl t a i = Inr i"
    by (cases t) (auto simp: processRequest_def)
  then show ?thesis
  proof cases
    case invite
    then have "processInvite nl a i = Inr i'" using assms(2) by (simp add: processRequest_def)
    from processInvite_effect [OF this Some] obtain adr prt tr resp to fromField headers bodies where
      "effect ((current i)[d := (current i ! d)\<lparr>dialogueState := INCOMING\<rparr>])
        [Send adr prt tr resp, Event (CallNewCallEvent (dialogueChannelId (current i ! d)) (call_at a i)
           (responseTag (current i ! d)) to fromField headers bodies)] i i'" by blast
    then show ?thesis by (rule step) (simp_all add: mine reached_states_def)
  next
    case ack
    then have "processAck nl a i = Inr i'" using assms(2) by (simp add: processRequest_def)
    note e = processAck_effect [OF this Some]
    show ?thesis
    proof (cases "dialogueState (current i ! d) = INCOMING")
      case True
      then show ?thesis
        using e by (intro step) (auto simp: mine reached_states_def)
    next
      case False
      then show ?thesis
        using e silent_inv [OF assms(1), of "[]"] by simp
    qed
  next
    case bye
    then have "processBye nl a i = Inr i'" using assms(2) by (simp add: processRequest_def)
    note e = processBye_effect [OF this Some channel_unset assms(4)]
    show ?thesis
    proof (cases "dialogueState (current i ! d) = CONNECTED")
      case True
      then obtain adr prt tr resp where "effect ((current i)[d := (current i ! d)\<lparr>dialogueState := CLEARED\<rparr>])
         [Send adr prt tr resp,
          Event (CallClearedEvent (dialogueChannelId (current i ! d)) (call_at a i) 200)] i i'"
        using e by auto
      then show ?thesis by (rule step) (simp_all add: mine reached_states_def True)
    next
      case False
      then show ?thesis
        using e found(3) silent_inv [OF assms(1), of "[]"] by (auto simp: reached_states_def)
    qed
  next
    case cancel
    then have "processCancel nl a i = Inr i'" using assms(2) by (simp add: processRequest_def)
    from conjunct2 [OF processCancel_effect [OF this Some]] show ?thesis
      by (rule keep) (simp_all add: mine)
  next
    case options
    then show ?thesis
      using assms(2) processOptions_effect silent_inv [OF assms(1)] by (fastforce simp: processRequest_def)
  next
    case subscribe
    then show ?thesis
      using assms(2) processSubscribe_effect silent_inv [OF assms(1)] by (fastforce simp: processRequest_def)
  next
    case other
    then show ?thesis using assms(1,2) by simp
  qed
qed

lemma opened_calls_inv:
  assumes "interface_inv i" and "opened a (dialogueManager i) s'" and "manager_inv s'"
  shows "interface_inv (i\<lparr>dialogueManager := s'\<rparr>)"
proof -
  let ?s = "dialogueManager i"
  note fields = opened_fields [OF assms(2)]
  let ?x = "fresh_dialogue (lastChannelId ?s + 1) a (messages ?s ! a)"
  have inv: "calls_inv (current i) (actions i)"
    using assms(1) by (simp add: interface_inv_def)
  have new: "dialogueChannelId y \<noteq> dialogueChannelId ?x" if "y \<in> set (current i)" for y
  proof -
    have "dialogueChannelId ?x \<notin> dialogueChannelId ` set (current i)"
      using channels_distinct [OF assms(3)] by (simp add: fields(1))
    then show ?thesis using imageI [OF that, of dialogueChannelId] by metis
  qed
  have "channel_events (dialogueChannelId ?x) (actions i) = []"
    unfolding channel_events_def filter_empty_conv
  proof (intro ballI notI)
    fix e assume "e \<in> set (events_of (actions i))" and "eventChannel e = dialogueChannelId ?x"
    moreover obtain y where "y \<in> set (current i)" "event_of_dialogue e y"
      using inv calculation(1) by (auto simp: calls_inv_def)
    ultimately show False using new by (auto simp: event_of_dialogue_def)
  qed
  then have "follows_protocol (actions i) ?x"
    by (simp add: follows_protocol_def reached_states_def) (simp add: fresh_dialogue_def)
  moreover have "\<forall>m \<in> set (messages s'). plain_message m"
    by (rule plain_messages_extend [OF fields(2)]) (use assms(1) in \<open>simp add: interface_inv_def\<close>)
  ultimately show ?thesis
    using assms(3) inv by (auto simp: interface_inv_def fields(1) calls_inv_def)
qed

lemma processMessage_inv:
  assumes "interface_inv i" and "processMessage nl (Some a) i = Inr i'" and "length (current i) + 1 < 2 ^ 32"
  shows "interface_inv i'"
proof -
  obtain r s where 1: "updateTransaction (Some a) (dialogueManager i) = Inr (r, s)"
    and rest: "(case r of None \<Rightarrow> Inr (i\<lparr>dialogueManager := s\<rparr>) | Some t \<Rightarrow>
      bindO (message_at a s) (\<lambda>m. if isRequest m then processRequest nl (requestType m) a (i\<lparr>dialogueManager := s\<rparr>)
        else Inr (i\<lparr>dialogueManager := s\<rparr>))) = Inr i'"
    using assms(2) by (auto simp: processMessage_def bindO_eq_Inr_iff Let_def)
  have upd: "a < length (messages (dialogueManager i))" "updated a (dialogueManager i) r s"
    using updateTransaction_updated [OF 1] by simp_all
  have m: "manager_inv s"
    using updated_inv [OF upd(2) _ upd(1) assms(3)] assms(1) by (simp add: interface_inv_def)
  have i1: "interface_inv (i\<lparr>dialogueManager := s\<rparr>)"
  proof (cases "quiet (dialogueManager i) s")
    case True
    then have "effect (current i) [] i (i\<lparr>dialogueManager := s\<rparr>)"
      by (auto simp: effect_def quiet_edit)
    then show ?thesis by (rule silent_inv [OF assms(1)]) simp
  next
    case False
    then have "opened a (dialogueManager i) s"
      using upd(2) by (auto simp: updated_def Let_def split: if_splits)
    then show ?thesis using opened_calls_inv [OF assms(1)] m by blast
  qed
  show ?thesis
    using rest i1 processRequest_inv [OF i1]
    by (auto simp: bindO_eq_Inr_iff message_at_def split: option.splits if_splits)
qed

section \<open>Reachable interfaces\<close>

text \<open>
  One step of an interface: a message from a parser, a new state of the parser, a new TCP connection, an
  operation of the controller. A message may open a dialogue, so there must be a channel number left:
  the counter has 32 bits, and the steps cover the calls before it wraps around.
\<close>

definition channel_left :: "sip_interface \<Rightarrow> bool" where
  "channel_left i \<longleftrightarrow> length (current i) + 1 < 2 ^ 32"

definition parser_plain :: "sip_parser \<Rightarrow> bool" where
  "parser_plain p \<longleftrightarrow> (\<forall>m. currentMessage p = Some m \<longrightarrow> plain_message m)"

inductive sip_step :: "logging \<Rightarrow> sip_interface \<Rightarrow> sip_interface \<Rightarrow> bool" for nl where
  message: "plain_message m \<Longrightarrow> channel_left i \<Longrightarrow> deliver nl m i = Inr i' \<Longrightarrow> sip_step nl i i'"
| parser: "parser_plain p \<Longrightarrow> sip_step nl i (i\<lparr>udpParser := p\<rparr>)"
| connection: "onTcpConnection status fresh i = (c, i') \<Longrightarrow> sip_step nl i i'"
| answer: "answerCall nl ch tag contact sdp i = Inr (r, i') \<Longrightarrow> sip_step nl i i'"
| recording: "startRecordingCall nl ch filename i = Inr (r, i') \<Longrightarrow> sip_step nl i i'"

inductive_cases sip_stepE: "sip_step nl i i'"

inductive sip_reachable :: "logging \<Rightarrow> sip_interface \<Rightarrow> bool" for nl where
  start: "sip_reachable nl new_sip_interface"
| step: "sip_reachable nl i \<Longrightarrow> sip_step nl i i' \<Longrightarrow> sip_reachable nl i'"

lemma answerCall_effect:
  assumes "answerCall nl ch tag contact sdp i = Inr (r, i')"
  shows "\<exists>acts. effect (current i) acts i i' \<and> events_of acts = []"
proof (cases "i' = i")
  case True
  then show ?thesis using effect_refl [of i] by (intro exI [of _ "[]"]) simp
next
  case False
  obtain d where d: "retrieveDialogueByChannel ch (dialogueManager i) = Some d"
    using assms False by (auto simp: answerCall_def split: option.splits)
  then obtain x where x: "dialogue_of d i = Inr x" and rest: "(case currentTransaction x of
              None \<Rightarrow> Inr (0, i)
            | Some t \<Rightarrow>
                (case sipRequest t of
                   None \<Rightarrow> Inr (1, i)
                 | Some a \<Rightarrow>
                     bindO (ask a (buildAnswerResponse nl (responseTag x) sdp) i) (\<lambda>(response, i).
                     bindO (ask a getRemoteAddress i) (\<lambda>(address, i).
                     bindO (ask a getRemotePort i) (\<lambda>(prt, i).
                     bindO (ask a getTransportType i) (\<lambda>(transport, i).
                       Inr (0, sendMessage address prt transport response i))))))) = Inr (r, i')"
    using assms by (auto simp: answerCall_def bindO_eq_Inr_iff)
  then obtain t a where "currentTransaction x = Some t" "sipRequest t = Some a"
    using False by (auto split: option.splits)
  with rest obtain resp i1 adr i2 prt i3 tr i4 where
    1: "ask a (buildAnswerResponse nl (responseTag x) sdp) i = Inr (resp, i1)"
      "ask a getRemoteAddress i1 = Inr (adr, i2)" "ask a getRemotePort i2 = Inr (prt, i3)"
      "ask a getTransportType i3 = Inr (tr, i4)"
    and i': "i' = sendMessage adr prt tr resp i4"
    by (auto simp: bindO_eq_Inr_iff)
  have "effect (current i) [] i i4"
    by (intro ask_then [OF _ _ 1(4)] ask_then [OF _ _ 1(3)] ask_then [OF _ _ 1(2)] ask_then [OF _ _ 1(1)]
        effect_refl polite_via_getters polite_builds)
  then have "effect (current i) [Send (c_str adr) prt tr resp] i i'"
    unfolding i' by (auto simp: effect_def sendMessage_def)
  then show ?thesis by (intro exI [of _ "[Send (c_str adr) prt tr resp]"]) simp
qed

lemma startRecordingCall_inv:
  assumes "interface_inv i" and "startRecordingCall nl ch filename i = Inr (r, i')"
  shows "interface_inv i' \<and> udpParser i' = udpParser i"
proof (cases "retrieveDialogueByChannel ch (dialogueManager i)")
  case None
  then show ?thesis using assms by (simp add: startRecordingCall_def)
next
  case (Some d)
  let ?x = "(current i ! d)\<lparr>recordingState := True\<rparr>" and ?s = "dialogueManager i"
  let ?e = "CallMediaRecordingStartedEvent (dialogueChannelId (current i ! d))
    (c_str (dialogueCallId (current i ! d))) True 0 ''OK''"
  have d: "d < length (current i)" and i': "i' = handler ?e (put_dialogue d ?x i)"
    using assms(2) Some by (auto simp: startRecordingCall_def bindO_eq_Inr_iff dialogue_of_Inr Let_def)
  have "effect ((current i)[d := ?x]) [] i (put_dialogue d ?x i)"
    by (auto simp: effect_def edit_def put_dialogue_def set_dialogue_def intro!: list_all2_refl
        exI [of _ "set_dialogue d ?x ?s"])
  then have e: "effect ((current i)[d := ?x]) [Event ?e] i i'"
    using handler_then unfolding i' by fastforce
  have st: "dialogueState (current i ! d) \<in> reached_states"
    using assms(1) d by (simp add: interface_inv_def calls_inv_def follows_protocol_def)
  have "interface_inv i'"
    by (rule effect_inv [OF assms(1) e d, where st = "dialogueState (current i ! d)" and r = True])
      (use st in \<open>simp_all add: event_of_dialogue_def\<close>)
  then show ?thesis by (simp add: i' handler_def put_dialogue_def)
qed

lemma deliver_inv:
  assumes "interface_inv i" and "plain_message m" and "channel_left i" and "deliver nl m i = Inr i'"
  shows "interface_inv i'"
proof -
  let ?s = "dialogueManager i"
  let ?i = "i\<lparr>dialogueManager := ?s\<lparr>messages := messages ?s @ [m]\<rparr>\<rparr>"
  have "interface_inv ?i"
    using assms(1,2) message_inv by (auto simp: interface_inv_def)
  moreover have "processMessage nl (Some (length (messages ?s))) ?i = Inr i'"
    using assms(4) by (simp add: deliver_def Let_def)
  ultimately show ?thesis
    using processMessage_inv [of ?i nl _ i'] assms(3) by (simp add: channel_left_def)
qed

lemma sip_step_inv: "sip_step nl i i' \<Longrightarrow> interface_inv i \<Longrightarrow> interface_inv i'"
proof (induction rule: sip_step.induct)
  case (message m i i')
  then show ?case using deliver_inv by blast
next
  case (parser p i)
  then show ?case by (simp add: interface_inv_def)
next
  case (connection status fresh i c i')
  then show ?case by (auto simp: onTcpConnection_def interface_inv_def Let_def split: if_splits)
next
  case (answer ch tag contact sdp i r i')
  then show ?case using answerCall_effect silent_inv by blast
next
  case (recording ch filename i r i')
  then show ?case using startRecordingCall_inv by blast
qed

lemma reachable_inv: "sip_reachable nl i \<Longrightarrow> interface_inv i"
  by (induction rule: sip_reachable.induct) (auto intro: interface_inv_new sip_step_inv)

text \<open>
  C4: In every reachable interface, the events handed to the controller for a channel are a run of the
  call protocol (a call is announced, answered once, then cleared; a cleared or answered channel only
  starts over with a new announcement), the dialogue of the channel is in the state that run reached,
  and no dialogue is ever in a state OUTGOING or CLEARING.
\<close>

theorem events_follow_call_protocol:
  assumes "sip_reachable nl i" and "x \<in> set (current i)"
  shows "run_protocol NONE (channel_events (dialogueChannelId x) (actions i)) = Some (dialogueState x) \<and>
    dialogueState x \<notin> {OUTGOING, CLEARING}"
  using reachable_inv [OF assms(1)] assms(2)
  by (auto simp: interface_inv_def calls_inv_def follows_protocol_def reached_states_def)

text \<open>
  C22: In every interface that steps of defined behaviour reach, no event is sent for a channel that is not
  that of a dialogue, the
  event carries the call id of that dialogue (as a C string in recording events), and no two dialogues
  share a channel or a call id. A step the code has and this leaves out, because it reads a variable that
  was never set: the BYE of a call that is recorded, whose event takes its channel from the request
  (\<open>recorded_call_bye_faults\<close> below).
\<close>

theorem events_belong_to_calls:
  assumes "sip_reachable nl i" and "Event e \<in> set (actions i)"
  shows "\<exists>!d. d < length (current i) \<and> eventChannel e = dialogueChannelId (current i ! d) \<and>
    eventCallId e \<in> {dialogueCallId (current i ! d), c_str (dialogueCallId (current i ! d))} \<and>
    retrieveDialogue (dialogueCallId (current i ! d)) (dialogueManager i) = Some d"
proof -
  have inv: "interface_inv i" by (rule reachable_inv [OF assms(1)])
  have "e \<in> set (events_of (actions i))"
    using assms(2) by (simp add: set_events_of)
  then obtain y where "y \<in> set (current i)" "event_of_dialogue e y"
    using inv by (auto simp: interface_inv_def calls_inv_def)
  then obtain d where d: "d < length (current i)" "event_of_dialogue e (current i ! d)"
    by (metis in_set_conv_nth)
  have m: "manager_inv (dialogueManager i)"
    using inv by (simp add: interface_inv_def)
  have unique: "d' = d" if "d' < length (current i)" "eventChannel e = dialogueChannelId (current i ! d')" for d'
    using dm.key1_inject [OF m, of d' d] that d
    by (simp add: live_dialogue_def channel_of_def event_of_dialogue_def)
  have "retrieveDialogue (dialogueCallId (current i ! d)) (dialogueManager i) = Some d"
    using dm.find2_key [OF m, of d] d(1) by (simp add: live_dialogue_def call_of_def)
  then show ?thesis
    using d unique by (intro ex1I [of _ d]) (auto simp: event_of_dialogue_def)
qed

section \<open>The loggers that are not there\<close>

text \<open>
  Every operation of the interface on a call starts with the logger of the dialogue manager. So it is that
  of a program with all its loggers, behind that call.
\<close>

lemma operations_nl:
  "deliver nl m i = bindO nl (\<lambda>_. deliver (Inr ()) m i)"
  "answerCall nl ch tag contact sdp i = bindO nl (\<lambda>_. answerCall (Inr ()) ch tag contact sdp i)"
  "startRecordingCall nl ch filename i = bindO nl (\<lambda>_. startRecordingCall (Inr ()) ch filename i)"
  "getMediaOffer nl ch i = bindO nl (\<lambda>_. getMediaOffer (Inr ()) ch i)"
  by (cases nl; simp add: deliver_def processMessage_def answerCall_def startRecordingCall_def
      getMediaOffer_def Let_def)+

lemma deliver_all_nl: "deliver_all nl (m # ms) i = bindO nl (\<lambda>_. deliver_all (Inr ()) (m # ms) i)"
proof (cases nl)
  case (Inl e)
  then show ?thesis by (simp add: operations_nl(1) [of "Inl e"])
next
  case (Inr u)
  then show ?thesis by (cases u) simp
qed

lemma sip_step_nl: "sip_step nl i i' \<Longrightarrow> sip_step (Inr ()) i i'"
  by (induction rule: sip_step.induct)
    (auto simp: operations_nl [of nl] intro: sip_step.intros)

lemma reachable_nl: "sip_reachable nl i \<Longrightarrow> sip_reachable (Inr ()) i"
  by (induction rule: sip_reachable.induct) (auto intro: sip_reachable.intros sip_step_nl)

section \<open>A complete call\<close>

text \<open>
  A request with all the headers the interface reads: no accessor changes it, every reply can be built.
\<close>

definition complete_request :: "sip_message \<Rightarrow> bool" where
  "complete_request m \<longleftrightarrow> isRequest m \<and> msgChannelId m = None \<and>
     (\<forall>k \<in> {''CALL-ID'', ''FROM'', ''TO'', ''CSEQ''}. \<exists>h. map_of (msgHeaders m) k = Some (Some h)) \<and>
     (\<exists>h via prt tr txt. map_of (msgHeaders m) ''VIA'' = Some (Some h) \<and> headerExt h = Ext_Via via \<and>
        remotePort via = Some prt \<and> transportType via = Some tr \<and> getResponseValue via = Inr txt) \<and>
     (\<forall>k r. (k, r) \<in> set (msgHeaders m) \<longrightarrow> r \<noteq> None)"

definition header_text :: "string \<Rightarrow> sip_message \<Rightarrow> string" where
  "header_text k m = fst (header_value_at k m)"

lemma header_at_present: "map_of (msgHeaders m) k = Some (Some h) \<Longrightarrow> header_at k m = (Some h, m)"
  by (simp add: header_at_def)

lemma header_value_present:
  "map_of (msgHeaders m) k = Some (Some h) \<Longrightarrow> header_value_at k m = (header_text k m, m)"
  by (simp add: header_text_def header_value_at_def header_at_present)

lemma complete_getters:
  assumes "complete_request m"
  shows "getCallId m = (header_text ''CALL-ID'' m, m)" and "getFrom m = (header_text ''FROM'' m, m)"
    and "getTo m = (header_text ''TO'' m, m)" and "getCSequence m = (header_text ''CSEQ'' m, m)"
  using assms header_value_present
  by (auto simp: complete_request_def getCallId_def getFrom_def getTo_def getCSequence_def)

lemma complete_via:
  assumes "complete_request m"
  obtains adr prt tr via where "getRemoteAddress m = Inr (adr, m)" and "getRemotePort m = Inr (prt, m)"
    and "getTransportType m = Inr (tr, m)" and "getResponseViaContent (Inr ()) m = Inr via"
  using assms
  by (auto simp: complete_request_def getRemoteAddress_def getRemotePort_def getTransportType_def
      getResponseViaContent_def header_at_present via_of_def initialised_def find_header_def)

lemma descriptors_total: "(\<forall>k r. (k, r) \<in> set hs \<longrightarrow> r \<noteq> None) \<Longrightarrow> \<exists>ds. descriptors hs = Inr ds"
  by (induction hs rule: descriptors.induct) fastforce+

lemma complete_headers: "complete_request m \<Longrightarrow> \<exists>ds. getHeaders m = Inr ds"
  using descriptors_total by (auto simp: complete_request_def getHeaders_def)

text \<open>Where the reply goes, the reply itself, and the headers of an event.\<close>

definition reply_action :: "(sip_message \<Rightarrow> (string \<times> sip_message) outcome) \<Rightarrow> sip_message \<Rightarrow> action" where
  "reply_action build m =
     (case (getRemoteAddress m, getRemotePort m, getTransportType m, build m) of
        (Inr (adr, _), Inr (prt, _), Inr (tr, _), Inr (resp, _)) \<Rightarrow> Send (c_str adr) prt tr resp
      | _ \<Rightarrow> Send [] 0 Transport_UDP [])"

definition headers_of :: "sip_message \<Rightarrow> (string \<times> string) list" where
  "headers_of m = (case getHeaders m of Inr ds \<Rightarrow> ds | Inl _ \<Rightarrow> [])"

lemma complete_base:
  assumes "complete_request m"
  shows "\<exists>resp. buildStandardBaseResponse (Inr ()) meth localTag m = Inr (resp, m)"
proof -
  obtain via where "getResponseViaContent (Inr ()) m = Inr via"
    using complete_via [OF assms] by blast
  then show ?thesis
    by (simp add: buildStandardBaseResponse_def complete_getters [OF assms])
qed

lemma complete_builds:
  assumes "complete_request m"
  shows "\<exists>resp. buildTryingResponse (Inr ()) localTag m = Inr (resp, m)"
    and "\<exists>resp. buildOkResponse (Inr ()) localTag m = Inr (resp, m)"
    and "\<exists>resp. buildAnswerResponse (Inr ()) localTag sdp m = Inr (resp, m)"
proof -
  have "\<exists>resp. buildStandardFullResponse (Inr ()) meth localTag m = Inr (resp, m)" for meth
    using complete_base [OF assms, of meth localTag] by (auto simp: buildStandardFullResponse_def)
  then show "\<exists>resp. buildTryingResponse (Inr ()) localTag m = Inr (resp, m)"
    "\<exists>resp. buildOkResponse (Inr ()) localTag m = Inr (resp, m)"
    by (simp_all add: buildTryingResponse_def buildOkResponse_def)
  show "\<exists>resp. buildAnswerResponse (Inr ()) localTag sdp m = Inr (resp, m)"
    using complete_base [OF assms, of "''200 OK''" localTag] by (auto simp: buildAnswerResponse_def)
qed

lemma ask_unchanged:
  assumes "a < length (messages (dialogueManager i))" and "f (messages (dialogueManager i) ! a) = Inr (x, messages (dialogueManager i) ! a)"
  shows "ask a f i = Inr (x, i)"
  using assms by (simp add: ask_def with_message_def message_at_def)

lemma reply_complete:
  assumes "a < length (messages (dialogueManager i))" and "messages (dialogueManager i) ! a = m"
    and "complete_request m" and "build m = Inr (resp, m)"
  shows "reply a build i = Inr (i\<lparr>actions := actions i @ [reply_action build m]\<rparr>)"
proof -
  obtain adr prt tr via where via: "getRemoteAddress m = Inr (adr, m)" "getRemotePort m = Inr (prt, m)"
    "getTransportType m = Inr (tr, m)"
    using complete_via [OF assms(3)] by metis
  have "ask a getRemoteAddress i = Inr (adr, i)" "ask a getRemotePort i = Inr (prt, i)"
    "ask a getTransportType i = Inr (tr, i)" "ask a build i = Inr (resp, i)"
    using ask_unchanged [OF assms(1)] assms(2,4) via by metis+
  then show ?thesis
    by (simp add: reply_def sendMessage_def reply_action_def via assms(4))
qed

abbreviation with_new_message :: "sip_message \<Rightarrow> sip_interface \<Rightarrow> sip_interface" where
  "with_new_message m i \<equiv>
     i\<lparr>dialogueManager := (dialogueManager i)\<lparr>messages := messages (dialogueManager i) @ [m]\<rparr>\<rparr>"

lemma complete_callId:
  assumes "complete_request m" and "a < length (messages s)" and "messages s ! a = m"
  shows "with_message a callId_of s = Inr (header_text ''CALL-ID'' m, s)"
  using assms by (simp add: with_message_def message_at_def complete_getters list_update_same_conv)

lemma dialogue_for_complete:
  assumes "complete_request m" and "a < length (messages (dialogueManager i))"
    and "messages (dialogueManager i) ! a = m"
  shows "dialogue_for (Inr ()) a i = Inr (retrieveDialogue (header_text ''CALL-ID'' m) (dialogueManager i), i)"
  using complete_callId [OF assms] by (simp add: dialogue_for_def ask_def)

lemma deliver_known:
  assumes "interface_inv i" and "complete_request m" and "requestType m \<noteq> M_INVITE"
    and "retrieveDialogue (header_text ''CALL-ID'' m) (dialogueManager i) = Some d"
  shows "deliver (Inr ()) m i = processRequest (Inr ()) (requestType m) (length (messages (dialogueManager i))) (with_new_message m i)"
proof -
  let ?i = "with_new_message m i" and ?a = "length (messages (dialogueManager i))"
  have inv: "manager_inv (dialogueManager i)"
    using assms(1) by (simp add: interface_inv_def)
  have live: "live_dialogue (dialogueManager i) d"
    using assms(4) dm.find2_iff [OF inv] by blast
  then obtain t where t: "currentTransaction (current i ! d) = Some t" "d < length (current i)"
    using manager_inv_dialogue [OF inv live] by (auto simp: dialogue_ok_def live_dialogue_def)
  have c: "with_message ?a callId_of (dialogueManager ?i) = Inr (header_text ''CALL-ID'' m, dialogueManager ?i)"
    by (rule complete_callId [OF assms(2)]) simp_all
  have "isRequest m" using assms(2) by (simp add: complete_request_def)
  then have "updateTransaction (Some ?a) (dialogueManager ?i) = Inr (Some t, dialogueManager ?i)"
    using assms(3,4) t c by (simp add: updateTransaction_def message_at_def dialogue_at_def retrieveDialogue_def)
  then show ?thesis
    using \<open>isRequest m\<close> by (simp add: deliver_def processMessage_def message_at_def Let_def)
qed

lemma known_message_inv:
  assumes "interface_inv i" and "complete_request m" and "requestType m \<noteq> M_INVITE"
    and "retrieveDialogue (header_text ''CALL-ID'' m) (dialogueManager i) = Some d" and "deliver (Inr ()) m i = Inr i'"
  shows "interface_inv i'"
proof -
  have "interface_inv (with_new_message m i)"
    using assms(1,2) message_inv by (auto simp: interface_inv_def complete_request_def plain_message_def)
  moreover have "processRequest (Inr ()) (requestType m) (length (messages (dialogueManager i))) (with_new_message m i) = Inr i'"
    using deliver_known [OF assms(1-4)] assms(5) by simp
  ultimately show ?thesis
    by (rule processRequest_inv) (use assms(2) in \<open>simp_all add: complete_request_def\<close>)
qed

lemma ask_complete:
  assumes "complete_request m" and "a < length (messages (dialogueManager i))"
    and "messages (dialogueManager i) ! a = m"
  shows "ask a callId_of i = Inr (header_text ''CALL-ID'' m, i)"
    and "ask a (\<lambda>m. Inr (getTo m)) i = Inr (header_text ''TO'' m, i)"
    and "ask a (\<lambda>m. Inr (getFrom m)) i = Inr (header_text ''FROM'' m, i)"
  using assms complete_getters [OF assms(1)] by (auto intro!: ask_unchanged)

lemma setState_eq:
  "d < length (current i) \<Longrightarrow> setState d st i =
     Inr (put_dialogue d ((current i ! d)\<lparr>dialogueState := st\<rparr>) i)"
  by (simp add: setState_def dialogue_of_def dialogue_at_def)

lemma put_dialogue_fields [simp]:
  "current (put_dialogue d x i) = (current i)[d := x]"
  "messages (dialogueManager (put_dialogue d x i)) = messages (dialogueManager i)"
  "actions (put_dialogue d x i) = actions i"
  "retrieveDialogue c (dialogueManager (put_dialogue d x i)) = retrieveDialogue c (dialogueManager i)"
  by (simp_all add: put_dialogue_def set_dialogue_def retrieveDialogue_def)

lemma handler_fields [simp]:
  "dialogueManager (handler e i) = dialogueManager i" "actions (handler e i) = actions i @ [Event e]"
  by (simp_all add: handler_def)

text \<open>What the three requests of a call do: the state before, and the state and the actions after.\<close>

definition answered :: "sip_message \<Rightarrow> nat \<Rightarrow> sip_interface \<Rightarrow> sip_interface \<Rightarrow> bool" where
  "answered m d i i' \<longleftrightarrow>
     current i' = (current i)[d := (current i ! d)\<lparr>dialogueState := CONNECTED\<rparr>] \<and>
     actions i' = actions i @
       [Event (CallAnsweredEvent (dialogueChannelId (current i ! d)) (header_text ''CALL-ID'' m))] \<and>
     (\<forall>c. retrieveDialogue c (dialogueManager i') = retrieveDialogue c (dialogueManager i))"

definition cleared :: "sip_message \<Rightarrow> nat \<Rightarrow> sip_interface \<Rightarrow> sip_interface \<Rightarrow> bool" where
  "cleared m d i i' \<longleftrightarrow>
     current i' = (current i)[d := (current i ! d)\<lparr>dialogueState := CLEARED\<rparr>] \<and>
     actions i' = actions i @
       [reply_action (buildOkResponse (Inr ()) (responseTag (current i ! d))) m,
        Event (CallClearedEvent (dialogueChannelId (current i ! d)) (header_text ''CALL-ID'' m) 200)] \<and>
     (\<forall>c. retrieveDialogue c (dialogueManager i') = retrieveDialogue c (dialogueManager i))"

lemma live_found:
  assumes "interface_inv i" and "retrieveDialogue c (dialogueManager i) = Some d"
  shows "d < length (current i)"
  using assms dm.find2_iff by (auto simp: interface_inv_def live_dialogue_def)

lemma ack_answers:
  assumes "interface_inv i" and "complete_request m" and "requestType m = M_ACK"
    and "retrieveDialogue (header_text ''CALL-ID'' m) (dialogueManager i) = Some d"
    and "dialogueState (current i ! d) = INCOMING"
  shows "\<exists>i'. deliver (Inr ()) m i = Inr i' \<and> answered m d i i'"
proof -
  let ?i = "with_new_message m i" and ?a = "length (messages (dialogueManager i))"
  have d: "d < length (current i)" by (rule live_found [OF assms(1,4)])
  have found: "dialogue_for (Inr ()) ?a ?i = Inr (Some d, ?i)"
    using dialogue_for_complete [OF assms(2), of ?a ?i] assms(4) by (simp add: retrieveDialogue_def)
  let ?j = "put_dialogue d ((current ?i ! d)\<lparr>dialogueState := CONNECTED\<rparr>) ?i"
  have "deliver (Inr ()) m i = processAck (Inr ()) ?a ?i"
    using deliver_known [OF assms(1,2) _ assms(4)] assms(3) by (simp add: processRequest_def)
  also have "\<dots> = Inr (handler (CallAnsweredEvent (dialogueChannelId (current i ! d)) (header_text ''CALL-ID'' m)) ?j)"
    using found d assms(5) setState_eq [of d ?i CONNECTED] ask_complete(1) [OF assms(2), of ?a ?j]
    by (simp add: processAck_def dialogue_of_def dialogue_at_def)
  finally show ?thesis
    by (auto simp: answered_def) (simp add: retrieveDialogue_def)
qed

lemma bye_clears:
  assumes "interface_inv i" and "complete_request m" and "requestType m = M_BYE"
    and "retrieveDialogue (header_text ''CALL-ID'' m) (dialogueManager i) = Some d"
    and "dialogueState (current i ! d) = CONNECTED" and "\<not> recordingState (current i ! d)"
  shows "\<exists>i'. deliver (Inr ()) m i = Inr i' \<and> cleared m d i i'"
proof -
  let ?i = "with_new_message m i" and ?a = "length (messages (dialogueManager i))"
  have d: "d < length (current i)" by (rule live_found [OF assms(1,4)])
  have found: "dialogue_for (Inr ()) ?a ?i = Inr (Some d, ?i)"
    using dialogue_for_complete [OF assms(2), of ?a ?i] assms(4) by (simp add: retrieveDialogue_def)
  let ?j = "put_dialogue d ((current ?i ! d)\<lparr>dialogueState := CLEARED\<rparr>) ?i"
  let ?build = "buildOkResponse (Inr ()) (responseTag (current i ! d))"
  let ?k = "?j\<lparr>actions := actions ?j @ [reply_action ?build m]\<rparr>"
  obtain resp where b: "?build m = Inr (resp, m)"
    using complete_builds(2) [OF assms(2)] by blast
  have r: "reply ?a ?build ?j = Inr ?k"
    by (rule reply_complete [where build = ?build and resp = resp]) (simp_all add: assms(2) b)
  have "deliver (Inr ()) m i = processBye (Inr ()) ?a ?i"
    using deliver_known [OF assms(1,2) _ assms(4)] assms(3) by (simp add: processRequest_def)
  also have "\<dots> = Inr (handler (CallClearedEvent (dialogueChannelId (current i ! d)) (header_text ''CALL-ID'' m) 200) ?k)"
    using found d assms(5,6) setState_eq [of d ?i CLEARED] r ask_complete(1) [OF assms(2), of ?a ?k]
    by (simp add: processBye_def dialogue_of_def dialogue_at_def)
  finally show ?thesis
    by (auto simp: cleared_def) (simp add: retrieveDialogue_def)
qed

definition announced :: "sip_message \<Rightarrow> sip_interface \<Rightarrow> sip_interface \<Rightarrow> bool" where
  "announced m i i' \<longleftrightarrow>
     (let x = fresh_dialogue (lastChannelId (dialogueManager i) + 1) (length (messages (dialogueManager i))) m
      in current i' = current i @ [x\<lparr>dialogueState := INCOMING\<rparr>] \<and>
         messages (dialogueManager i') = messages (dialogueManager i) @ [m] \<and>
         actions i' = actions i @
           [reply_action (buildTryingResponse (Inr ()) (responseTag x)) m,
            Event (CallNewCallEvent (dialogueChannelId x) (header_text ''CALL-ID'' m) (responseTag x)
              (header_text ''TO'' m) (header_text ''FROM'' m) (headers_of m) (msgBodies m))] \<and>
         retrieveDialogue (header_text ''CALL-ID'' m) (dialogueManager i') = Some (length (current i)))"

lemma complete_opens:
  assumes "complete_request m" and "requestType m = M_INVITE"
    and "retrieveDialogue (header_text ''CALL-ID'' m) s = None" and "a < length (messages s)" and "messages s ! a = m"
  shows "updateTransaction (Some a) s =
    (let ch = lastChannelId s + 1; x = fresh_dialogue ch a m
     in Inr (currentTransaction x, add_dialogue ch (header_text ''CALL-ID'' m) x (s\<lparr>lastChannelId := ch\<rparr>)))"
proof -
  have c: "with_message a callId_of t = Inr (header_text ''CALL-ID'' m, t)" if "messages t = messages s" for t
    using complete_callId [OF assms(1)] assms(4,5) that by simp
  have "SipDialogue ch a (s\<lparr>lastChannelId := ch'\<rparr>) = Inr (fresh_dialogue ch a m, s\<lparr>lastChannelId := ch'\<rparr>)" for ch ch'
    using assms complete_getters(1) [OF assms(1)]
    by (simp add: SipDialogue_def c message_at_def setCurrentTransaction_def fresh_dialogue_def)
  then have "startTransaction (Some a) s =
    (let ch = lastChannelId s + 1; x = fresh_dialogue ch a m
     in Inr (currentTransaction x, add_dialogue ch (header_text ''CALL-ID'' m) x (s\<lparr>lastChannelId := ch\<rparr>)))"
    using assms(3) by (simp add: startTransaction_def c retrieveDialogue_def getNextChannelId_def Let_def)
  then show ?thesis
    using assms by (simp add: updateTransaction_def invite_transaction_def message_at_def c
        complete_request_def fresh_dialogue_def Let_def)
qed

text \<open>The interface after \<^verbatim>\<open>processInvite\<close> on a complete request for dialogue \<open>d\<close>.\<close>

definition announce :: "nat \<Rightarrow> nat \<Rightarrow> sip_interface \<Rightarrow> sip_interface" where
  "announce a d i =
     (let x = current i ! d; m = messages (dialogueManager i) ! a;
          i = put_dialogue d (x\<lparr>dialogueState := INCOMING\<rparr>) i
      in i\<lparr>actions := actions i @
           [reply_action (buildTryingResponse (Inr ()) (responseTag x)) m,
            Event (CallNewCallEvent (dialogueChannelId x) (header_text ''CALL-ID'' m) (responseTag x)
              (header_text ''TO'' m) (header_text ''FROM'' m) (headers_of m) (msgBodies m))]\<rparr>)"

lemma processInvite_complete:
  assumes "complete_request (messages (dialogueManager j) ! a)" and "a < length (messages (dialogueManager j))"
    and "retrieveDialogue (header_text ''CALL-ID'' (messages (dialogueManager j) ! a)) (dialogueManager j) = Some d"
    and "d < length (current j)"
  shows "processInvite (Inr ()) a j = Inr (announce a d j)"
proof -
  let ?m = "messages (dialogueManager j) ! a" and ?c = "header_text ''CALL-ID'' (messages (dialogueManager j) ! a)"
  let ?x = "(current j ! d)\<lparr>dialogueState := INCOMING\<rparr>"
  let ?build = "buildTryingResponse (Inr ()) (responseTag (current j ! d))" and ?k = "put_dialogue d ?x j"
  let ?l = "?k\<lparr>actions := actions ?k @ [reply_action ?build ?m]\<rparr>"
  obtain resp where b: "?build ?m = Inr (resp, ?m)"
    using complete_builds(1) [OF assms(1)] by blast
  have r: "reply a ?build ?k = Inr ?l"
    by (rule reply_complete [where build = ?build and resp = resp]) (simp_all add: assms b)
  have found: "dialogue_for (Inr ()) a j = Inr (Some d, j)"
    using dialogue_for_complete [OF assms(1,2)] assms(3) by simp
  have asks: "ask a callId_of ?l = Inr (?c, ?l)"
    "ask a (\<lambda>m. Inr (getTo m)) ?l = Inr (header_text ''TO'' ?m, ?l)"
    "ask a (\<lambda>m. Inr (getFrom m)) ?l = Inr (header_text ''FROM'' ?m, ?l)"
    by (simp_all add: ask_complete [OF assms(1)] assms(2))
  have looks: "look a getHeaders ?l = Inr (headers_of ?m)" "look a (\<lambda>m. Inr (getBodies m)) ?l = Inr (msgBodies ?m)"
    using complete_headers [OF assms(1)] assms(2)
    by (auto simp: look_def message_at_def headers_of_def getBodies_def)
  show ?thesis
    using r asks looks assms(4)
    by (simp add: processInvite_def found setState_eq dialogue_of_def dialogue_at_def announce_def Let_def handler_def)
qed

lemma invite_announces:
  assumes "complete_request m" and "requestType m = M_INVITE"
    and "retrieveDialogue (header_text ''CALL-ID'' m) (dialogueManager i) = None"
  shows "\<exists>i'. deliver (Inr ()) m i = Inr i' \<and> announced m i i'"
proof -
  let ?a = "length (messages (dialogueManager i))" and ?c = "header_text ''CALL-ID'' m" and ?n = "length (current i)"
  define ch where "ch = lastChannelId (dialogueManager i) + 1"
  define x where "x = fresh_dialogue ch ?a m"
  let ?s = "dialogueManager (with_new_message m i)"
  define j where "j = (with_new_message m i)\<lparr>dialogueManager := add_dialogue ch ?c x (?s\<lparr>lastChannelId := ch\<rparr>)\<rparr>"
  have j: "current j = current i @ [x]" "messages (dialogueManager j) = messages (dialogueManager i) @ [m]"
    "actions j = actions i" "retrieveDialogue ?c (dialogueManager j) = Some ?n"
    using assms(3) by (simp_all add: j_def add_dialogue_def Let_def retrieveDialogue_def sm.lookup_ins)
  have "updateTransaction (Some ?a) ?s = Inr (currentTransaction x, dialogueManager j)"
    using complete_opens [OF assms(1,2), of ?s ?a] assms(3)
    by (simp add: retrieveDialogue_def j_def ch_def x_def Let_def)
  moreover have "isRequest m" using assms(1) by (simp add: complete_request_def)
  ultimately have step: "deliver (Inr ()) m i = processInvite (Inr ()) ?a j"
    using assms(2) by (simp add: deliver_def processMessage_def Let_def message_at_def j(2) processRequest_def
        x_def fresh_dialogue_def) (simp add: j_def)
  have "processInvite (Inr ()) ?a j = Inr (announce ?a ?n j)"
    by (rule processInvite_complete) (simp_all add: j assms(1))
  then show ?thesis
    using step j by (simp add: announced_def announce_def Let_def x_def ch_def)
qed

text \<open>
  C3: A complete call. From a reachable interface that does not know the call id, an INVITE, an ACK and
  a BYE with all the headers the interface reads fault exactly where the first of them calls through a
  logger that is not there, if that faults. Otherwise they open one dialogue
  on the next channel, and the actions are exactly: the 100 Trying reply, the new-call event with the
  fields, headers and bodies of the INVITE, the answered event, the 200 OK reply to the BYE, and the
  cleared event with code 200; the dialogue ends in state CLEARED.
\<close>

theorem complete_call:
  assumes "sip_reachable nl i" and "channel_left i"
    and "complete_request invite" and "requestType invite = M_INVITE"
    and "complete_request ack" and "requestType ack = M_ACK" and "complete_request bye" and "requestType bye = M_BYE"
    and "header_text ''CALL-ID'' ack = header_text ''CALL-ID'' invite"
    and "header_text ''CALL-ID'' bye = header_text ''CALL-ID'' invite"
    and "retrieveDialogue (header_text ''CALL-ID'' invite) (dialogueManager i) = None"
  shows "\<exists>i'. deliver_all nl [invite, ack, bye] i = bindO nl (\<lambda>_. Inr i') \<and>
    (let ch = lastChannelId (dialogueManager i) + 1; c = header_text ''CALL-ID'' invite;
         tag = ''temporary-response-tag''
     in current i' = current i @
          [(fresh_dialogue ch (length (messages (dialogueManager i))) invite)\<lparr>dialogueState := CLEARED\<rparr>] \<and>
        actions i' = actions i @
          [reply_action (buildTryingResponse (Inr ()) tag) invite,
           Event (CallNewCallEvent ch c tag (header_text ''TO'' invite) (header_text ''FROM'' invite)
             (headers_of invite) (msgBodies invite)),
           Event (CallAnsweredEvent ch c),
           reply_action (buildOkResponse (Inr ()) tag) bye,
           Event (CallClearedEvent ch c 200)])"
proof -
  let ?x = "fresh_dialogue (lastChannelId (dialogueManager i) + 1) (length (messages (dialogueManager i))) invite"
  have plain: "plain_message m" if "complete_request m" for m
    using that by (simp add: complete_request_def plain_message_def)
  have inv: "interface_inv i" by (rule reachable_inv [OF assms(1)])
  note nl = deliver_all_nl [of nl invite "[ack, bye]" i]
  obtain i1 where 1: "deliver (Inr ()) invite i = Inr i1" "announced invite i i1"
    using invite_announces [OF assms(3,4,11)] by blast
  have inv1: "interface_inv i1"
    by (rule deliver_inv [OF inv plain [OF assms(3)] assms(2) 1(1)])
  have cur1: "current i1 ! length (current i) = ?x\<lparr>dialogueState := INCOMING\<rparr>"
    and found1: "retrieveDialogue (header_text ''CALL-ID'' ack) (dialogueManager i1) = Some (length (current i))"
    using 1(2) assms(9) by (simp_all add: announced_def Let_def)
  obtain i2 where 2: "deliver (Inr ()) ack i1 = Inr i2" "answered ack (length (current i)) i1 i2"
    using ack_answers [OF inv1 assms(5,6) found1] cur1 by auto
  have cur2: "current i2 = current i @ [?x\<lparr>dialogueState := CONNECTED\<rparr>]"
    using 1(2) 2(2) by (simp add: announced_def answered_def Let_def)
  have inv2: "interface_inv i2"
    by (rule known_message_inv [OF inv1 assms(5) _ found1 2(1)]) (simp add: assms(6))
  have found2: "retrieveDialogue (header_text ''CALL-ID'' bye) (dialogueManager i2) = Some (length (current i))"
    using found1 2(2) assms(9,10) by (simp add: answered_def)
  obtain i3 where 3: "deliver (Inr ()) bye i2 = Inr i3" "cleared bye (length (current i)) i2 i3"
    using bye_clears [OF inv2 assms(7,8) found2] by (auto simp: cur2 fresh_dialogue_def)
  show ?thesis
    unfolding nl using 1 2(1) 3 2(2) assms(9,10) cur2
    by (intro exI [of _ i3])
      (simp add: announced_def answered_def cleared_def Let_def nth_append, simp add: fresh_dialogue_def)
qed

definition sample_via :: via_header where
  "sample_via = \<lparr>transportType = Some Transport_UDP, remoteAddress = buffer_of_string ''10.0.0.1'',
     remoteBranch = buffer_of_string ''z9hG4bK1'', remotePort = Some 5061\<rparr>"

definition sample_request :: "message_type \<Rightarrow> sip_message" where
  "sample_request t = request_object t (getTypeStr t) False null_buffer
     [(''CALL-ID'', Some (SipCallIdHeader (buffer_of_string ''77@x''))),
      (''CSEQ'', Some (SipCSeqHeader (buffer_of_string ''1 INVITE''))),
      (''FROM'', Some (SipFromHeader (buffer_of_string ''<sip:a@x>;tag=1''))),
      (''TO'', Some (SipToHeader (buffer_of_string ''<sip:b@y>''))),
      (''VIA'', Some ((plain_header H_VIA ''Via'' null_buffer)\<lparr>headerExt := Ext_Via sample_via\<rparr>))] []"

lemma sample_request_complete: "complete_request (sample_request t)"
  by (auto simp: complete_request_def sample_request_def request_object_def sample_via_def getResponseValue_def)

lemma sample_request_fields [simp]:
  "requestType (sample_request t) = t" "header_text ''CALL-ID'' (sample_request t) = ''77@x''"
  by (simp_all add: sample_request_def request_object_def header_text_def header_value_at_def header_at_def
      SipCallIdHeader_def plain_header_def buffer_of_string_def toString_def)

lemma new_sip_interface_fields [simp]:
  "retrieveDialogue c (dialogueManager new_sip_interface) = None" "current new_sip_interface = []"
  "actions new_sip_interface = []" "lastChannelId (dialogueManager new_sip_interface) = 0"
  "messages (dialogueManager new_sip_interface) = []" "channel_left new_sip_interface"
  by (simp_all add: new_sip_interface_def new_dialogue_manager_def retrieveDialogue_def channel_left_def)

theorem complete_call_witness:
  "\<forall>nl. \<exists>i'. deliver_all nl [sample_request M_INVITE, sample_request M_ACK, sample_request M_BYE] new_sip_interface =
      bindO nl (\<lambda>_. Inr i') \<and>
    current i' = [(fresh_dialogue 1 0 (sample_request M_INVITE))\<lparr>dialogueState := CLEARED\<rparr>] \<and>
    actions i' =
      [reply_action (buildTryingResponse (Inr ()) ''temporary-response-tag'') (sample_request M_INVITE),
       Event (CallNewCallEvent 1 ''77@x'' ''temporary-response-tag''
         (header_text ''TO'' (sample_request M_INVITE)) (header_text ''FROM'' (sample_request M_INVITE))
         (headers_of (sample_request M_INVITE)) (msgBodies (sample_request M_INVITE))),
       Event (CallAnsweredEvent 1 ''77@x''),
       reply_action (buildOkResponse (Inr ()) ''temporary-response-tag'') (sample_request M_BYE),
       Event (CallClearedEvent 1 ''77@x'' 200)]" (is "\<forall>nl. ?P nl")
proof (rule allI)
  fix nl :: logging
  show "?P nl"
    using complete_call [OF sip_reachable.start _ sample_request_complete [of M_INVITE] _
      sample_request_complete [of M_ACK] _ sample_request_complete [of M_BYE]]
    by (simp add: Let_def)
qed

lemma reachable_call:
  "\<exists>i. sip_reachable (Inr ()) i \<and> actions i \<noteq> [] \<and> Event (CallAnsweredEvent 1 ''77@x'') \<in> set (actions i) \<and>
    retrieveDialogue ''77@x'' (dialogueManager i) = Some 0 \<and>
    (\<exists>x. current i = [x] \<and> dialogueChannelId x = 1 \<and> dialogueState x = CONNECTED)"
proof -
  obtain i1 where 1: "deliver (Inr ()) (sample_request M_INVITE) new_sip_interface = Inr i1"
      "announced (sample_request M_INVITE) new_sip_interface i1"
    using invite_announces [OF sample_request_complete [of M_INVITE], of new_sip_interface] by auto
  have plain: "plain_message (sample_request t)" for t
    using sample_request_complete [of t] by (simp add: complete_request_def plain_message_def)
  have r1: "sip_reachable (Inr ()) i1"
    by (rule sip_reachable.step [OF sip_reachable.start sip_step.message [OF plain _ 1(1)]]) simp
  have "current i1 ! 0 = (fresh_dialogue 1 0 (sample_request M_INVITE))\<lparr>dialogueState := INCOMING\<rparr>"
    "retrieveDialogue ''77@x'' (dialogueManager i1) = Some 0" "length (current i1) = 1"
    using 1(2) by (simp_all add: announced_def Let_def)
  then obtain i2 where 2: "deliver (Inr ()) (sample_request M_ACK) i1 = Inr i2" "answered (sample_request M_ACK) 0 i1 i2"
    using ack_answers [OF reachable_inv [OF r1] sample_request_complete [of M_ACK], of 0] by auto
  have "sip_reachable (Inr ()) i2"
    by (rule sip_reachable.step [OF r1 sip_step.message [OF plain _ 2(1)]])
      (use \<open>length (current i1) = 1\<close> in \<open>simp add: channel_left_def\<close>)
  then show ?thesis
    using 1(2) 2(2) by (intro exI [of _ i2]) (auto simp: announced_def answered_def Let_def fresh_dialogue_def)
qed

theorem events_follow_call_protocol_witness:
  "\<exists>i x. sip_reachable (Inr ()) i \<and> current i = [x] \<and>
     run_protocol NONE (channel_events 1 (actions i)) = Some CONNECTED"
proof -
  obtain i x where r: "sip_reachable (Inr ()) i" "current i = [x]" "dialogueChannelId x = 1" "dialogueState x = CONNECTED"
    using reachable_call by blast
  then have "run_protocol NONE (channel_events (dialogueChannelId x) (actions i)) = Some (dialogueState x) \<and>
      dialogueState x \<notin> {OUTGOING, CLEARING}"
    by (intro events_follow_call_protocol) simp_all
  with r show ?thesis by auto
qed

theorem events_belong_to_calls_witness:
  "\<exists>i. sip_reachable (Inr ()) i \<and> (\<exists>!d. d < length (current i) \<and> 1 = dialogueChannelId (current i ! d) \<and>
    ''77@x'' \<in> {dialogueCallId (current i ! d), c_str (dialogueCallId (current i ! d))} \<and>
    retrieveDialogue (dialogueCallId (current i ! d)) (dialogueManager i) = Some d)"
proof -
  obtain i where r: "sip_reachable (Inr ()) i" "Event (CallAnsweredEvent 1 ''77@x'') \<in> set (actions i)"
    using reachable_call by blast
  show ?thesis
    using events_belong_to_calls [OF r] r(1) by (intro exI [of _ i]) simp
qed

section \<open>Messages the protocol does not expect\<close>

lemma repeated_invite_message:
  assumes "a < length (messages s)" and "r < length (messages s)" and "a \<noteq> r" and "sipRequest t = Some r"
    and "complete_request (messages s ! a)"
  shows "\<exists>s'. repeated_invite a t s = Inr (Some t, s') \<and>
    messages s' ! a \<in> {messages s ! a, isReinvite True (messages s ! a)}"
  using assms complete_getters(4) [OF assms(5)]
  by (auto simp: repeated_invite_def with_getter message_at_def)

lemma complete_isReinvite: "complete_request m \<Longrightarrow> complete_request (isReinvite b m)"
  by (simp add: complete_request_def isReinvite_def)

lemma header_text_isReinvite [simp]: "header_text k (isReinvite b m) = header_text k m"
  by (simp add: header_text_def header_value_at_def header_at_def isReinvite_def split: option.split)

lemma isReinvite_fields [simp]:
  "isRequest (isReinvite b m) = isRequest m" "requestType (isReinvite b m) = requestType m"
  by (simp_all add: isReinvite_def)

text \<open>
  C35: An INVITE for a known call, a retransmission or a re-INVITE, is processed like a new call, with no
  fault but that of the loggers that are not there: whatever state the call is in, also connected or cleared, its dialogue goes back to
  INCOMING, the caller gets 100 Trying and the controller a second new-call event on the same channel,
  although the code announces for equal sequence numbers that it ignores the message.
\<close>

theorem repeated_invite_announces_again:
  assumes "sip_reachable nl i" and "complete_request m" and "requestType m = M_INVITE"
    and "retrieveDialogue (header_text ''CALL-ID'' m) (dialogueManager i) = Some d"
  shows "\<exists>i' m'. deliver nl m i = bindO nl (\<lambda>_. Inr i') \<and> m' \<in> {m, isReinvite True m} \<and>
    current i' = (current i)[d := (current i ! d)\<lparr>dialogueState := INCOMING\<rparr>] \<and>
    actions i' = actions i @
      [reply_action (buildTryingResponse (Inr ()) (responseTag (current i ! d))) m',
       Event (CallNewCallEvent (dialogueChannelId (current i ! d)) (header_text ''CALL-ID'' m)
         (responseTag (current i ! d)) (header_text ''TO'' m) (header_text ''FROM'' m)
         (headers_of m') (msgBodies m'))]"
proof -
  let ?a = "length (messages (dialogueManager i))" and ?c = "header_text ''CALL-ID'' m"
  let ?s = "dialogueManager (with_new_message m i)"
  have inv: "interface_inv i" by (rule reachable_inv [OF assms(1)])
  have d: "d < length (current i)" by (rule live_found [OF inv assms(4)])
  have "dialogue_ok (messages (dialogueManager i)) (current i ! d)"
    using manager_inv_dialogue [of "dialogueManager i" d] inv d by (simp add: interface_inv_def live_dialogue_def)
  then obtain t r where t: "currentTransaction (current i ! d) = Some t" "sipRequest t = Some r" "r < ?a"
    by (auto simp: dialogue_ok_def SipTransaction_def)
  obtain s' where s': "repeated_invite ?a t ?s = Inr (Some t, s')" "messages s' ! ?a \<in> {m, isReinvite True m}"
    using repeated_invite_message [of ?a ?s r t] t(2,3) assms(2) by auto
  have q: "quiet ?s s'"
    using repeated_invite_quiet [OF s'(1)] by simp
  have c: "with_message ?a callId_of ?s = Inr (?c, ?s)"
    by (rule complete_callId [OF assms(2)]) simp_all
  have req: "isRequest m" using assms(2) by (simp add: complete_request_def)
  have u: "updateTransaction (Some ?a) ?s = Inr (Some t, s')"
    using assms(3,4) t d c req s'(1)
    by (simp add: updateTransaction_def invite_transaction_def message_at_def dialogue_at_def retrieveDialogue_def)
  let ?j = "(with_new_message m i)\<lparr>dialogueManager := s'\<rparr>" and ?m = "messages s' ! ?a"
  have m': "isRequest ?m" "requestType ?m = M_INVITE" "complete_request ?m" "header_text k ?m = header_text k m" for k
    using s'(2) req assms(2,3) complete_isReinvite [OF assms(2)] by auto
  have len: "?a < length (messages s')" "dialogues s' = current i"
    using quiet_fields(1,5) [OF q] by simp_all
  have "deliver (Inr ()) m i = processInvite (Inr ()) ?a ?j"
    using u len m' by (simp add: deliver_def processMessage_def message_at_def processRequest_def Let_def)
  also have "\<dots> = Inr (announce ?a d ?j)"
    using m'(3,4) len d assms(4) quiet_fields(2) [OF q]
    by (intro processInvite_complete) (simp_all add: retrieveDialogue_def)
  finally show ?thesis
    unfolding operations_nl(1) [of nl]
    using s'(2) m'(4) len by (intro exI [of _ "announce ?a d ?j"] exI [of _ ?m]) (simp add: announce_def Let_def)
qed

theorem repeated_invite_announces_again_witness:
  "\<exists>i i' x. sip_reachable (Inr ()) i \<and> current i = [x] \<and> dialogueState x = CONNECTED \<and>
     deliver (Inr ()) (sample_request M_INVITE) i = Inr i' \<and> dialogueState (current i' ! 0) = INCOMING"
proof -
  obtain i x where r: "sip_reachable (Inr ()) i" "current i = [x]" "dialogueState x = CONNECTED"
      "retrieveDialogue ''77@x'' (dialogueManager i) = Some 0"
    using reachable_call by blast
  then obtain i' where "deliver (Inr ()) (sample_request M_INVITE) i = Inr i'"
      "current i' = (current i)[0 := (current i ! 0)\<lparr>dialogueState := INCOMING\<rparr>]"
    using repeated_invite_announces_again [OF r(1) sample_request_complete [of M_INVITE]] by fastforce
  then show ?thesis using r by auto
qed

text \<open>
  Outside a dialogue every request but INVITE is dropped: no reply, no event, no dialogue, whatever
  the message contains. A sender of such a request, for example OPTIONS, never hears back.
\<close>

theorem stray_request_is_dropped:
  assumes "isRequest m" and "requestType m \<noteq> M_INVITE"
    and "retrieveDialogue (fst (getCallId m)) (dialogueManager i) = None"
  shows "\<exists>i'. deliver nl m i = bindO nl (\<lambda>_. Inr i') \<and> actions i' = actions i \<and> current i' = current i"
proof -
  let ?a = "length (messages (dialogueManager i))" and ?s = "dialogueManager (with_new_message m i)"
  obtain s' where s': "with_message ?a callId_of ?s = Inr (fst (getCallId m), s')"
    using with_getter_total [of ?a ?s getCallId] by auto
  note f = quiet_fields [OF with_callId(1) [OF s']]
  have "updateTransaction (Some ?a) ?s = Inr (None, s')"
    using assms s' f(2) by (simp add: updateTransaction_def message_at_def retrieveDialogue_def)
  then show ?thesis
    unfolding operations_nl(1) [of nl]
    using f(1) by (intro exI [of _ "i\<lparr>dialogueManager := s'\<rparr>"])
      (simp add: deliver_def processMessage_def Let_def)
qed

theorem stray_request_is_dropped_witness:
  "\<exists>i'. deliver nl (sample_request M_OPTIONS) new_sip_interface = bindO nl (\<lambda>_. Inr i') \<and>
     actions i' = actions new_sip_interface \<and> current i' = current new_sip_interface"
  by (rule stray_request_is_dropped) (simp_all add: sample_request_def request_object_def)

lemma header_at_asked: "map_of (msgHeaders (snd (header_at k m))) k \<noteq> None"
  by (simp add: header_at_def split: option.split)

lemma asked_extends:
  "message_extends m m' \<Longrightarrow> map_of (msgHeaders m) k \<noteq> None \<Longrightarrow> map_of (msgHeaders m') k \<noteq> None"
  unfolding message_extends_def by (metis not_None_eq)

lemma getRemoteAddress_asks:
  "getRemoteAddress m = Inr (x, m') \<Longrightarrow> map_of (msgHeaders m') ''VIA'' \<noteq> None"
  using header_at_asked [of "''VIA''" m]
  by (auto simp: getRemoteAddress_def bindO_eq_Inr_iff split: prod.splits option.splits)

lemma base_asks:
  assumes "buildStandardBaseResponse (Inr ()) meth localTag m = Inr (x, m')" and "k \<in> {''FROM'', ''TO'', ''CALL-ID'', ''CSEQ''}"
  shows "map_of (msgHeaders m') k \<noteq> None"
proof -
  let ?f = "\<lambda>k m. snd (header_at k m)"
  have "m' = ?f ''CSEQ'' (?f ''CALL-ID'' (?f ''TO'' (?f ''FROM'' m)))"
    using assms(1) by (auto simp: buildStandardBaseResponse_def bindO_eq_Inr_iff Let_def case_prod_beta
        getFrom_def getTo_def getCallId_def getCSequence_def header_value_at_snd)
  then show ?thesis
    using assms(2) header_at_asked asked_extends [OF header_at_extends] by auto
qed

lemma getHeaders_null: "map_of (msgHeaders m) k = Some None \<Longrightarrow> \<exists>e. getHeaders m = Inl e"
proof -
  have "(k, None) \<in> set hs \<Longrightarrow> descriptors hs = Inr ds \<Longrightarrow> False" for hs ds
    by (induction hs arbitrary: ds rule: descriptors.induct) (auto simp: bindO_eq_Inr_iff)
  then show "map_of (msgHeaders m) k = Some None \<Longrightarrow> ?thesis"
    unfolding getHeaders_def by (metis map_of_SomeD sum.exhaust)
qed

lemma ask_at:
  assumes "ask a f i = Inr (x, i')" and "polite f"
  shows "\<exists>m'. f (messages (dialogueManager i) ! a) = Inr (x, m') \<and> messages (dialogueManager i') ! a = m' \<and>
    a < length (messages (dialogueManager i'))"
  using assms(1) by (auto simp: ask_Inr with_message_Inr)

lemma reply_asks:
  assumes "reply a (buildTryingResponse (Inr ()) tag) i = Inr i'" and "a < length (messages (dialogueManager i))"
    and "k \<in> {''VIA'', ''FROM'', ''TO'', ''CALL-ID'', ''CSEQ''}"
  shows "map_of (msgHeaders (messages (dialogueManager i') ! a)) k \<noteq> None"
proof -
  obtain adr i1 prt i2 tr i3 resp i4 where asks: "ask a getRemoteAddress i = Inr (adr, i1)"
      "ask a getRemotePort i1 = Inr (prt, i2)" "ask a getTransportType i2 = Inr (tr, i3)"
      "ask a (buildTryingResponse (Inr ()) tag) i3 = Inr (resp, i4)" and i': "i' = sendMessage adr prt tr resp i4"
    using assms(1) by (auto simp: reply_def bindO_eq_Inr_iff)
  have e: "effect (current i1) [] i1 i4"
    by (intro ask_then [OF _ _ asks(4)] ask_then [OF _ _ asks(3)] ask_then [OF _ _ asks(2)]
        effect_refl polite_via_getters polite_builds)
  have a1: "a < length (messages (dialogueManager i1))"
    using ask_at [OF asks(1) polite_via_getters(1)] by blast
  obtain m1 where "getRemoteAddress (messages (dialogueManager i) ! a) = Inr (adr, m1)"
      "messages (dialogueManager i1) ! a = m1"
    using ask_at [OF asks(1) polite_via_getters(1)] by blast
  then have via: "map_of (msgHeaders (messages (dialogueManager i4) ! a)) ''VIA'' \<noteq> None"
    using getRemoteAddress_asks asked_extends [OF effect_fields(5) [OF e a1]] by blast
  obtain m4 where "buildTryingResponse (Inr ()) tag (messages (dialogueManager i3) ! a) = Inr (resp, m4)"
      "messages (dialogueManager i4) ! a = m4"
    using ask_at [OF asks(4) polite_builds(1)] by blast
  then obtain y where "buildStandardBaseResponse (Inr ()) ''100 Trying'' tag (messages (dialogueManager i3) ! a) = Inr (y, m4)"
    by (auto simp: buildTryingResponse_def buildStandardFullResponse_def bindO_eq_Inr_iff)
  then show ?thesis
    using via base_asks assms(3) \<open>messages (dialogueManager i4) ! a = m4\<close>
    by (auto simp: i' sendMessage_def)
qed

lemma processInvite_asks:
  assumes "processInvite (Inr ()) a i = Inr i'" and "found_at a i = Some d"
    and "k \<in> {''VIA'', ''FROM'', ''TO'', ''CALL-ID'', ''CSEQ''}"
  shows "\<exists>h. map_of (msgHeaders (messages (dialogueManager i) ! a)) k = Some (Some h)"
proof (rule ccontr)
  assume absent: "\<not> ?thesis"
  obtain r i1 where 1: "dialogue_for (Inr ()) a i = Inr (r, i1)"
    and rest: "(case r of None \<Rightarrow> Inr i1 | Some d \<Rightarrow>
           bindO (setState d INCOMING i1) (\<lambda>i.
           bindO (dialogue_of d i) (\<lambda>x.
           bindO (reply a (buildTryingResponse (Inr ()) (responseTag x)) i) (\<lambda>i.
           bindO (ask a callId_of i) (\<lambda>(callId, i).
           bindO (ask a (\<lambda>m. Inr (getTo m)) i) (\<lambda>(to, i).
           bindO (ask a (\<lambda>m. Inr (getFrom m)) i) (\<lambda>(fromField, i).
           bindO (look a getHeaders i) (\<lambda>headers.
           bindO (look a (\<lambda>m. Inr (getBodies m)) i) (\<lambda>bodies.
             Inr (handler (CallNewCallEvent (dialogueChannelId x) callId (responseTag x) to fromField
                    headers bodies) i)))))))))) = Inr i'"
    using assms(1) by (auto simp: processInvite_def bindO_eq_Inr_iff)
  note for_d = dialogue_for_Inr [OF 1]
  have "r = Some d" using for_d(3) assms(2) by simp
  then obtain i2 tag i3 c i4 to i5 fromField i6 headers where
    2: "setState d INCOMING i1 = Inr i2" and 3: "reply a (buildTryingResponse (Inr ()) tag) i2 = Inr i3"
    and 4: "ask a callId_of i3 = Inr (c, i4)" and 5: "ask a (\<lambda>m. Inr (getTo m)) i4 = Inr (to, i5)"
    and 6: "ask a (\<lambda>m. Inr (getFrom m)) i5 = Inr (fromField, i6)" and 7: "look a getHeaders i6 = Inr headers"
    using rest by (auto simp: bindO_eq_Inr_iff dialogue_of_Inr)
  obtain ds where e2: "effect ds [] i i2"
    using effect_trans [OF for_d(1)] setState_effect [OF 2] by fastforce
  have a2: "a < length (messages (dialogueManager i2))"
    using for_d(2) effect_fields(4) [OF e2] by simp
  obtain acts where e23: "effect (current i2) acts i2 i3"
    using reply_effect [OF 3 polite_builds(1)] by blast
  have e36: "effect (current i3) [] i3 i6"
    by (intro ask_then [OF _ _ 6] ask_then [OF _ _ 5] ask_then [OF _ _ 4] effect_refl polite_getters)
  let ?m = "\<lambda>i. messages (dialogueManager i) ! a"
  have a3: "a < length (messages (dialogueManager i3))"
    using a2 effect_fields(4) [OF e23] by simp
  have "message_extends (?m i) (?m i6)"
    using effect_fields(5) [OF e2 for_d(2)] effect_fields(5) [OF e23 a2] effect_fields(5) [OF e36 a3]
      message_extends_trans by blast
  moreover have "map_of (msgHeaders (?m i6)) k \<noteq> None"
    using asked_extends [OF effect_fields(5) [OF e36 a3]] reply_asks [OF 3 a2 assms(3)] by blast
  ultimately have "map_of (msgHeaders (?m i6)) k = Some None"
    using absent unfolding message_extends_def by (metis not_None_eq)
  then obtain e where "getHeaders (?m i6) = Inl e"
    using getHeaders_null by blast
  then show False
    using 7 a3 effect_fields(4) [OF e36] by (simp add: look_def message_at_def)
qed

lemma invite_transaction_found:
  assumes "manager_inv s" and "updated a s r s'" and "isRequest (messages s ! a)" and "requestType (messages s ! a) = M_INVITE"
  shows "list_all2 message_extends (messages s) (messages s')"
    and "retrieveDialogue (fst (getCallId (messages s ! a))) s' \<noteq> None" and "r \<noteq> None"
proof -
  let ?c = "fst (getCallId (messages s ! a))"
  show "list_all2 message_extends (messages s) (messages s')"
    using assms(2) opened_fields(2) [of a s s'] by (auto simp: updated_def Let_def quiet_def split: if_splits)
  have "retrieveDialogue ?c s' \<noteq> None \<and> r \<noteq> None"
  proof (cases "retrieveDialogue ?c s")
    case None
    then have "opened a s s'" "r \<noteq> None"
      using assms(2-4) by (simp_all add: updated_def)
    then show ?thesis
      using opened_fields(5) [of a s s'] by (auto simp: retrieveDialogue_def sm.lookup_ins)
  next
    case (Some d)
    then have q: "quiet s s'" "r = currentTransaction (dialogues s ! d)"
      using assms(2,3) by (simp_all add: updated_def)
    have "live_dialogue s d"
      using Some dm.find2_iff [OF assms(1)] by blast
    then have "currentTransaction (dialogues s ! d) \<noteq> None"
      using manager_inv_dialogue [OF assms(1)] by (auto simp: dialogue_ok_def)
    then show ?thesis
      using q Some quiet_fields(2) [OF q(1)] by (simp add: retrieveDialogue_def)
  qed
  then show "retrieveDialogue ?c s' \<noteq> None" "r \<noteq> None" by simp_all
qed

text \<open>
  A Via header whose fields were read. Where every message with a Via is of this kind, the only fault the
  interface can run into is a null pointer; \<open>null_only\<close> carries this through the handlers.
\<close>

definition via_readable :: "sip_message \<Rightarrow> bool" where
  "via_readable m \<longleftrightarrow> (\<forall>h. map_of (msgHeaders m) ''VIA'' = Some (Some h) \<longrightarrow>
     (\<exists>via prt tr txt. headerExt h = Ext_Via via \<and> remotePort via = Some prt \<and> transportType via = Some tr \<and>
        getResponseValue via = Inr txt))"

definition null_only :: "'a outcome \<Rightarrow> bool" where
  "null_only r \<longleftrightarrow> (\<forall>e. r = Inl e \<longrightarrow> e = NullDeref)"

lemma null_only_simps [simp]: "null_only (Inr x)" "null_only (Inl e) \<longleftrightarrow> e = NullDeref"
  by (simp_all add: null_only_def)

lemma null_only_bind [intro!]: "null_only r \<Longrightarrow> (\<And>x. r = Inr x \<Longrightarrow> null_only (f x)) \<Longrightarrow> null_only (bindO r f)"
  by (cases r) simp_all

lemma null_only_objects [simp]:
  "null_only (message_at a s)" "null_only (dialogue_at d s)" "null_only (dialogue_of d i)"
  by (simp_all add: message_at_def dialogue_at_def dialogue_of_def)

lemma null_only_getter [simp]: "null_only (with_message a (\<lambda>m. Inr (f m)) s)"
  by (auto simp: with_message_def split: prod.splits)

lemma null_only_ask_getter [simp]: "null_only (ask a (\<lambda>m. Inr (f m)) i)"
  by (auto simp: ask_def)

lemma null_only_ask:
  "a < length (messages (dialogueManager i)) \<Longrightarrow> null_only (f (messages (dialogueManager i) ! a)) \<Longrightarrow>
    null_only (ask a f i)"
  by (auto simp: ask_def with_message_def message_at_def split: prod.splits)

lemma null_only_updateTransaction: "null_only (updateTransaction r s)"
proof -
  have "null_only (startTransaction r s)" for r s
    by (auto simp: startTransaction_def SipDialogue_def Let_def getNextChannelId_def split: option.splits prod.splits)
  moreover have "null_only (repeated_invite a t s)" for a t s
    by (auto simp: repeated_invite_def split: option.splits prod.splits)
  ultimately have "null_only (invite_transaction a s)" for a s
    by (auto simp: invite_transaction_def split: option.splits prod.splits)
  then show ?thesis
    by (auto simp: updateTransaction_def split: option.splits)
qed

lemma via_readable_extends: "message_extends m m' \<Longrightarrow> via_readable m \<Longrightarrow> via_readable m'"
  unfolding via_readable_def message_extends_def by blast

lemma null_only_via:
  assumes "via_readable m"
  shows "null_only (getRemoteAddress m)" and "null_only (getRemotePort m)" and "null_only (getTransportType m)"
    and "null_only (buildTryingResponse (Inr ()) tag m)"
proof -
  show "null_only (getRemoteAddress m)" "null_only (getRemotePort m)" "null_only (getTransportType m)"
    using assms by (auto simp: via_readable_def getRemoteAddress_def getRemotePort_def getTransportType_def
        header_at_def via_of_def initialised_def split: option.splits)
  have "null_only (getResponseViaContent (Inr ()) m)"
    using assms by (auto simp: via_readable_def getResponseViaContent_def find_header_def via_of_def
        split: option.splits)
  then have "null_only (buildStandardBaseResponse (Inr ()) meth tag m)" for meth
    by (auto simp: buildStandardBaseResponse_def Let_def split: prod.splits)
  then show "null_only (buildTryingResponse (Inr ()) tag m)"
    by (auto simp: buildTryingResponse_def buildStandardFullResponse_def)
qed

lemma null_only_reply:
  assumes "a < length (messages (dialogueManager i))" and "via_readable (messages (dialogueManager i) ! a)"
  shows "null_only (reply a (buildTryingResponse (Inr ()) tag) i)"
proof -
  let ?ok = "\<lambda>i. a < length (messages (dialogueManager i)) \<and> via_readable (messages (dialogueManager i) ! a)"
  have "?ok i'" if "?ok i" "polite f" "ask a f i = Inr (x, i')" for f i i' and x :: 'x
    using that effect_fields(4,5) [OF ask_effect [OF that(2,3)]] by (auto intro: via_readable_extends)
  note keeps = this
  show ?thesis
    unfolding reply_def
    by (intro null_only_bind null_only_ask; use assms in \<open>auto dest!: keeps [rotated 2]
        intro: null_only_ask null_only_via polite_via_getters\<close>)
qed

lemma null_only_processInvite:
  assumes "a < length (messages (dialogueManager i))" and "via_readable (messages (dialogueManager i) ! a)"
  shows "null_only (processInvite (Inr ()) a i)"
proof -
  have "null_only (descriptors hs)" for hs
    by (induction hs rule: descriptors.induct) auto
  then have look: "null_only (look a getHeaders i)" "null_only (look a (\<lambda>m. Inr (getBodies m)) i)" for i
    by (auto simp: look_def getHeaders_def)
  have reply: "null_only (reply a (buildTryingResponse (Inr ()) tag) i2)"
    if "dialogue_for (Inr ()) a i = Inr (r, i1)" and "setState d st i1 = Inr i2" for r i1 d st i2 tag
  proof -
    note e1 = dialogue_for_Inr(1) [OF that(1)] and e2 = setState_effect [OF that(2)]
    obtain ds where e: "effect ds [] i i2"
      using effect_trans [OF e1] e2 by fastforce
    show ?thesis
      using effect_fields(4,5) [OF e] assms via_readable_extends by (intro null_only_reply) auto
  qed
  have "null_only (setState d st i)" for d st i
    by (auto simp: setState_def)
  moreover have "null_only (dialogue_for (Inr ()) a i)"
    by (auto simp: dialogue_for_def)
  ultimately show ?thesis
    unfolding processInvite_def
    by (auto intro!: null_only_bind reply look split: option.splits)
qed

text \<open>
  C36: An INVITE that lacks one of the headers Via, From, To, Call-ID or CSeq, and whose Via header, if it
  has one, could be read, makes the interface call through a null pointer in every reachable state: building
  the reply inserts a null pointer for the missing header, and collecting the headers for the new-call event
  dereferences it. This is the only fault once the loggers are there; one such datagram stops the server.
\<close>

theorem incomplete_invite_faults:
  assumes "sip_reachable nl i" and "isRequest m" and "requestType m = M_INVITE" and "via_readable m"
    and "k \<in> {''VIA'', ''FROM'', ''TO'', ''CALL-ID'', ''CSEQ''}" and "map_of (msgHeaders m) k = None"
  shows "deliver nl m i = bindO nl (\<lambda>_. Inl NullDeref)"
proof -
  let ?a = "length (messages (dialogueManager i))" and ?s = "dialogueManager (with_new_message m i)"
  have inv: "manager_inv ?s"
    using reachable_inv [OF assms(1)] message_inv by (simp add: interface_inv_def)
  have "deliver (Inr ()) m i = Inl NullDeref"
  proof (cases "updateTransaction (Some ?a) ?s")
    case (Inl e)
    then show ?thesis
      using null_only_updateTransaction [of "Some ?a" ?s]
      by (simp add: deliver_def processMessage_def Let_def)
  next
    case (Inr rs)
    then obtain r s where u: "updateTransaction (Some ?a) ?s = Inr (r, s)" by (cases rs) simp
    note ext = invite_transaction_found [OF inv conjunct2 [OF updateTransaction_updated [OF u]], simplified,
        OF assms(2,3)]
    let ?j = "i\<lparr>dialogueManager := s\<rparr>"
    have m': "message_extends m (messages s ! ?a)" and len: "?a < length (messages s)"
      using list_all2_nthD [OF ext(1), of ?a] list_all2_lengthD [OF ext(1)] by simp_all
    have d: "deliver (Inr ()) m i = processInvite (Inr ()) ?a ?j"
      using u ext(3) len message_extends_fields(1,2) [OF m'] assms(2,3)
      by (auto simp: deliver_def processMessage_def message_at_def processRequest_def Let_def)
    have "processInvite (Inr ()) ?a ?j \<noteq> Inr i'" for i'
    proof
      assume p: "processInvite (Inr ()) ?a ?j = Inr i'"
      obtain d where "found_at ?a ?j = Some d"
        using ext(2) callId_extends [OF m'] by auto
      then obtain h where "map_of (msgHeaders (messages s ! ?a)) k = Some (Some h)"
        using processInvite_asks [OF p _ assms(5)] by auto
      then show False
        using m' assms(6) unfolding message_extends_def by (metis option.distinct(1))
    qed
    moreover have "null_only (processInvite (Inr ()) ?a ?j)"
      using len via_readable_extends [OF m' assms(4)] by (intro null_only_processInvite) simp_all
    ultimately show ?thesis
      unfolding d by (cases "processInvite (Inr ()) ?a ?j") auto
  qed
  then show ?thesis
    by (simp add: operations_nl(1) [of nl])
qed

theorem incomplete_invite_faults_witness:
  "\<forall>nl. deliver nl (call_message ''1 INVITE'') new_sip_interface = bindO nl (\<lambda>_. Inl NullDeref)"
proof (rule allI, rule incomplete_invite_faults [OF sip_reachable.start])
  show "map_of (msgHeaders (call_message ''1 INVITE'')) ''VIA'' = None"
    by (simp add: call_message_def request_object_def)
  then show "via_readable (call_message ''1 INVITE'')"
    by (simp add: via_readable_def)
qed simp_all

text \<open>
  C40: The BYE of a connected call whose recording was started makes the interface read the channel of the
  request, a variable nothing sets for a request: the event that ends the recording gets its channel from the
  request and not from the dialogue. So the recording of a call never ends with an event the controller
  could assign to it. Recordings are started by \<^verbatim>\<open>startRecordingCall\<close>, whose call in \<^verbatim>\<open>core.cpp\<close> is commented
  out, so the core process does not get here as long as that stays so.
\<close>

theorem recorded_call_bye_faults:
  assumes "sip_reachable nl i" and "isRequest m" and "requestType m = M_BYE" and "msgChannelId m = None"
    and "retrieveDialogue (fst (getCallId m)) (dialogueManager i) = Some d"
    and "dialogueState (current i ! d) = CONNECTED" and "recordingState (current i ! d)"
  shows "deliver nl m i = bindO nl (\<lambda>_. Inl Indeterminate)"
proof -
  let ?a = "length (messages (dialogueManager i))" and ?s = "dialogueManager (with_new_message m i)"
  have inv: "interface_inv i" by (rule reachable_inv [OF assms(1)])
  have d: "d < length (current i)" by (rule live_found [OF inv assms(5)])
  then obtain t where t: "currentTransaction (current i ! d) = Some t"
    using manager_inv_dialogue [of "dialogueManager i" d] inv
    by (auto simp: interface_inv_def live_dialogue_def dialogue_ok_def)
  obtain s1 where 1: "with_message ?a callId_of ?s = Inr (fst (getCallId m), s1)"
    using with_getter_total [of ?a ?s getCallId] by auto
  note q1 = with_callId(1) [OF 1]
  have len1: "?a < length (messages s1)" and m1: "message_extends m (messages s1 ! ?a)"
    using quiet_fields(5) [OF q1] quiet_fields(6) [OF q1, of ?a] by simp_all
  obtain s2 where 2: "with_message ?a callId_of s1 = Inr (fst (getCallId m), s2)"
    using with_getter_total [OF len1, of getCallId] callId_extends [OF m1] by auto
  note q2 = with_callId(1) [OF 2]
  have len2: "?a < length (messages s2)" and m2: "message_extends m (messages s2 ! ?a)"
    using quiet_fields(5) [OF q2] quiet_fields(6) [OF q2 len1] message_extends_trans [OF m1] len1 by simp_all
  have unset: "msgChannelId (messages s2 ! ?a) = None"
    using m2 assms(2,4) by (simp add: message_extends_def)
  have found: "retrieveDialogue (fst (getCallId m)) s1 = Some d" "retrieveDialogue (fst (getCallId m)) s2 = Some d"
    "dialogues s1 = current i" "dialogues s2 = current i"
    using assms(5) quiet_fields(1,2) [OF q1] quiet_fields(1,2) [OF q2] by (simp_all add: retrieveDialogue_def)
  have "updateTransaction (Some ?a) ?s = Inr (Some t, s1)"
    using assms(2,3) t d 1 found by (simp add: updateTransaction_def message_at_def dialogue_at_def)
  then have "deliver (Inr ()) m i = processBye (Inr ()) ?a (i\<lparr>dialogueManager := s1\<rparr>)"
    using len1 m1 assms(2,3) message_extends_fields(1,2) [OF m1]
    by (simp add: deliver_def processMessage_def message_at_def processRequest_def Let_def)
  also have "\<dots> = Inl Indeterminate"
    using 2 found d len2 unset assms(6,7)
    by (simp add: processBye_def dialogue_for_def ask_def dialogue_of_def dialogue_at_def look_def message_at_def
        getChannelId_def initialised_def)
  finally show ?thesis
    by (simp add: operations_nl(1) [of nl])
qed

theorem recorded_call_bye_faults_witness:
  "\<exists>i. sip_reachable (Inr ()) i \<and> deliver (Inr ()) (sample_request M_BYE) i = Inl Indeterminate"
proof -
  obtain i x where r: "sip_reachable (Inr ()) i" "current i = [x]" "dialogueState x = CONNECTED"
      "dialogueChannelId x = 1" "retrieveDialogue ''77@x'' (dialogueManager i) = Some 0"
    using reachable_call by blast
  have "retrieveDialogueByChannel 1 (dialogueManager i) = Some 0"
    using dm.found_agree [of "dialogueManager i" "''77@x''" 0] reachable_inv [OF r(1)] r(2,4,5)
    by (simp add: interface_inv_def channel_of_def)
  then obtain j where j: "startRecordingCall (Inr ()) 1 ''f'' i = Inr (0, j)" "current j = [x\<lparr>recordingState := True\<rparr>]"
      "retrieveDialogue ''77@x'' (dialogueManager j) = Some 0"
    using r(2,5) by (auto simp: startRecordingCall_def dialogue_of_def dialogue_at_def Let_def)
  have "fst (getCallId (sample_request M_BYE)) = ''77@x''"
    using complete_getters(1) [OF sample_request_complete [of M_BYE]] by simp
  moreover have s: "sip_reachable (Inr ()) j"
    by (rule sip_reachable.step [OF r(1) sip_step.recording [OF j(1)]])
  moreover have "isRequest (sample_request M_BYE)" "msgChannelId (sample_request M_BYE) = None"
    using sample_request_complete [of M_BYE] by (simp_all add: complete_request_def)
  ultimately have "deliver (Inr ()) (sample_request M_BYE) j = bindO (Inr ()) (\<lambda>_. Inl Indeterminate)"
    using j(2,3) r(3) by (intro recorded_call_bye_faults [of _ j _ 0]) simp_all
  then show ?thesis using s by (intro exI [of _ j]) simp
qed

end
