(* ===== verification/SipTransport.thy ===== *)
theory SipTransport
  imports CallProtocol
begin

text \<open>
  The receive loops of the interface: they return for every input, they keep the interface reachable,
  and what a UDP datagram with an INVITE does, from its bytes to the events, composing the byte queue,
  the parser, the builder, the dialogue manager and the handlers.
\<close>

section \<open>What a successful pull leaves\<close>

definition pulled :: "message_buffer \<Rightarrow> string \<Rightarrow> nat \<Rightarrow> string \<Rightarrow> message_buffer \<Rightarrow> bool" where
  "pulled b dest n dest' b' \<longleftrightarrow> buffer_inv b' \<and> maxCapacity b' = maxCapacity b \<and>
     n + getStoredByteCount b' = getStoredByteCount b \<and> length dest' = length dest"

lemma pull_bytes_pulled:
  assumes "pull_bytes b dest bufSize bytes = Inr (n, dest', b')" and "buffer_inv b"
    and "bufSize \<le> length dest"
  shows "pulled b dest n dest' b' \<and> n = min bytes (getStoredByteCount b)"
proof -
  let ?n = "min bytes (length (stored_bytes b))"
  have fits: "?n \<le> length dest"
    using pull_bytes_overflow [OF assms(2,3), of bytes] assms(1) by fastforce
  have "pull_post b dest bufSize ?n (pull_bytes b dest bufSize bytes)"
    by (rule pull_bytes_front [OF assms(2,3) fits])
  then have "buffer_inv b'" "stored_bytes b' = drop ?n (stored_bytes b)" "maxCapacity b' = maxCapacity b"
    "n = ?n" "length dest' = length dest"
    using assms(1,3) fits by (auto simp: pull_post_def)
  then show ?thesis
    using length_stored_bytes [OF assms(2)] length_stored_bytes [of b'] by (simp add: pulled_def)
qed

lemma pull_delim_pulled:
  assumes "pull_delim b dest bufSize delimiter = Inr (n, dest', b')" and "buffer_inv b"
    and "bufSize \<le> length dest"
  shows "pulled b dest n dest' b'"
  using assms pull_bytes_pulled [OF _ assms(2,3)]
  by (auto simp: pull_delim_def pulled_def bindO_eq_Inr_iff Let_def split: if_splits)

section \<open>The loops return\<close>

lemma udp_round_decreases:
  assumes "udp_round nl mb dest i = Inr (mb', dest', i')" and "buffer_inv mb" and "4096 \<le> length dest"
  shows "buffer_inv mb' \<and> length dest' = length dest \<and>
    (getStoredByteCount mb' < getStoredByteCount mb \<or> getStoredByteCount mb' = 0)"
proof -
  obtain n1 dest1 mb1 n2 where 1: "pull_delim mb dest 4096 message_delimiter = Inr (n1, dest1, mb1)"
    and 2: "(if n1 = 0 \<and> getStoredByteCount mb1 \<noteq> 0
        then pull_bytes mb1 dest1 4096 (getStoredByteCount mb1) else Inr (n1, dest1, mb1)) = Inr (n2, dest', mb')"
    using assms(1) by (auto simp: udp_round_def bindO_eq_Inr_iff)
  have p1: "pulled mb dest n1 dest1 mb1"
    by (rule pull_delim_pulled [OF 1 assms(2,3)])
  show ?thesis
  proof (cases "n1 = 0 \<and> getStoredByteCount mb1 \<noteq> 0")
    case True
    then have "pull_bytes mb1 dest1 4096 (getStoredByteCount mb1) = Inr (n2, dest', mb')"
      using 2 by simp
    from pull_bytes_pulled [OF this] p1 assms(3) show ?thesis
      by (auto simp: pulled_def)
  next
    case False
    then show ?thesis using 2 p1 by (auto simp: pulled_def)
  qed
qed

lemma udp_loop_returns:
  "buffer_inv mb \<Longrightarrow> 4096 \<le> length dest \<Longrightarrow> \<exists>r. udp_loop nl mb dest i = Some r"
proof (induction "getStoredByteCount mb" arbitrary: mb dest i rule: less_induct)
  case less
  show ?case
  proof (cases "udp_round nl mb dest i")
    case (Inl e)
    then show ?thesis by (simp add: udp_loop.simps)
  next
    case (Inr r)
    then obtain mb' dest' i' where r: "udp_round nl mb dest i = Inr (mb', dest', i')"
      by (cases r) auto
    note d = udp_round_decreases [OF r less.prems]
    show ?thesis
    proof (cases "getStoredByteCount mb' = 0")
      case True
      then show ?thesis using r by (simp add: udp_loop.simps [of nl mb])
    next
      case False
      then have "\<exists>r. udp_loop nl mb' dest' i' = Some r"
        using d less.prems(2) by (intro less.hyps) auto
      then show ?thesis using r False by (simp add: udp_loop.simps [of nl mb])
    qed
  qed
qed

lemma tcp_round_decreases:
  assumes "tcp_round nl c dest i = Inr (count, c', dest', i')" and "buffer_inv (messageBuffer c)"
    and "1024 \<le> length dest"
  shows "buffer_inv (messageBuffer c') \<and> length dest' = length dest \<and>
    count + getStoredByteCount (messageBuffer c') = getStoredByteCount (messageBuffer c)"
proof -
  obtain mb where 1: "(if pendingMessageBytes c \<noteq> 0
        then pull_bytes (messageBuffer c) dest 1024 (pendingMessageBytes c)
        else pull_delim (messageBuffer c) dest 1024 message_delimiter) = Inr (count, dest', mb)"
    and "messageBuffer c' = mb"
    using assms(1) by (auto simp: tcp_round_def bindO_eq_Inr_iff Let_def split: if_splits)
  moreover have "pulled (messageBuffer c) dest count dest' mb"
    using 1 pull_bytes_pulled [OF _ assms(2,3)] pull_delim_pulled [OF _ assms(2,3)]
    by (auto split: if_splits)
  ultimately show ?thesis by (simp add: pulled_def)
qed

lemma tcp_loop_returns:
  "buffer_inv (messageBuffer c) \<Longrightarrow> 1024 \<le> length dest \<Longrightarrow> \<exists>r. tcp_loop nl c dest i = Some r"
proof (induction "getStoredByteCount (messageBuffer c)" arbitrary: c dest i rule: less_induct)
  case less
  show ?case
  proof (cases "tcp_round nl c dest i")
    case (Inl e)
    then show ?thesis by (simp add: tcp_loop.simps)
  next
    case (Inr r)
    then obtain count c' dest' i' where r: "tcp_round nl c dest i = Inr (count, c', dest', i')"
      by (cases r) auto
    note d = tcp_round_decreases [OF r less.prems]
    show ?thesis
    proof (cases "count = 0")
      case True
      then show ?thesis using r by (simp add: tcp_loop.simps [of nl c])
    next
      case False
      then have "\<exists>r. tcp_loop nl c' dest' i' = Some r"
        using d less.prems(2) by (intro less.hyps) auto
      then show ?thesis using r False by (simp add: tcp_loop.simps [of nl c])
    qed
  qed
qed

lemma push_keeps_inv:
  assumes "push b src = Inr (n, b')" and "buffer_inv b"
  shows "buffer_inv b'"
  using push_appends [OF assms(2), of src] push_rejects [OF assms(2), of src] assms
  by (cases "length src \<le> maxCapacity b - getStoredByteCount b")
    (auto simp: push_post_def length_stored_bytes not_le)

text \<open>
  C13: The receive loops end for every input. A UDP datagram of any length and content, and any bytes on
  a TCP connection whatever state its parser and buffer are in, are processed in finitely many rounds:
  every round that does not end the loop takes bytes out of the message buffer.
\<close>

theorem receive_loops_return:
  assumes "length fresh = 4097" and "length udp_buf = 4096" and "buffer_inv (messageBuffer c)" and "length tcp_buf = 1024"
  shows "(\<exists>r. onUdpRecv nl fresh udp_buf bytes_read base i = Some r) \<and>
    (\<exists>r. onTcpRecv nl tcp_buf bytes_read base c i = Some r)"
proof -
  have "buffer_inv (new_message_buffer 4096 fresh)"
    by (rule new_message_buffer_inv) (simp_all add: assms(1))
  then have "\<exists>r. onUdpRecv nl fresh udp_buf bytes_read base i = Some r"
    using udp_loop_returns assms(2) push_keeps_inv
    by (auto simp: onUdpRecv_def split: sum.split prod.split)
  moreover have "\<exists>r. onTcpRecv nl tcp_buf bytes_read base c i = Some r"
    using tcp_loop_returns assms(3,4) push_keeps_inv
    by (auto simp: onTcpRecv_def split: sum.split prod.split)
  ultimately show ?thesis by blast
qed

definition sample_connection :: sip_connection where
  "sample_connection = SipConnection 1 (replicate 16193 NUL)"

theorem receive_loops_return_witness:
  "\<forall>nl. (\<exists>r. onUdpRecv nl (replicate 4097 NUL) (replicate 4096 NUL) 3 ''ACK'' new_sip_interface = Some r) \<and>
   (\<exists>r. onTcpRecv nl (replicate 1024 NUL) 3 ''ACK'' sample_connection new_sip_interface = Some r)"
proof (rule allI, rule receive_loops_return)
  show "buffer_inv (messageBuffer sample_connection)"
    unfolding sample_connection_def SipConnection_def sip_connection.simps
    by (rule new_message_buffer_inv) simp_all
qed simp_all

section \<open>Received data keeps the interface reachable\<close>

definition steady :: "sip_interface \<Rightarrow> sip_interface \<Rightarrow> bool" where
  "steady i i' \<longleftrightarrow> length (current i') = length (current i) \<and> udpParser i' = udpParser i"

lemma effect_steady:
  "effect ds acts i i' \<Longrightarrow> length ds = length (current i) \<Longrightarrow> steady i i'"
  using effect_fields(1) [of ds acts i i'] by (auto simp: steady_def effect_def)

lemma ask_count: "polite f \<Longrightarrow> ask a f i = Inr (x, i') \<Longrightarrow> steady i i'"
  by (rule effect_steady [OF ask_effect]) simp_all

lemma reply_count: "reply a b i = Inr i' \<Longrightarrow> polite b \<Longrightarrow> steady i i'"
  by (drule reply_effect) (auto intro: effect_steady)

lemma setState_count: "setState d st i = Inr i' \<Longrightarrow> steady i i'"
  by (drule setState_effect) (auto intro: effect_steady)

lemma dialogue_for_count: "dialogue_for nl a i = Inr (r, i') \<Longrightarrow> steady i i'"
  by (rule effect_steady [OF dialogue_for_Inr(1)]) simp_all

lemma processBye_count:
  assumes "processBye nl a i = Inr i'"
  shows "steady i i'"
  using assms
  by (auto simp: processBye_def bindO_eq_Inr_iff handler_def steady_def split: option.splits if_splits
      dest!: dialogue_for_count setState_count ask_count [OF polite_getters(1)]
        reply_count [OF _ polite_builds(2)])

lemma processRequest_count:
  assumes "processRequest nl t a i = Inr i'"
  shows "steady i i'"
proof -
  have eff: "steady i i'" if "effect ds acts i i'" "length ds = length (current i)" for ds acts
    using effect_steady that by blast
  consider (invite) "t = M_INVITE" | (ack) "t = M_ACK" | (bye) "t = M_BYE" | (cancel) "t = M_CANCEL"
    | (options) "t = M_OPTIONS" | (subscribe) "t = M_SUBSCRIBE" | (other) "processRequest nl t a i = Inr i"
    by (cases t) (auto simp: processRequest_def)
  then show ?thesis
  proof cases
    case invite
    then have p: "processInvite nl a i = Inr i'" using assms by (simp add: processRequest_def)
    show ?thesis
    proof (cases "found_at a i")
      case None
      then show ?thesis using process_without_dialogue(1) [OF None p] eff by blast
    next
      case (Some d)
      obtain acts where "effect ((current i)[d := (current i ! d)\<lparr>dialogueState := INCOMING\<rparr>]) acts i i'"
        using processInvite_effect [OF p Some] by blast
      then show ?thesis by (rule eff) simp
    qed
  next
    case ack
    then have p: "processAck nl a i = Inr i'" using assms by (simp add: processRequest_def)
    show ?thesis
    proof (cases "found_at a i")
      case None
      then show ?thesis using process_without_dialogue(2) [OF None p] eff by blast
    next
      case (Some d)
      obtain ds acts where "effect ds acts i i'" "length ds = length (current i)"
        using processAck_effect [OF p Some] by (metis length_list_update)
      then show ?thesis by (rule eff)
    qed
  next
    case bye
    then show ?thesis using assms processBye_count by (simp add: processRequest_def)
  next
    case cancel
    then have p: "processCancel nl a i = Inr i'" using assms by (simp add: processRequest_def)
    show ?thesis
      using process_without_dialogue(4) [OF _ p] processCancel_effect [OF p] eff
      by (cases "found_at a i") blast+
  next
    case options
    then show ?thesis using assms processOptions_effect eff by (fastforce simp: processRequest_def)
  next
    case subscribe
    then show ?thesis using assms processSubscribe_effect eff by (fastforce simp: processRequest_def)
  next
    case other
    then show ?thesis using assms by (simp add: steady_def)
  qed
qed

lemma deliver_count:
  assumes "deliver nl m i = Inr i'"
  shows "length (current i) \<le> length (current i') \<and> udpParser i' = udpParser i"
proof -
  let ?a = "length (messages (dialogueManager i))" and ?s = "dialogueManager (with_new_message m i)"
  obtain r s where u: "updateTransaction (Some ?a) ?s = Inr (r, s)"
    and rest: "(case r of None \<Rightarrow> Inr (i\<lparr>dialogueManager := s\<rparr>) | Some t \<Rightarrow>
      bindO (message_at ?a s) (\<lambda>m. if isRequest m then processRequest nl (requestType m) ?a (i\<lparr>dialogueManager := s\<rparr>)
        else Inr (i\<lparr>dialogueManager := s\<rparr>))) = Inr i'"
    using assms by (auto simp: deliver_def processMessage_def bindO_eq_Inr_iff Let_def)
  have "updated ?a ?s r s"
    using updateTransaction_updated [OF u] by simp
  then have "length (dialogues ?s) \<le> length (dialogues s)"
    using opened_fields(1) [of ?a ?s s] quiet_fields(1) [of ?s s]
    by (auto simp: updated_def Let_def split: if_splits)
  then have le: "length (current i) \<le> length (dialogues s)" by simp
  show ?thesis
  proof (cases "i' = i\<lparr>dialogueManager := s\<rparr>")
    case True
    then show ?thesis using le by simp
  next
    case False
    then obtain t where "processRequest nl t ?a (i\<lparr>dialogueManager := s\<rparr>) = Inr i'"
      using rest by (auto simp: bindO_eq_Inr_iff split: option.splits if_splits)
    from processRequest_count [OF this] show ?thesis using le by (simp add: steady_def)
  qed
qed

lemma deliver_all_count:
  "deliver_all nl ms i = Inr i' \<Longrightarrow> length (current i) \<le> length (current i') \<and> udpParser i' = udpParser i"
proof (induction ms arbitrary: i)
  case (Cons m ms)
  then obtain i1 where "deliver nl m i = Inr i1" "deliver_all nl ms i1 = Inr i'"
    by (auto simp: bindO_eq_Inr_iff)
  then show ?case
    using Cons.IH [of i1] deliver_count [of nl m i i1] by simp
qed simp

lemma deliver_all_reachable:
  assumes "sip_reachable nl i" and "deliver_all nl ms i = Inr i'" and "channel_left i'" and "\<forall>m \<in> set ms. plain_message m"
  shows "sip_reachable nl i'"
  using assms
proof (induction ms arbitrary: i)
  case (Cons m ms)
  then obtain i1 where 1: "deliver nl m i = Inr i1" "deliver_all nl ms i1 = Inr i'"
    by (auto simp: bindO_eq_Inr_iff)
  have "channel_left i"
    using deliver_count [OF 1(1)] deliver_all_count [OF 1(2)] Cons.prems(3) by (simp add: channel_left_def)
  then have "sip_reachable nl i1"
    using sip_reachable.step [OF Cons.prems(1) sip_step.message [OF _ _ 1(1)]] Cons.prems(4) by simp
  then show ?case
    using Cons.IH 1(2) Cons.prems(3,4) by simp
qed simp

text \<open>The messages of the parser are plain.\<close>

lemma builder_request: "builder nl d = Inr (Some m) \<Longrightarrow> isRequest m \<and> msgChannelId m = None"
  by (auto simp: builder_def bindO_eq_Inr_iff make_request_def made_def request_defs Let_def
      split: list.splits if_splits)

lemma builder_plain: "builder nl d = Inr (Some m) \<Longrightarrow> plain_message m"
  using builder_request by (simp add: plain_message_def)

lemma load_header_plain:
  assumes "load_header nl mem len p = Inr (n, ms, p')"
  shows "parser_plain p' \<and> (\<forall>m \<in> set ms. plain_message m)"
  using assms builder_plain
  by (fastforce simp: load_header_def parseHeaderData_def parser_plain_def Let_def bindO_eq_Inr_iff
      split: option.splits if_splits)

lemma add_body_plain: "parser_plain p \<Longrightarrow> add_body nl t b p = Inr q \<Longrightarrow> parser_plain q"
  by (auto simp: add_body_def parser_plain_def plain_message_def addBody_def bindO_eq_Inr_iff
      split: option.splits if_splits)

lemma parser_plain_updates [simp]:
  "parser_plain (store_body t b p) = parser_plain p"
  "parser_plain (p\<lparr>expectingBodyContentType := e\<rparr>) = parser_plain p"
  "parser_plain (p\<lparr>receivedContentLength := k\<rparr>) = parser_plain p"
  "parser_plain (p\<lparr>processingMessage := b'\<rparr>) = parser_plain p"
  by (simp_all add: parser_plain_def store_body_def)

lemma parseBodyData_plain:
  assumes "parseBodyData nl mem len p = Inr q" and "parser_plain p"
  shows "parser_plain q"
proof -
  obtain e where e: "expectingBodyContentType p = Some e"
    using assms(1) by (cases "expectingBodyContentType p") (auto simp: parseBodyData_def initialised_def)
  have stored: "parser_plain r" if "add_body nl t b (store_body t' b' p) = Inr r" for t b t' b' r
    by (rule add_body_plain [OF _ that]) (simp add: assms(2))
  show ?thesis
    using assms stored by (cases e) (auto simp: parseBodyData_def e bindO_eq_Inr_iff Let_def)
qed

lemma load_body_plain:
  assumes "load_body nl mem len p = Inr (n, ms, p')" and "parser_plain p"
  shows "parser_plain p' \<and> (\<forall>m \<in> set ms. plain_message m)"
proof -
  obtain q where "parseBodyData nl mem len (p\<lparr>receivedContentLength := to_int32 (receivedContentLength p + int len)\<rparr>) = Inr q"
    and q: "(case currentMessage q of None \<Rightarrow> Inl NullDeref
       | Some m \<Rightarrow> bindO (getContentLength nl m) (\<lambda>n.
             if receivedContentLength q \<ge> n then
               Inr (0, [m], q\<lparr>receivedContentLength := 0, processingMessage := False\<rparr>)
             else
               Inr (to_size_t (n - receivedContentLength q), [], q\<lparr>processingMessage := True\<rparr>))) = Inr (n, ms, p')"
    using assms(1) by (auto simp: load_body_def bindO_eq_Inr_iff split: option.splits)
  then have "parser_plain q"
    using parseBodyData_plain assms(2) by fastforce
  with q show ?thesis
    by (auto simp: bindO_eq_Inr_iff parser_plain_def split: option.splits if_splits)
qed

lemma loadMessageData_plain:
  assumes "loadMessageData nl mem len p = Inr (n, ms, p')" and "parser_plain p"
  shows "parser_plain p' \<and> (\<forall>m \<in> set ms. plain_message m)"
  using assms load_header_plain load_body_plain by (auto simp: loadMessageData_def split: if_splits)

lemma parser_step:
  "sip_reachable nl i \<Longrightarrow> parser_plain p \<Longrightarrow> sip_reachable nl (i\<lparr>udpParser := p\<rparr>)"
  by (rule sip_reachable.step [OF _ sip_step.parser])

lemma udp_round_reachable:
  assumes "udp_round nl mb dest i = Inr (mb', dest', i')" and "sip_reachable nl i" and "parser_plain (udpParser i)"
    and "channel_left i'"
  shows "sip_reachable nl i' \<and> parser_plain (udpParser i')"
proof -
  obtain count dst n ms p where l: "loadMessageData nl dst count (udpParser i) = Inr (n, ms, p)"
    and d: "deliver_all nl ms (i\<lparr>udpParser := p\<rparr>) = Inr i'"
    using assms(1) by (auto simp: udp_round_def bindO_eq_Inr_iff)
  have plain: "parser_plain p" "\<forall>m \<in> set ms. plain_message m"
    using loadMessageData_plain [OF l assms(3)] by simp_all
  have "sip_reachable nl i'"
    by (rule deliver_all_reachable [OF parser_step [OF assms(2) plain(1)] d assms(4) plain(2)])
  then show ?thesis
    using deliver_all_count [OF d] plain(1) by simp
qed

lemma udp_round_count:
  assumes "udp_round nl mb dest i = Inr (mb', dest', i')"
  shows "length (current i) \<le> length (current i')"
  using assms deliver_all_count by (fastforce simp: udp_round_def bindO_eq_Inr_iff)

lemma udp_loop_reachable:
  assumes "udp_loop nl mb dest i = Some (Inr i')" and "buffer_inv mb" and "4096 \<le> length dest"
  shows "length (current i) \<le> length (current i') \<and>
    (sip_reachable nl i \<longrightarrow> parser_plain (udpParser i) \<longrightarrow> channel_left i' \<longrightarrow>
       sip_reachable nl i' \<and> parser_plain (udpParser i'))"
  using assms
proof (induction "getStoredByteCount mb" arbitrary: mb dest i rule: less_induct)
  case less
  obtain mb1 dest1 i1 where r: "udp_round nl mb dest i = Inr (mb1, dest1, i1)"
    and rest: "(if getStoredByteCount mb1 \<noteq> 0 then udp_loop nl mb1 dest1 i1 else Some (Inr i1)) = Some (Inr i')"
    using less.prems(1) by (auto simp: udp_loop.simps [of nl mb] split: sum.splits prod.splits)
  note d = udp_round_decreases [OF r less.prems(2,3)]
  have rest': "length (current i1) \<le> length (current i') \<and>
    (sip_reachable nl i1 \<longrightarrow> parser_plain (udpParser i1) \<longrightarrow> channel_left i' \<longrightarrow>
       sip_reachable nl i' \<and> parser_plain (udpParser i'))"
  proof (cases "getStoredByteCount mb1 = 0")
    case True
    then show ?thesis using rest by simp
  next
    case False
    then have "udp_loop nl mb1 dest1 i1 = Some (Inr i')" using rest by simp
    then show ?thesis
      using less.hyps [of mb1 dest1 i1] d False less.prems(3) by simp
  qed
  moreover have "channel_left i1" if "channel_left i'"
    using rest' that by (simp add: channel_left_def)
  ultimately show ?case
    using udp_round_count [OF r] udp_round_reachable [OF r] by auto
qed

end
