(* ===== verification/InviteDatagram.thy ===== *)
theory InviteDatagram
  imports SipTransport
begin

text \<open>
  What a UDP datagram with an INVITE and its session description does, from the bytes to the events:
  the composition of the byte queue, the header scanner, the builder, the dialogue manager and the
  handlers, for the messages \<^verbatim>\<open>SipInterface::onUdpRecv\<close> is written for.
\<close>

section \<open>Bytes without a delimiter are pulled whole\<close>

lemma scan_loop_total:
  assumes "0 < length a" and "pos \<le> length a"
  shows "\<exists>r. scan_loop a (length a) d bufSize pos m count = Inr r"
  using assms(2)
proof (induction "bufSize - count" arbitrary: pos m count rule: less_induct)
  case less
  let ?q = "if pos = length a then 0 else pos"
  have q: "?q < length a" using assms(1) less.prems by simp
  show ?case
  proof (cases "m = length d \<or> bufSize \<le> count + 1")
    case True
    then show ?thesis
      using q by (cases "m = length d") (subst scan_loop.simps, simp add: Let_def split del: if_split)+
  next
    case False
    let ?m = "if a ! ?q = d ! m then m + 1 else 0"
    have "\<exists>r. scan_loop a (length a) d bufSize (?q + 1) ?m (count + 1) = Inr r"
      by (rule less.hyps) (use False q in \<open>auto split del: if_split\<close>)
    then show ?thesis
      using False q by (subst scan_loop.simps) (simp add: Let_def split del: if_split)
  qed
qed

definition contains :: "string \<Rightarrow> string \<Rightarrow> bool" where
  "contains d s \<longleftrightarrow> (\<exists>u v. s = u @ d @ v)"

lemma pull_undelimited:
  assumes inv: "buffer_inv b" and none: "\<not> contains d (stored_bytes b)" and d: "d \<noteq> []"
    and fits: "getStoredByteCount b \<le> bufSize" "bufSize \<le> length dest" and some: "0 < getStoredByteCount b"
  shows "(\<exists>dest' b'. pull_delim b dest bufSize d = Inr (0, dest', b') \<and> length dest' = length dest \<and>
      buffer_inv b' \<and> stored_bytes b' = stored_bytes b) \<or>
    pull_post b dest bufSize (getStoredByteCount b) (pull_delim b dest bufSize d)"
proof (cases "getStoredByteCount b < length d")
  case True
  then show ?thesis
    using d inv by (auto simp: pull_delim_def Let_def)
next
  case False
  note I = buffer_invD [OF inv]
  have a: "0 < length (bdata b)" using I(2,3) by simp
  obtain r where r: "scan_loop (bdata b) (bsize b) d bufSize (dataStartPos b) 0 0 = Inr r"
    using scan_loop_total [OF a, of "dataStartPos b" d bufSize 0 0] I(3,4) by auto
  let ?n = "case r of Some count \<Rightarrow> count | None \<Rightarrow> 0"
  have pull: "pull_delim b dest bufSize d = pull_bytes b dest bufSize ?n"
    using False d r by (simp add: pull_delim_def Let_def)
  note len = length_stored_bytes [OF inv]
  have post: "pull_post b dest bufSize (min ?n (getStoredByteCount b)) (pull_bytes b dest bufSize ?n)"
    using pull_bytes_front [OF inv fits(2), of ?n] fits len by simp
  consider "?n = 0" | "getStoredByteCount b \<le> ?n" | k where "r = Some k" "k < getStoredByteCount b"
    by (cases r) (simp, metis linorder_not_less option.simps(5))
  then show ?thesis
  proof cases
    case 1
    then have "pull_post b dest bufSize 0 (pull_delim b dest bufSize d)"
      using post pull by simp
    then show ?thesis using fits(2) by (auto simp: pull_post_def length_blit)
  next
    case 2
    then show ?thesis using post pull by (simp add: min_absorb2)
  next
    case 3
    have "suffix d (cyclic (bdata b) (dataStartPos b) k)"
      using r 3 I(3,4) a by (intro scan_found [of _ _ bufSize "dataStartPos b" 0 0 k]) (auto simp: cyclic_def)
    then have "suffix d (take k (stored_bytes b))"
      using 3(2) cyclic_stored [OF inv, of k] len by simp
    then have "contains d (stored_bytes b)"
      by (metis append.assoc append_take_drop_id contains_def suffixE)
    with none show ?thesis by contradiction
  qed
qed

text \<open>The memory a pull fills: the bytes, and zeros up to the end of the caller's buffer.\<close>

lemma pull_post_memory:
  assumes "pull_post b dest bufSize n r" and "length dest = bufSize" and "n \<le> length (stored_bytes b)" and "n \<le> bufSize"
  obtains b' where "r = Inr (n, take n (stored_bytes b) @ replicate (bufSize - n) NUL, b')"
    and "buffer_inv b'" and "stored_bytes b' = drop n (stored_bytes b)" and "maxCapacity b' = maxCapacity b"
  using assms by (auto simp: pull_post_def blit_def)

lemma undelimited_rest:
  assumes inv: "buffer_inv mb" and "\<not> contains message_delimiter (stored_bytes mb)"
    and s: "stored_bytes mb \<noteq> []" "length (stored_bytes mb) \<le> 4096" and dest: "length dest = 4096"
  shows "\<exists>mb'. bindO (pull_delim mb dest 4096 message_delimiter) (\<lambda>(count, dest, mb).
       if count = 0 \<and> getStoredByteCount mb \<noteq> 0
       then pull_bytes mb dest 4096 (getStoredByteCount mb) else Inr (count, dest, mb)) =
     Inr (length (stored_bytes mb), stored_bytes mb @ replicate (4096 - length (stored_bytes mb)) NUL, mb') \<and>
     getStoredByteCount mb' = 0"
proof -
  let ?n = "length (stored_bytes mb)"
  have n: "getStoredByteCount mb = ?n" and nonempty: "?n \<noteq> 0"
    using length_stored_bytes [OF inv] s(1) by (simp, blast)
  have whole: "\<exists>mb'. r = Inr (?n, stored_bytes mb @ replicate (4096 - ?n) NUL, mb') \<and> getStoredByteCount mb' = 0"
    if pulled: "pull_post mb1 dest1 4096 ?n r" "length dest1 = 4096" and same: "stored_bytes mb1 = stored_bytes mb"
    for r mb1 dest1
  proof -
    obtain b' where b': "r = Inr (?n, take ?n (stored_bytes mb1) @ replicate (4096 - ?n) NUL, b')" "buffer_inv b'"
      "stored_bytes b' = drop ?n (stored_bytes mb1)"
      by (rule pull_post_memory [OF pulled]) (use same s(2) in auto)
    then have "getStoredByteCount b' = 0"
      using same length_stored_bytes [OF b'(2)] by simp
    then show ?thesis using b'(1) same by simp
  qed
  have d: "message_delimiter \<noteq> []" by (simp add: message_delimiter_def)
  consider dest1 b1 where "pull_delim mb dest 4096 message_delimiter = Inr (0, dest1, b1)"
      "length dest1 = 4096" "buffer_inv b1" "stored_bytes b1 = stored_bytes mb"
    | "pull_post mb dest 4096 ?n (pull_delim mb dest 4096 message_delimiter)"
  proof -
    have "0 < getStoredByteCount mb" "getStoredByteCount mb \<le> 4096"
      using s by (simp_all add: n)
    then show thesis
      using pull_undelimited [OF assms(1,2) d, of 4096 dest] n dest that by (metis order_refl)
  qed
  then show ?thesis
  proof cases
    case 1
    have count: "getStoredByteCount b1 = ?n"
      using length_stored_bytes [OF 1(3)] 1(4) by simp
    have "pull_post b1 dest1 4096 ?n (pull_bytes b1 dest1 4096 ?n)"
      using pull_bytes_front [OF 1(3), of 4096 dest1 ?n] 1(2,4) s(2) by simp
    from whole [OF this 1(2,4)] show ?thesis
      using 1(1) count nonempty by simp
  next
    case 2
    from whole [OF this dest refl] show ?thesis
      using nonempty by auto
  qed
qed

section \<open>What a complete INVITE becomes\<close>

definition announced_names :: "string list" where
  "announced_names = [''CALL-ID'', ''FROM'', ''TO'', ''CSEQ'']"

lemma usual_via_not_Nil: "usual_via v \<Longrightarrow> v \<noteq> []"
  unfolding usual_via_def via_text_def by blast

lemma invite_complete:
  assumes built: "isRequest m" "msgChannelId m = None"
    and ok: "header_map_ok (msgHeaders m)" "header_texts (msgHeaders m) = value_map hs Map.empty"
    and sent: "\<forall>k \<in> set announced_names. last_value hs k \<noteq> []" and via: "usual_via (last_value hs ''VIA'')"
  shows "complete_request m \<and> (\<forall>k. header_text k m = last_value hs k)"
proof -
  have entry: "\<exists>h. map_of (msgHeaders m) k = Some (Some h) \<and> header_fits k h \<and> last_value hs k = toString (headerValue h)"
    if "last_value hs k \<noteq> []" for k
    using last_value_texts [OF ok, of k] that by (cases "map_of (msgHeaders m) k") auto
  have "last_value hs ''VIA'' \<noteq> []"
    by (rule usual_via_not_Nil [OF via])
  then obtain h where h: "map_of (msgHeaders m) ''VIA'' = Some (Some h)" "header_fits ''VIA'' h"
      "last_value hs ''VIA'' = toString (headerValue h)"
    using entry by blast
  then obtain v where v: "headerExt h = Ext_Via v" "via_usable v"
    using via by (auto simp: header_fits_def)
  have "r \<noteq> None" if "(k, r) \<in> set (msgHeaders m)" for k r
    using ok(1) that std_wf_distinct [of "msgHeaders m"] by (auto simp: header_map_ok_def)
  moreover have "\<exists>h. map_of (msgHeaders m) k = Some (Some h)" if "k \<in> {''CALL-ID'', ''FROM'', ''TO'', ''CSEQ''}" for k
    using entry [of k] sent that by (auto simp: announced_names_def)
  ultimately have "complete_request m"
    using built h(1) v unfolding complete_request_def
    by (auto simp: via_usable_def)
  then show ?thesis
    using fst_getters [OF ok] by (simp add: header_text_def)
qed

lemma with_offer_complete [simp]:
  "complete_request (with_offer b m) = complete_request m" "header_text k (with_offer b m) = header_text k m"
  by (auto simp: with_offer_def complete_request_def header_text_def header_value_at_def header_at_def
      split: option.splits)

section \<open>From the datagram to the event\<close>

lemma wire_block_is_header_block:
  assumes "\<forall>h \<in> set hs. wire_ok h" and "hs \<noteq> []"
  shows "\<exists>ls. wire_block hs = header_block ls \<and> header_lines ls"
proof (intro exI conjI)
  show "wire_block hs = header_block (map (\<lambda>h. whName h @ whSep h @ whValue h) hs)"
    by (simp add: wire_block_def header_block_def wire_line_def [abs_def] comp_def)
  have "CR \<notin> set (whName h @ whSep h @ whValue h)" if "wire_ok h" for h
    using wire_ok_good [OF that] that by (auto simp: good_header_def header_line_def wire_ok_def)
  then show "header_lines (map (\<lambda>h. whName h @ whSep h @ whValue h) hs)"
    using assms by (auto simp: header_lines_def wire_ok_def)
qed

lemma deliver_one: "deliver_all nl [m] i = deliver nl m i"
  by (simp add: bindO_def split: sum.split)

lemma announced_parser [simp]:
  "announced m (i\<lparr>udpParser := p\<rparr>) i' = announced m i i'"
  by (simp add: announced_def)

text \<open>The two rounds of the receive loop: the header block, then the body.\<close>

lemma first_round:
  assumes inv: "buffer_inv mb" and stored: "stored_bytes mb = wire_block hs @ body"
    and hs: "\<forall>h \<in> set hs. wire_ok h" "hs \<noteq> []" and size: "length (wire_block hs) < 4096" and dest: "length dest = 4096"
  shows "\<exists>mem mb1. take (length (wire_block hs)) mem = wire_block hs \<and> length mem = 4096 \<and> buffer_inv mb1 \<and>
    stored_bytes mb1 = body \<and>
    (\<forall>nl n p1. loadMessageData nl mem (length (wire_block hs)) (udpParser i) = bindO nl (\<lambda>_. Inr (n, [], p1)) \<longrightarrow>
       udp_round nl mb dest i = bindO nl (\<lambda>_. Inr (mb1, mem, i\<lparr>udpParser := p1\<rparr>)))"
proof -
  obtain ls where ls: "wire_block hs = header_block ls" "header_lines ls"
    using wire_block_is_header_block [OF hs] by blast
  have "\<exists>mb1 dest1. pull_delim mb dest 4096 message_delimiter = Inr (length (wire_block hs), dest1, mb1) \<and>
      take (length (wire_block hs)) dest1 = wire_block hs \<and> buffer_inv mb1 \<and> stored_bytes mb1 = body"
    using header_block_is_pulled [OF inv ls(2), of body 4096 dest] stored size dest
    by (auto simp: ls(1) split: sum.splits prod.splits)
  then obtain mb1 dest1 where p: "pull_delim mb dest 4096 message_delimiter = Inr (length (wire_block hs), dest1, mb1)"
      "take (length (wire_block hs)) dest1 = wire_block hs" "buffer_inv mb1" "stored_bytes mb1 = body"
    by blast
  moreover have "length dest1 = 4096"
    using pull_delim_pulled [OF p(1) inv] dest by (simp add: pulled_def)
  moreover have "length (wire_block hs) \<noteq> 0" by (simp add: wire_block_def)
  ultimately show ?thesis
    by (intro exI [of _ dest1] exI [of _ mb1]) (simp add: udp_round_def bindO_assoc)
qed

lemma second_round:
  assumes inv: "buffer_inv mb" and stored: "stored_bytes mb = body" "body \<noteq> []" "length body < 4096"
    and "\<not> contains message_delimiter body" and dest: "length dest = 4096"
    and l: "\<And>pad. \<exists>m p2 i'. loadMessageData nl (body @ NUL # pad) (length body) (udpParser i) = Inr (0, [m], p2) \<and>
      deliver nl m (i\<lparr>udpParser := p2\<rparr>) = Inr i' \<and> Q m i'"
  shows "\<exists>i' m. udp_loop nl mb dest i = Some (Inr i') \<and> Q m i'"
proof -
  let ?pad = "replicate (4095 - length body) NUL"
  have pad: "replicate (4096 - length body) NUL = NUL # ?pad"
    using stored(3) by (simp add: replicate_Suc [symmetric] Suc_diff_le del: replicate_Suc)
  obtain mb' where b: "bindO (pull_delim mb dest 4096 message_delimiter) (\<lambda>(count, dest, mb).
       if count = 0 \<and> getStoredByteCount mb \<noteq> 0
       then pull_bytes mb dest 4096 (getStoredByteCount mb) else Inr (count, dest, mb)) =
     Inr (length body, body @ NUL # ?pad, mb')" and z: "getStoredByteCount mb' = 0"
    using undelimited_rest [OF inv _ _ _ dest] assms(5) stored pad by auto
  obtain m p2 i' where load: "loadMessageData nl (body @ NUL # ?pad) (length body) (udpParser i) = Inr (0, [m], p2)"
    and i': "deliver nl m (i\<lparr>udpParser := p2\<rparr>) = Inr i'" "Q m i'"
    using l by blast
  have "udp_round nl mb dest i = bindO (bindO (pull_delim mb dest 4096 message_delimiter) (\<lambda>(count, dest, mb).
       if count = 0 \<and> getStoredByteCount mb \<noteq> 0
       then pull_bytes mb dest 4096 (getStoredByteCount mb) else Inr (count, dest, mb))) (\<lambda>(count, dest, mb).
     bindO (loadMessageData nl dest count (udpParser i)) (\<lambda>(_, delivered, p).
     bindO (deliver_all nl delivered (i\<lparr>udpParser := p\<rparr>)) (\<lambda>i. Inr (mb, dest, i))))"
    by (simp add: udp_round_def bindO_def split: sum.split prod.split)
  also have "\<dots> = Inr (mb', body @ NUL # ?pad, i')"
    using i'(1) unfolding b by (simp add: load deliver_one del: deliver_all.simps)
  finally show ?thesis
    using z i'(2) by (auto simp: udp_loop.simps [of nl mb])
qed

lemma invite_datagram:
  assumes parser: "\<not> processingMessage (udpParser i)" "receivedContentLength (udpParser i) = 0"
      "map_of (dataBodies (parserData (udpParser i))) Body_SDP = None"
    and hs: "\<forall>h \<in> set (start # rest). wire_ok h" and inv: "map toupper (whName start) = ''INVITE''"
    and sent: "\<forall>k \<in> set announced_names. last_value (map header_of rest) k \<noteq> []"
    and via: "usual_via (last_value (map header_of rest) ''VIA'')" "\<forall>h \<in> set rest. via_ok (header_of h)"
    and clen: "last_value (map header_of rest) ''CONTENT-LENGTH'' = show_nat (length body)"
    and ctype: "last_value (map header_of rest) ''CONTENT-TYPE'' \<noteq> []"
      "content_type_of (buffer_of_string (last_value (map header_of rest) ''CONTENT-TYPE'')) = Body_SDP"
    and body: "body \<noteq> []" "NUL \<notin> set body" "\<not> contains message_delimiter body"
    and size: "length (wire_block (start # rest) @ body) \<le> 4096"
    and mem: "length fresh = 4097" "length udp_buf = 4096"
    and unknown: "retrieveDialogue (last_value (map header_of rest) ''CALL-ID'') (dialogueManager i) = None"
  shows "\<exists>i' m. onUdpRecv nl fresh udp_buf (int (length (wire_block (start # rest) @ body))) (wire_block (start # rest) @ body) i =
      Some (bindO nl (\<lambda>_. Inr i')) \<and> announced m i i' \<and> complete_request m \<and> requestType m = M_INVITE \<and>
      (\<forall>k. header_text k m = last_value (map header_of rest) k) \<and> getBody Body_SDP m = body"
proof -
  let ?w = "wire_block (start # rest)" and ?p = "udpParser i" and ?hs = "map header_of rest"
  let ?b = "new_message_buffer 4096 fresh"
  have w: "0 < length ?w" and small: "length ?w < 4096" "length body < 4096"
    using size body(1) by (simp_all add: wire_block_def) (cases body, simp_all)+
  have b0: "buffer_inv ?b" "stored_bytes ?b = []" "maxCapacity ?b = 4096"
    using new_message_buffer_inv [of 4096 fresh] mem(1) by (simp_all add: new_message_buffer_def)
  then have "push_post ?b (?w @ body) (push ?b (?w @ body))"
    using size by (intro push_appends) simp_all
  then obtain n0 mb where push: "push ?b (?w @ body) = Inr (n0, mb)" and mb: "buffer_inv mb" "stored_bytes mb = ?w @ body"
    using b0(2) by (auto simp: push_post_def)
  obtain memory mb1 where mem1: "take (length ?w) memory = ?w" "length memory = 4096" "buffer_inv mb1" "stored_bytes mb1 = body"
    and round: "\<And>nl n p1. loadMessageData nl memory (length ?w) ?p = bindO nl (\<lambda>_. Inr (n, [], p1)) \<Longrightarrow>
      udp_round nl mb udp_buf i = bindO nl (\<lambda>_. Inr (mb1, memory, i\<lparr>udpParser := p1\<rparr>))"
    using first_round [OF mb hs _ small(1) mem(2), of i] by blast
  have long: "0 < length body" "length body < 2 ^ 31" using small(2) body(1) by simp_all
  obtain m p1 where p1: "\<forall>nl. loadMessageData nl memory (length ?w) ?p = bindO nl (\<lambda>_. Inr (length body, [], p1))"
    and b: "\<forall>nl. builder nl \<lparr>message = normalised_text ((whName start, whValue start) # ?hs),
      dataBodies = dataBodies (parserData ?p)\<rparr> = bindO nl (\<lambda>_. Inr (Some m))"
    and m: "awaits_offer m p1" "requestType m = M_INVITE" "msgBodies m = dataBodies (parserData ?p)"
      "header_map_ok (msgHeaders m)" "header_texts (msgHeaders m) = value_map ?hs Map.empty"
      "\<And>nl. getContentLength nl m = Inr (int (length body))" "\<And>nl. getContentType nl m = Inr Body_SDP"
    using invite_header [OF parser(1,2) hs inv mem1(1) via(2) clen long ctype] by blast
  have "builder (Inr ()) \<lparr>message = normalised_text ((whName start, whValue start) # ?hs),
      dataBodies = dataBodies (parserData ?p)\<rparr> = Inr (Some m)"
    using b by simp
  note facts = invite_complete [OF conjunct1 [OF builder_request [OF this]] conjunct2 [OF builder_request [OF this]]
      m(4,5) sent via(1)]
  let ?m = "with_offer body m"
  let ?Q = "\<lambda>m i'. announced m i i' \<and> complete_request m \<and> requestType m = M_INVITE \<and>
      (\<forall>k. header_text k m = last_value ?hs k) \<and> getBody Body_SDP m = body"
  have step: "\<exists>m p2 i'. loadMessageData (Inr ()) (body @ NUL # pad) (length body) p1 = Inr (0, [m], p2) \<and>
      deliver (Inr ()) m (i\<lparr>udpParser := p2\<rparr>) = Inr i' \<and> ?Q m i'" for pad
  proof -
    obtain p2 where p2: "loadMessageData (Inr ()) (body @ NUL # pad) (length body) p1 = Inr (0, [?m], p2)"
      using load_offer [OF m(1) _ m(6,7) order_refl long(2) body(2), of pad] m(3) parser(3) by auto
    have "\<exists>i'. deliver (Inr ()) ?m (i\<lparr>udpParser := p2\<rparr>) = Inr i' \<and> announced ?m (i\<lparr>udpParser := p2\<rparr>) i'"
      by (rule invite_announces) (simp_all add: facts m(2) unknown)
    then show ?thesis using p2 facts m(2) by auto
  qed
  have rest: "\<exists>i' m. udp_loop (Inr ()) mb1 memory (i\<lparr>udpParser := p1\<rparr>) = Some (Inr i') \<and> ?Q m i'"
    by (rule second_round [OF mem1(3,4) body(1) small(2) body(3) mem1(2)]) (use step in simp)
  have "getStoredByteCount mb1 \<noteq> 0"
    using length_stored_bytes [OF mem1(3)] mem1(4) body(1) by (metis length_0_conv)
  then have loop: "udp_loop nl mb udp_buf i =
      (case nl of Inl e \<Rightarrow> Some (Inl e) | Inr u \<Rightarrow> udp_loop (Inr ()) mb1 memory (i\<lparr>udpParser := p1\<rparr>))"
    using round [OF spec [OF p1]] by (cases nl) (simp_all add: udp_loop.simps [of _ mb])
  have "onUdpRecv nl fresh udp_buf (int (length (?w @ body))) (?w @ body) i = udp_loop nl mb udp_buf i"
  proof -
    have "0 < int (length (?w @ body))" using w by (metis add_gr_0 length_append of_nat_0_less_iff)
    then show ?thesis using push unfolding onUdpRecv_def by (simp only: nat_int take_all order_refl if_True) simp
  qed
  with rest loop show ?thesis by (cases nl) auto
qed

text \<open>
  C2: An INVITE on the wire becomes a call. A datagram of at most 4096 bytes, a block of header lines with
  the fields of an INVITE and a usual Via, followed by a session description of the announced length,
  received with an idle parser for a call the interface does not know, is processed without a fault, unless
  the call through the logger the constructor of the request never set is one: this is the fault then.
  Otherwise exactly one dialogue is opened, on the next channel and in state INCOMING, and exactly two actions are
  taken: the 100 Trying reply, and the new-call event with the call id, the To and From values and the
  session description that were sent.
\<close>

theorem invite_datagram_opens_call:
  assumes parser: "\<not> processingMessage (udpParser i)" "receivedContentLength (udpParser i) = 0"
      "map_of (dataBodies (parserData (udpParser i))) Body_SDP = None"
    and hs: "\<forall>h \<in> set (start # rest). wire_ok h" and inv: "map toupper (whName start) = ''INVITE''"
    and sent: "\<forall>k \<in> set announced_names. last_value (map header_of rest) k \<noteq> []"
    and via: "usual_via (last_value (map header_of rest) ''VIA'')" "\<forall>h \<in> set rest. via_ok (header_of h)"
    and clen: "last_value (map header_of rest) ''CONTENT-LENGTH'' = show_nat (length body)"
    and ctype: "last_value (map header_of rest) ''CONTENT-TYPE'' \<noteq> []"
      "content_type_of (buffer_of_string (last_value (map header_of rest) ''CONTENT-TYPE'')) = Body_SDP"
    and body: "body \<noteq> []" "NUL \<notin> set body" "\<not> contains message_delimiter body"
    and size: "length (wire_block (start # rest) @ body) \<le> 4096"
    and mem: "length fresh = 4097" "length udp_buf = 4096"
    and unknown: "retrieveDialogue (last_value (map header_of rest) ''CALL-ID'') (dialogueManager i) = None"
  shows "\<exists>i' m x. onUdpRecv nl fresh udp_buf (int (length (wire_block (start # rest) @ body))) (wire_block (start # rest) @ body) i =
      Some (bindO nl (\<lambda>_. Inr i')) \<and> getBody Body_SDP m = body \<and>
    current i' = current i @ [x] \<and> dialogueState x = INCOMING \<and> dialogueChannelId x = lastChannelId (dialogueManager i) + 1 \<and>
    actions i' = actions i @
      [reply_action (buildTryingResponse (Inr ()) ''temporary-response-tag'') m,
       Event (CallNewCallEvent (dialogueChannelId x) (last_value (map header_of rest) ''CALL-ID'') ''temporary-response-tag''
         (last_value (map header_of rest) ''TO'') (last_value (map header_of rest) ''FROM'') (headers_of m) (msgBodies m))] \<and>
    retrieveDialogue (last_value (map header_of rest) ''CALL-ID'') (dialogueManager i') = Some (length (current i))"
proof -
  obtain i' m where 1: "onUdpRecv nl fresh udp_buf (int (length (wire_block (start # rest) @ body))) (wire_block (start # rest) @ body) i =
      Some (bindO nl (\<lambda>_. Inr i'))" "announced m i i'" "getBody Body_SDP m = body"
    and fields: "\<And>k. header_text k m = last_value (map header_of rest) k"
    using invite_datagram [OF assms] by blast
  let ?x = "fresh_dialogue (lastChannelId (dialogueManager i) + 1) (length (messages (dialogueManager i))) m"
  have "current i' = current i @ [?x\<lparr>dialogueState := INCOMING\<rparr>]" "dialogueChannelId ?x = lastChannelId (dialogueManager i) + 1"
    "responseTag ?x = ''temporary-response-tag''"
    using 1(2) by (simp_all add: announced_def Let_def fresh_dialogue_def)
  then show ?thesis
    using 1 by (intro exI [of _ i'] exI [of _ m] exI [of _ "?x\<lparr>dialogueState := INCOMING\<rparr>"])
      (simp add: announced_def Let_def fields)
qed

definition sample_invite :: "wire_header list" where
  "sample_invite = \<lparr>whName = ''Via'', whSep = '': '',
     whValue = ''SIP/2.0/UDP 10.0.0.1:5061;branch=z9hG4bK1''\<rparr> # sample_wire"

lemma sample_invite_ok: "\<forall>h \<in> set (sample_start # sample_invite). wire_ok h"
  using sample_wire_ok by (simp add: sample_invite_def wire_ok_def isValidHeaderFieldNameChar_def ctype_defs)

lemma sample_via_usual: "usual_via ''SIP/2.0/UDP 10.0.0.1:5061;branch=z9hG4bK1''"
proof -
  have "''SIP/2.0/UDP 10.0.0.1:5061;branch=z9hG4bK1'' = via_text ''SIP/2.0/UDP'' ''10.0.0.1'' 5061 ''z9hG4bK1''"
    by (simp add: via_text_def show_nat.simps digit_char_def char_of_def bit_0)
  moreover have "plain_word ''10.0.0.1''" "plain_word ''z9hG4bK1''" "\<forall>c \<in> set ''SIP/2.0/UDP''. c \<noteq> CHR '' '' \<and> c \<noteq> NUL"
    by (simp_all add: plain_word_def)
  moreover have "''SIP/2.0/UDP'' \<noteq> []" "(5061::nat) < 2 ^ 31" by simp_all
  ultimately show ?thesis unfolding usual_via_def by blast
qed

lemma sample_invite_values:
  "last_value (map header_of sample_invite) ''CALL-ID'' = ''77@x''"
  "last_value (map header_of sample_invite) ''FROM'' = ''<sip:a@x>;tag=1''"
  "last_value (map header_of sample_invite) ''TO'' = ''<sip:b@y>''"
  "last_value (map header_of sample_invite) ''CSEQ'' = ''1 INVITE''"
  "last_value (map header_of sample_invite) ''VIA'' = ''SIP/2.0/UDP 10.0.0.1:5061;branch=z9hG4bK1''"
  "last_value (map header_of sample_invite) ''CONTENT-LENGTH'' = show_nat (length ''v=0'')"
  "last_value (map header_of sample_invite) ''CONTENT-TYPE'' = ''application/sdp''"
  by (simp_all add: sample_invite_def sample_wire_def header_eval show_nat.simps digit_char_def)

lemma sample_invite_via: "\<forall>h \<in> set sample_invite. via_ok (header_of h)"
  using sample_wire_values(4) sample_via_usual by (simp add: sample_invite_def via_ok_def)

lemma sample_invite_size: "length (wire_block (sample_start # sample_invite) @ ''v=0'') \<le> 4096"
  by (simp add: sample_invite_def sample_start_def sample_wire_def wire_block_def wire_line_def)

lemma sample_body: "NUL \<notin> set ''v=0''" "\<not> contains message_delimiter ''v=0''"
  by (auto simp: contains_def message_delimiter_def dest: arg_cong [of _ _ set])

lemma sample_parser:
  "\<not> processingMessage (udpParser new_sip_interface)" "receivedContentLength (udpParser new_sip_interface) = 0"
  "map_of (dataBodies (parserData (udpParser new_sip_interface))) Body_SDP = None"
  by (simp_all add: new_sip_interface_def new_sip_parser_def)

theorem invite_datagram_opens_call_witness:
  "\<forall>nl. \<exists>i' m x. onUdpRecv nl (replicate 4097 NUL) (replicate 4096 NUL)
      (int (length (wire_block (sample_start # sample_invite) @ ''v=0''))) (wire_block (sample_start # sample_invite) @ ''v=0'')
      new_sip_interface = Some (bindO nl (\<lambda>_. Inr i')) \<and> getBody Body_SDP m = ''v=0'' \<and>
    current i' = [x] \<and> dialogueState x = INCOMING \<and> dialogueChannelId x = 1 \<and>
    actions i' =
      [reply_action (buildTryingResponse (Inr ()) ''temporary-response-tag'') m,
       Event (CallNewCallEvent (dialogueChannelId x) ''77@x'' ''temporary-response-tag'' ''<sip:b@y>'' ''<sip:a@x>;tag=1''
         (headers_of m) (msgBodies m))] \<and>
    retrieveDialogue ''77@x'' (dialogueManager i') = Some 0" (is "\<forall>nl. ?P nl")
proof (rule allI)
  fix nl :: logging
  have sent: "\<forall>k \<in> set announced_names. last_value (map header_of sample_invite) k \<noteq> []"
    by (simp add: announced_names_def sample_invite_values)
  note main = invite_datagram_opens_call [OF sample_parser sample_invite_ok sample_wire_values(1) sent _ sample_invite_via
      sample_invite_values(6) _ _ _ sample_body sample_invite_size, of "replicate 4097 NUL" "replicate 4096 NUL",
      unfolded sample_invite_values]
  show "?P nl"
    using main sample_via_usual sample_content_type by simp
qed

lemma sample_invite_received:
  "\<exists>i' x. onUdpRecv (Inr ()) (replicate 4097 NUL) (replicate 4096 NUL)
      (int (length (wire_block (sample_start # sample_invite) @ ''v=0''))) (wire_block (sample_start # sample_invite) @ ''v=0'')
      new_sip_interface = Some (Inr i') \<and> current i' = [x] \<and> dialogueState x = INCOMING \<and> dialogueChannelId x = 1"
proof -
  have sent: "\<forall>k \<in> set announced_names. last_value (map header_of sample_invite) k \<noteq> []"
    by (simp add: announced_names_def sample_invite_values)
  note main = invite_datagram [where nl = "Inr ()", OF sample_parser sample_invite_ok sample_wire_values(1) sent _ sample_invite_via
      sample_invite_values(6) _ _ _ sample_body sample_invite_size, of "replicate 4097 NUL" "replicate 4096 NUL",
      unfolded sample_invite_values]
  show ?thesis
    using main sample_via_usual sample_content_type by (auto simp: announced_def Let_def fresh_dialogue_def)
qed

lemma udp_keeps_reachable:
  assumes "sip_reachable nl i" and "parser_plain (udpParser i)" and "length fresh = 4097" and "length udp_buf = 4096"
    and "onUdpRecv nl fresh udp_buf bytes_read base i = Some (Inr i')" and "channel_left i'"
  shows "sip_reachable nl i' \<and> parser_plain (udpParser i')"
proof (cases "bytes_read > 0")
  case False
  then show ?thesis using assms by (simp add: onUdpRecv_def)
next
  case True
  then obtain n mb where p: "push (new_message_buffer 4096 fresh) (take (nat bytes_read) base) = Inr (n, mb)"
    and l: "udp_loop nl mb udp_buf i = Some (Inr i')"
    using assms(5) by (auto simp: onUdpRecv_def split: sum.splits prod.splits)
  have "buffer_inv (new_message_buffer 4096 fresh)"
    by (rule new_message_buffer_inv) (simp_all add: assms(3))
  then have "buffer_inv mb"
    by (rule push_keeps_inv [OF p])
  then show ?thesis
    using udp_loop_reachable [OF l] assms(1,2,4,6) by simp
qed

text \<open>
  C12: A UDP datagram is a sequence of steps of the interface: whatever bytes it holds, when the
  interface survives it, the interface it leaves is reachable, so everything proved for reachable
  interfaces (the call protocol of the events, the consistent directory) holds after it, and the shared
  parser is again fit for the next datagram.
\<close>

theorem datagram_keeps_reachable:
  assumes "sip_reachable nl i" and "parser_plain (udpParser i)" and "length fresh = 4097" and "length udp_buf = 4096"
    and "onUdpRecv nl fresh udp_buf bytes_read base i = Some (Inr i')" and "channel_left i'"
  shows "sip_reachable nl i' \<and> parser_plain (udpParser i') \<and>
    (\<forall>x \<in> set (current i'). run_protocol NONE (channel_events (dialogueChannelId x) (actions i')) =
       Some (dialogueState x))"
  using udp_keeps_reachable [OF assms] reachable_inv [of nl i']
  by (auto simp: interface_inv_def calls_inv_def follows_protocol_def)

theorem datagram_keeps_reachable_witness:
  "\<exists>i' x. onUdpRecv (Inr ()) (replicate 4097 NUL) (replicate 4096 NUL)
      (int (length (wire_block (sample_start # sample_invite) @ ''v=0''))) (wire_block (sample_start # sample_invite) @ ''v=0'')
      new_sip_interface = Some (Inr i') \<and> sip_reachable (Inr ()) i' \<and> current i' = [x] \<and>
    run_protocol NONE (channel_events 1 (actions i')) = Some INCOMING"
proof -
  obtain i' x where r: "onUdpRecv (Inr ()) (replicate 4097 NUL) (replicate 4096 NUL)
      (int (length (wire_block (sample_start # sample_invite) @ ''v=0''))) (wire_block (sample_start # sample_invite) @ ''v=0'')
      new_sip_interface = Some (Inr i')" "current i' = [x]" "dialogueState x = INCOMING" "dialogueChannelId x = 1"
    using sample_invite_received by blast
  have "parser_plain (udpParser new_sip_interface)"
    by (simp add: new_sip_interface_def new_sip_parser_def parser_plain_def)
  moreover have "channel_left i'" using r(2) by (simp add: channel_left_def)
  ultimately have "sip_reachable (Inr ()) i' \<and> parser_plain (udpParser i') \<and>
    (\<forall>x \<in> set (current i'). run_protocol NONE (channel_events (dialogueChannelId x) (actions i')) = Some (dialogueState x))"
    by (intro datagram_keeps_reachable [OF sip_reachable.start _ _ _ r(1)]) simp_all
  then show ?thesis using r by auto
qed

end
