(* ===== verification/Json.thy ===== *)
theory Json
  imports StdMap Complex_Main
begin

text \<open>
  JSON values as the messages use them: the accessors of \<^verbatim>\<open>Json::Value\<close> (\<^verbatim>\<open>lib/json/jsoncpp.cpp\<close>) that
  the program calls, with the exception they throw on a value of another type, and assignment to a
  member. Reading a document (\<^verbatim>\<open>Json::Reader\<close>) and writing one (\<^verbatim>\<open>Json::FastWriter\<close>) are arguments of
  the definitions that use them; the interface the two have is the last section, \<open>JsonText\<close> has them.

  A reader gives no value for a text that is no document, or throws.

  A signed and an unsigned number are the same value here, the accessors do not tell them apart. A
  floating point number is its value and the text \<^verbatim>\<open>asString\<close> makes of it.
\<close>

datatype json =
  JNull
| JBool bool
| JInt int
| JReal rat string
| JString string
| JArray "json list"
| JObject "(string, json) std_map"

type_synonym json_reader = "string \<Rightarrow> json option outcome"
type_synonym json_writer = "json \<Rightarrow> string"

definition json_find :: "json \<Rightarrow> string \<Rightarrow> json option outcome" where
  "json_find v key =
     (case v of
        JNull \<Rightarrow> Inr None
      | JObject m \<Rightarrow> Inr (map_of m key)
      | _ \<Rightarrow> Inl Uncaught)"

definition json_get :: "json \<Rightarrow> string \<Rightarrow> json \<Rightarrow> json outcome" where
  "json_get v key dflt = bindO (json_find v key) (\<lambda>r. Inr (case r of None \<Rightarrow> dflt | Some x \<Rightarrow> x))"

definition json_isMember :: "json \<Rightarrow> string \<Rightarrow> bool outcome" where
  "json_isMember v key = bindO (json_find v key) (\<lambda>r. Inr (r \<noteq> None))"

definition json_asInt :: "json \<Rightarrow> int outcome" where
  "json_asInt v =
     (case v of
        JInt i \<Rightarrow> (if - (2 ^ 31) \<le> i \<and> i < 2 ^ 31 then Inr i else Inl Uncaught)
      | JReal r _ \<Rightarrow> (if - (2 ^ 31) \<le> r \<and> r \<le> 2 ^ 31 - 1 then Inr (if r < 0 then \<lceil>r\<rceil> else \<lfloor>r\<rfloor>) else Inl Uncaught)
      | JNull \<Rightarrow> Inr 0
      | JBool b \<Rightarrow> Inr (if b then 1 else 0)
      | _ \<Rightarrow> Inl Uncaught)"

definition json_asUInt :: "json \<Rightarrow> u32 outcome" where
  "json_asUInt v =
     (case v of
        JInt i \<Rightarrow> (if 0 \<le> i \<and> i < 2 ^ 32 then Inr (word_of_int i) else Inl Uncaught)
      | JReal r _ \<Rightarrow> (if 0 \<le> r \<and> r \<le> 2 ^ 32 - 1 then Inr (word_of_int \<lfloor>r\<rfloor>) else Inl Uncaught)
      | JNull \<Rightarrow> Inr 0
      | JBool b \<Rightarrow> Inr (if b then 1 else 0)
      | _ \<Rightarrow> Inl Uncaught)"

definition json_asCString :: "json \<Rightarrow> string outcome" where
  "json_asCString v = (case v of JString s \<Rightarrow> Inr (c_str s) | _ \<Rightarrow> Inl Uncaught)"

definition json_asString :: "json \<Rightarrow> string outcome" where
  "json_asString v =
     (case v of
        JNull \<Rightarrow> Inr []
      | JString s \<Rightarrow> Inr s
      | JBool b \<Rightarrow> Inr (if b then ''true'' else ''false'')
      | JInt i \<Rightarrow> Inr (show_int i)
      | JReal _ s \<Rightarrow> Inr s
      | _ \<Rightarrow> Inl Uncaught)"

text \<open>Assignment to a member of a null or an object value, the only ones the program assigns into.\<close>

definition json_put :: "string \<Rightarrow> json \<Rightarrow> json \<Rightarrow> json" where
  "json_put key x v = (case v of JObject m \<Rightarrow> JObject (std_put key x m) | _ \<Rightarrow> JObject (std_put key x []))"

fun json_object :: "(string \<times> json) list \<Rightarrow> json \<Rightarrow> json" where
  "json_object [] v = v"
| "json_object ((k, x) # ms) v = json_object ms (json_put k x v)"

abbreviation JUInt :: "u32 \<Rightarrow> json" where
  "JUInt w \<equiv> JInt (uint w)"

section \<open>Reading what was assigned\<close>

lemma json_put_is_object: "\<exists>m. json_put k x v = JObject m"
  by (cases v) (simp_all add: json_put_def)

definition members :: "json \<Rightarrow> string \<Rightarrow> json option" where
  "members v k = (case v of JObject m \<Rightarrow> map_of m k | _ \<Rightarrow> None)"

lemma members_simps [simp]:
  "members JNull = Map.empty" "members (json_put k x v) = (members v)(k \<mapsto> x)"
  by (cases v; simp add: members_def json_put_def fun_eq_iff)+

lemma json_find_put [simp]: "json_find (json_put k x v) j = Inr (((members v)(k \<mapsto> x)) j)"
  by (cases v) (simp_all add: json_put_def json_find_def members_def)

lemma json_accessors [simp]:
  "json_asCString (JString s) = Inr (c_str s)" "json_asString (JString s) = Inr s"
  "json_asUInt (JUInt w) = Inr w"
  "- (2 ^ 31) \<le> i \<Longrightarrow> i < 2 ^ 31 \<Longrightarrow> json_asInt (JInt i) = Inr i"
  using uint_lt2p [of w] by (simp_all add: json_asCString_def json_asString_def json_asUInt_def json_asInt_def)

section \<open>Members with a default\<close>

definition text_member :: "json \<Rightarrow> string \<Rightarrow> string \<Rightarrow> string outcome" where
  "text_member v key dflt = bindO (json_get v key (JString dflt)) json_asCString"

definition string_member :: "json \<Rightarrow> string \<Rightarrow> string \<Rightarrow> string outcome" where
  "string_member v key dflt = bindO (json_get v key (JString dflt)) json_asString"

definition int_member :: "json \<Rightarrow> string \<Rightarrow> int \<Rightarrow> int outcome" where
  "int_member v key dflt = bindO (json_get v key (JInt dflt)) json_asInt"

definition uint_member :: "json \<Rightarrow> string \<Rightarrow> u32 outcome" where
  "uint_member v key = bindO (json_get v key (JInt 0)) json_asUInt"

definition data_member :: "json \<Rightarrow> json outcome" where
  "data_member doc = bindO (json_isMember doc ''data'') (\<lambda>b.
     if b then json_get doc ''data'' JNull else Inr JNull)"

definition some_of :: "'a outcome \<Rightarrow> 'a option outcome" where
  "some_of m = bindO m (\<lambda>x. Inr (Some x))"

lemmas member_defs = json_get_def json_isMember_def text_member_def string_member_def int_member_def
  uint_member_def data_member_def some_of_def

text \<open>The numbers of a message fit into an \<^verbatim>\<open>int\<close>.\<close>

definition fits_int :: "int \<Rightarrow> bool" where
  "fits_int i \<longleftrightarrow> - (2 ^ 31) \<le> i \<and> i < 2 ^ 31"

lemma asInt_fits [simp]: "fits_int i \<Longrightarrow> json_asInt (JInt i) = Inr i"
  by (simp add: fits_int_def json_asInt_def)

lemma c_str_idem [simp]: "c_str (c_str s) = c_str s"
  by (simp add: c_str_id)

text \<open>A read from a stream reports an error, on which the stream is closed, or bytes.\<close>

datatype read_event = ReadError | ReadBytes string

section \<open>The interface of the reader and the writer\<close>

text \<open>
  The values the writer and the reader agree on: integers within the range of the reader, no floating
  point number, and the members of an object in the order of its map.
\<close>

fun json_plain :: "json \<Rightarrow> bool" where
  "json_plain (JInt i) = (- (2 ^ 63) \<le> i \<and> i < 2 ^ 64)"
| "json_plain (JReal r t) = False"
| "json_plain (JArray vs) = (\<forall>v \<in> set vs. json_plain v)"
| "json_plain (JObject ms) = (std_wf ms \<and> (\<forall>m \<in> set ms. json_plain (snd m)))"
| "json_plain _ = True"

text \<open>The number of values around and including the innermost one.\<close>

fun json_depth :: "json \<Rightarrow> nat" where
  "json_depth (JArray vs) = Suc (foldr max (map json_depth vs) 0)"
| "json_depth (JObject ms) = Suc (foldr max (map (\<lambda>m. json_depth (snd m)) ms) 0)"
| "json_depth _ = 1"

text \<open>Values that are nested at most \<open>n\<close> deep.\<close>

definition json_ok :: "nat \<Rightarrow> json \<Rightarrow> bool" where
  "json_ok n v \<longleftrightarrow> json_plain v \<and> json_depth v \<le> n"

lemma foldr_max_le_iff: "foldr max xs (0::nat) \<le> n \<longleftrightarrow> (\<forall>x \<in> set xs. x \<le> n)"
  by (induction xs) auto

lemma json_ok_object: "json_ok (Suc n) (JObject ms) \<longleftrightarrow> std_wf ms \<and> (\<forall>m \<in> set ms. json_ok n (snd m))"
  by (auto simp: json_ok_def foldr_max_le_iff)

lemma json_ok_leaves [simp]:
  "json_ok (Suc n) JNull" "json_ok (Suc n) (JBool b)" "json_ok (Suc n) (JString s)"
  "fits_int i \<Longrightarrow> json_ok (Suc n) (JInt i)" "json_ok (Suc n) (JUInt w)"
  using uint_lt2p [of w] order_trans [OF _ uint_ge_0 [of w], of "- (2 ^ 63)"] by (simp_all add: json_ok_def fits_int_def)

lemma json_ok_put [simp]:
  assumes "json_ok n x" and "json_ok (Suc n) v"
  shows "json_ok (Suc n) (json_put k x v)"
proof -
  have "set (std_put k x m) \<subseteq> insert (k, x) (set m)" for m
    by (induction k x m rule: std_put.induct) auto
  then have "json_ok (Suc n) (JObject (std_put k x m))" if "json_ok (Suc n) (JObject m)" for m
    using that assms(1) by (fastforce simp: json_ok_object std_wf_put)
  then show ?thesis
    using assms by (cases v) (simp_all add: json_put_def json_ok_object std_wf_def)
qed

lemma json_ok_mono: "json_ok n v \<Longrightarrow> n \<le> m \<Longrightarrow> json_ok m v"
  by (simp add: json_ok_def)

text \<open>What the messages need of the two: a written value is read back from its C string.\<close>

locale json_codec =
  fixes reader :: json_reader and writer :: json_writer
  assumes reads_back: "json_ok 1000 v \<Longrightarrow> reader (c_str (writer v)) = Inr (Some v)"

end
