(* ===== verification/JsonText.thy ===== *)
theory JsonText
  imports Json
begin

text \<open>
  Model of the parts of \<^verbatim>\<open>lib/json/jsoncpp.cpp\<close> that turn a value into a text and a text into a value,
  as the program calls them: \<^verbatim>\<open>FastWriter::write\<close> and \<^verbatim>\<open>Reader::parse\<close> with all features at their
  default. A position in the document is the text from it to the end. The comments the reader attaches
  to values are left out, no accessor of the program reads them. A floating point number is read by the
  stream extraction of the standard library, which is the argument \<open>to_double\<close>.
\<close>

section \<open>Writing\<close>

definition isControlCharacter :: "char \<Rightarrow> bool" where
  "isControlCharacter c \<longleftrightarrow> 0 < char_code c \<and> char_code c \<le> 31"

definition hex_digit :: "nat \<Rightarrow> char" where
  "hex_digit d = (if d < 10 then char_of (48 + d) else char_of (55 + d))"

text \<open>One character of a string; a character below 32 has the hexadecimal digits \<open>00\<close> and its code.\<close>

definition escape_char :: "char \<Rightarrow> string" where
  "escape_char c =
     (if c = QUOTE then [CHR 0x5C, QUOTE]
      else if c = CHR 0x5C then [CHR 0x5C, CHR 0x5C]
      else if c = CHR 0x08 then [CHR 0x5C, CHR ''b'']
      else if c = CHR 0x0C then [CHR 0x5C, CHR ''f'']
      else if c = LF then [CHR 0x5C, CHR ''n'']
      else if c = CR then [CHR 0x5C, CHR ''r'']
      else if c = TAB then [CHR 0x5C, CHR ''t'']
      else if isControlCharacter c \<or> c = NUL then
        [CHR 0x5C, CHR ''u'', CHR ''0'', CHR ''0'', hex_digit (char_code c div 16), hex_digit (char_code c mod 16)]
      else [c])"

definition valueToQuotedStringN :: "string \<Rightarrow> string" where
  "valueToQuotedStringN s = QUOTE # concat (map escape_char s) @ [QUOTE]"

text \<open>\<^verbatim>\<open>FastWriter::writeValue\<close>; the members of an object come in the order of its map.\<close>

fun writeValue :: "json \<Rightarrow> string" and write_elements :: "json list \<Rightarrow> string" and
    write_members :: "(string \<times> json) list \<Rightarrow> string" where
  "writeValue JNull = ''null''"
| "writeValue (JBool b) = (if b then ''true'' else ''false'')"
| "writeValue (JInt i) = show_int i"
| "writeValue (JReal r t) = t"
| "writeValue (JString s) = valueToQuotedStringN s"
| "writeValue (JArray vs) = CHR ''['' # write_elements vs @ '']''"
| "writeValue (JObject ms) = CHR ''{'' # write_members ms @ ''}''"
| "write_elements [] = []"
| "write_elements [v] = writeValue v"
| "write_elements (v # w # vs) = writeValue v @ CHR '','' # write_elements (w # vs)"
| "write_members [] = []"
| "write_members [(k, v)] = valueToQuotedStringN k @ CHR '':'' # writeValue v"
| "write_members ((k, v) # m # ms) = valueToQuotedStringN k @ CHR '':'' # writeValue v @ CHR '','' # write_members (m # ms)"

definition fast_write :: json_writer where
  "fast_write v = writeValue v @ [LF]"

section \<open>Tokens\<close>

datatype token_type = tokenEndOfStream | tokenObjectBegin | tokenObjectEnd | tokenArrayBegin | tokenArrayEnd
  | tokenString | tokenNumber | tokenTrue | tokenFalse | tokenNull | tokenArraySeparator | tokenMemberSeparator
  | tokenComment | tokenError

definition skipSpaces :: "string \<Rightarrow> string" where
  "skipSpaces s = dropWhile (\<lambda>c. c = CHR '' '' \<or> c = TAB \<or> c = CR \<or> c = LF) s"

definition match_word :: "string \<Rightarrow> string \<Rightarrow> bool \<times> string" where
  "match_word pattern s = (if take (length pattern) s = pattern then (True, drop (length pattern) s) else (False, s))"

fun readCStyleComment :: "string \<Rightarrow> bool \<times> string" where
  "readCStyleComment [] = (False, [])"
| "readCStyleComment (c # s) = (if c = CHR ''*'' \<and> deref s = CHR ''/'' then (True, tl s) else readCStyleComment s)"

fun readCppStyleComment :: "string \<Rightarrow> string" where
  "readCppStyleComment [] = []"
| "readCppStyleComment (c # s) =
     (if c = LF then s
      else if c = CR then (if deref s = LF then tl s else s)
      else readCppStyleComment s)"

definition readComment :: "string \<Rightarrow> bool \<times> string" where
  "readComment s =
     (if deref s = CHR ''*'' then readCStyleComment (tl s)
      else if deref s = CHR ''/'' then (True, readCppStyleComment (tl s))
      else (False, tl s))"

definition readNumber :: "string \<Rightarrow> string" where
  "readNumber s =
     (let s = dropWhile isdigit s;
          s = (if deref s = CHR ''.'' then dropWhile isdigit (tl s) else s)
      in if deref s = CHR ''e'' \<or> deref s = CHR ''E'' then
           let s = tl s; s = (if deref s = CHR ''+'' \<or> deref s = CHR ''-'' then tl s else s) in dropWhile isdigit s
         else s)"

fun readString :: "string \<Rightarrow> bool \<times> string" where
  "readString [] = (False, [])"
| "readString (c # s) =
     (if c = CHR 0x5C then (case s of [] \<Rightarrow> (False, []) | _ # s' \<Rightarrow> readString s')
      else if c = QUOTE then (True, s)
      else readString s)"

text \<open>The type of the token that starts with \<open>c\<close>, whether it could be read, and what is left of \<open>s\<close>.\<close>

definition token_from :: "char \<Rightarrow> string \<Rightarrow> token_type \<times> bool \<times> string" where
  "token_from c s =
     (if c = CHR ''{'' then (tokenObjectBegin, True, s)
      else if c = CHR ''}'' then (tokenObjectEnd, True, s)
      else if c = CHR ''['' then (tokenArrayBegin, True, s)
      else if c = CHR '']'' then (tokenArrayEnd, True, s)
      else if c = QUOTE then (tokenString, readString s)
      else if c = CHR ''/'' then (tokenComment, readComment s)
      else if isdigit c \<or> c = CHR ''-'' then (tokenNumber, True, readNumber s)
      else if c = CHR ''t'' then (tokenTrue, match_word ''rue'' s)
      else if c = CHR ''f'' then (tokenFalse, match_word ''alse'' s)
      else if c = CHR ''n'' then (tokenNull, match_word ''ull'' s)
      else if c = CHR '','' then (tokenArraySeparator, True, s)
      else if c = CHR '':'' then (tokenMemberSeparator, True, s)
      else if c = NUL then (tokenEndOfStream, True, s)
      else (tokenError, False, s))"

text \<open>A token is its type and its text, from the start to where the reader stands after it.\<close>

definition readToken :: "string \<Rightarrow> token_type \<times> string \<times> string" where
  "readToken s =
     (let s = skipSpaces s
      in case token_from (deref s) (tl s) of
           (t, ok, r) \<Rightarrow> (if ok then t else tokenError, take (length s - length r) s, r))"

section \<open>How much a token takes\<close>

lemma readCStyleComment_length: "length (snd (readCStyleComment s)) \<le> length s"
  by (induction s rule: readCStyleComment.induct) auto

lemma readCppStyleComment_length: "length (readCppStyleComment s) \<le> length s"
  by (induction s rule: readCppStyleComment.induct) auto

lemma readComment_length: "length (snd (readComment s)) \<le> length s"
  using readCStyleComment_length [of "tl s"] readCppStyleComment_length [of "tl s"] by (auto simp: readComment_def)

lemma dropWhile_tl_length: "length (dropWhile P (tl s)) \<le> length s"
  by (rule order_trans [OF length_dropWhile_le]) simp

lemma readNumber_length: "length (readNumber s) \<le> length s"
proof -
  define s1 where "s1 = dropWhile isdigit s"
  define s2 where "s2 = (if deref s1 = CHR ''.'' then dropWhile isdigit (tl s1) else s1)"
  define s3 where "s3 = (if deref (tl s2) = CHR ''+'' \<or> deref (tl s2) = CHR ''-'' then tl (tl s2) else tl s2)"
  have "length s1 \<le> length s"
    unfolding s1_def by (rule length_dropWhile_le)
  moreover have "length s2 \<le> length s1"
    unfolding s2_def using dropWhile_tl_length [of isdigit s1] by simp
  moreover have "length (dropWhile isdigit s3) \<le> length s3"
    by (rule length_dropWhile_le)
  moreover have "length s3 \<le> length s2"
    unfolding s3_def by simp
  moreover have "readNumber s = (if deref s2 = CHR ''e'' \<or> deref s2 = CHR ''E'' then dropWhile isdigit s3 else s2)"
    by (simp only: readNumber_def Let_def s1_def s2_def s3_def)
  then have "readNumber s \<in> {dropWhile isdigit s3, s2}"
    by (metis insertCI)
  ultimately show ?thesis by auto
qed

lemma readString_length: "length (snd (readString s)) \<le> length s"
proof (induction s rule: length_induct)
  case (1 s)
  show ?case
  proof (cases s)
    case (Cons c t)
    have "length (snd (readString t)) \<le> length t" "length (snd (readString (tl t))) \<le> length (tl t)"
      using 1 [THEN spec, of t] 1 [THEN spec, of "tl t"] Cons by simp_all
    then show ?thesis
      using Cons by (cases t) simp_all
  qed simp
qed

lemma match_word_length: "length (snd (match_word p s)) \<le> length s"
  by (auto simp: match_word_def)

lemma token_from_length:
  assumes "token_from c s = (t, ok, r)"
  shows "length r \<le> length s"
proof -
  have "r \<in> {s, snd (readString s), snd (readComment s), readNumber s, snd (match_word ''rue'' s),
      snd (match_word ''alse'' s), snd (match_word ''ull'' s)}"
    using assms by (simp add: token_from_def split: if_splits)
  then show ?thesis
    using readString_length [of s] readComment_length [of s] readNumber_length [of s] match_word_length [of _ s] by auto
qed

lemma token_from_NUL: "token_from NUL s = (t, ok, r) \<Longrightarrow> t = tokenEndOfStream \<and> ok"
  by (simp add: token_from_def isdigit_def char_code_def)

lemma readToken_length:
  assumes "readToken s = (t, tx, r)"
  shows "length r \<le> length s" and "t \<noteq> tokenEndOfStream \<Longrightarrow> length r < length s"
proof -
  let ?s = "skipSpaces s"
  obtain t' ok where f: "token_from (deref ?s) (tl ?s) = (t', ok, r)" and t: "t = (if ok then t' else tokenError)"
    using assms by (auto simp: readToken_def Let_def split: prod.splits)
  have len: "length r \<le> length (tl ?s)" and le: "length ?s \<le> length s"
    using token_from_length [OF f] by (simp_all add: skipSpaces_def length_dropWhile_le)
  then show "length r \<le> length s" by simp
  assume "t \<noteq> tokenEndOfStream"
  then have "?s \<noteq> []"
    using f t token_from_NUL [of "tl ?s" t' ok r] by (cases ?s) (simp_all split: if_splits)
  then show "length r < length s"
    using len le by (cases ?s) auto
qed

section \<open>Numbers and strings\<close>

text \<open>
  \<^verbatim>\<open>decodeNumber\<close>: the loop over the digits, with the limit for the sign; anything but digits, or
  a number above the limit, is read as floating point.
\<close>

fun decode_digits :: "nat \<Rightarrow> string \<Rightarrow> nat \<Rightarrow> nat option" where
  "decode_digits limit [] v = Some v"
| "decode_digits limit (c # s) v =
     (if \<not> isdigit c then None
      else if v \<ge> limit div 10 \<and> (v > limit div 10 \<or> s \<noteq> [] \<or> digit_value c > limit mod 10) then None
      else decode_digits limit s (v * 10 + digit_value c))"

definition decodeDouble :: "(string \<Rightarrow> (rat \<times> string) option) \<Rightarrow> string \<Rightarrow> json option" where
  "decodeDouble to_double txt = (case to_double txt of None \<Rightarrow> None | Some (r, t) \<Rightarrow> Some (JReal r t))"

definition decodeNumber :: "(string \<Rightarrow> (rat \<times> string) option) \<Rightarrow> string \<Rightarrow> json option" where
  "decodeNumber to_double txt =
     (let isNegative = (deref txt = CHR ''-'');
          s = (if isNegative then tl txt else txt);
          maxIntegerValue = (if isNegative then 2 ^ 63 else 2 ^ 64 - 1)
      in case decode_digits maxIntegerValue s 0 of
           None \<Rightarrow> decodeDouble to_double txt
         | Some v \<Rightarrow> Some (JInt (if isNegative then - int v else int v)))"

definition hex_value :: "char \<Rightarrow> nat option" where
  "hex_value c =
     (if isdigit c then Some (char_code c - 48)
      else if 97 \<le> char_code c \<and> char_code c \<le> 102 then Some (char_code c - 97 + 10)
      else if 65 \<le> char_code c \<and> char_code c \<le> 70 then Some (char_code c - 65 + 10)
      else None)"

text \<open>Four hexadecimal digits and the rest; a surrogate takes six more characters.\<close>

fun hex_loop :: "nat \<Rightarrow> nat \<Rightarrow> string \<Rightarrow> (nat \<times> string) option" where
  "hex_loop 0 v s = Some (v, s)"
| "hex_loop (Suc n) v [] = None"
| "hex_loop (Suc n) v (c # s) = (case hex_value c of None \<Rightarrow> None | Some d \<Rightarrow> hex_loop n (v * 16 + d) s)"

definition decodeUnicodeEscapeSequence :: "string \<Rightarrow> (nat \<times> string) option" where
  "decodeUnicodeEscapeSequence s = (if length s < 4 then None else hex_loop 4 0 s)"

definition decodeUnicodeCodePoint :: "string \<Rightarrow> (nat \<times> string) option" where
  "decodeUnicodeCodePoint s =
     (case decodeUnicodeEscapeSequence s of
        None \<Rightarrow> None
      | Some (u, s) \<Rightarrow>
          if 0xD800 \<le> u \<and> u \<le> 0xDBFF then
            if length s < 6 then None
            else if hd s = CHR 0x5C \<and> s ! 1 = CHR ''u'' then
              (case decodeUnicodeEscapeSequence (drop 2 s) of
                 None \<Rightarrow> None
               | Some (p, s) \<Rightarrow> Some (0x10000 + (u mod 0x400) * 0x400 + p mod 0x400, s))
            else None
          else Some (u, s))"

definition codePointToUTF8 :: "nat \<Rightarrow> string" where
  "codePointToUTF8 cp =
     (if cp \<le> 0x7F then [char_of cp]
      else if cp \<le> 0x7FF then [char_of (0xC0 + cp div 0x40 mod 0x20), char_of (0x80 + cp mod 0x40)]
      else if cp \<le> 0xFFFF then
        [char_of (0xE0 + cp div 0x1000 mod 0x10), char_of (0x80 + cp div 0x40 mod 0x40), char_of (0x80 + cp mod 0x40)]
      else if cp \<le> 0x10FFFF then
        [char_of (0xF0 + cp div 0x40000 mod 8), char_of (0x80 + cp div 0x1000 mod 0x40),
         char_of (0x80 + cp div 0x40 mod 0x40), char_of (0x80 + cp mod 0x40)]
      else [])"

definition escape_value :: "char \<Rightarrow> char option" where
  "escape_value e =
     (if e = QUOTE \<or> e = CHR ''/'' \<or> e = CHR 0x5C then Some e
      else if e = CHR ''b'' then Some (CHR 0x08)
      else if e = CHR ''f'' then Some (CHR 0x0C)
      else if e = CHR ''n'' then Some LF
      else if e = CHR ''r'' then Some CR
      else if e = CHR ''t'' then Some TAB
      else None)"

lemma hex_loop_length: "hex_loop n v s = Some (u, r) \<Longrightarrow> length r \<le> length s"
  by (induction n v s rule: hex_loop.induct) (auto split: option.splits)

lemma decodeUnicodeCodePoint_length: "decodeUnicodeCodePoint s = Some (u, r) \<Longrightarrow> length r \<le> length s"
  by (auto simp: decodeUnicodeCodePoint_def decodeUnicodeEscapeSequence_def dest!: hex_loop_length
      split: option.splits if_splits)

text \<open>The loop over the characters between the quotation marks.\<close>

function unescape_loop :: "string \<Rightarrow> string \<Rightarrow> string option" where
  "unescape_loop [] decoded = Some decoded"
| "unescape_loop (c # s) decoded =
     (if c = QUOTE then Some decoded
      else if c = CHR 0x5C then
        (if s = [] then None
         else if hd s = CHR ''u'' then
           (case decodeUnicodeCodePoint (tl s) of
              None \<Rightarrow> None
            | Some (u, r) \<Rightarrow> unescape_loop r (decoded @ codePointToUTF8 u))
         else (case escape_value (hd s) of None \<Rightarrow> None | Some e \<Rightarrow> unescape_loop (tl s) (decoded @ [e])))
      else unescape_loop s (decoded @ [c]))"
  by pat_completeness auto
termination
  by (relation "measure (\<lambda>(s, _). length s)") (auto dest!: decodeUnicodeCodePoint_length)

declare unescape_loop.simps [simp del]

definition decodeString :: "string \<Rightarrow> string option" where
  "decodeString txt = unescape_loop (butlast (tl txt)) []"

section \<open>Reading\<close>

text \<open>
  What reading a value gives: nothing yet (the loops below are partial until they are shown to return),
  the exception at 1000 nested values, a failure (with the position after recovery), or a value.
\<close>

type_synonym reading = "(json option \<times> string) outcome option"

abbreviation then_read :: "reading \<Rightarrow> (json option \<Rightarrow> string \<Rightarrow> reading) \<Rightarrow> reading" where
  "then_read m f \<equiv> Option.bind m (\<lambda>r. case r of Inl e \<Rightarrow> Some (Inl e) | Inr (v, s) \<Rightarrow> f v s)"

function skipCommentTokens :: "string \<Rightarrow> token_type \<times> string \<times> string" where
  "skipCommentTokens s =
     (case readToken s of (t, txt, r) \<Rightarrow> if t = tokenComment then skipCommentTokens r else (t, txt, r))"
  by pat_completeness auto
termination
  by (relation "measure length") (auto dest: readToken_length(2) [OF sym])

function recoverFromError :: "token_type \<Rightarrow> string \<Rightarrow> string" where
  "recoverFromError skipUntilToken s =
     (case readToken s of (t, _, r) \<Rightarrow>
        if t = skipUntilToken \<or> t = tokenEndOfStream then r else recoverFromError skipUntilToken r)"
  by pat_completeness auto
termination
  by (relation "measure (\<lambda>(_, s). length s)") (auto dest: readToken_length(2) [OF sym])

declare skipCommentTokens.simps [simp del] recoverFromError.simps [simp del]

abbreviation failed :: "token_type \<Rightarrow> string \<Rightarrow> reading" where
  "failed skipUntilToken s \<equiv> Some (Inr (None, recoverFromError skipUntilToken s))"

text \<open>
  The loops of \<^verbatim>\<open>readObject\<close> and \<^verbatim>\<open>readArray\<close>; \<open>rv\<close> reads a value one level deeper. A comment after a
  member is taken for the comma, whatever follows it.
\<close>

partial_function (option) read_members :: "(string \<Rightarrow> reading) \<Rightarrow> string \<Rightarrow> json \<Rightarrow> string \<Rightarrow> reading" where
  "read_members rv name obj s =
     (case skipCommentTokens s of (t, txt, s) \<Rightarrow>
        if t = tokenObjectEnd \<and> name = [] then Some (Inr (Some obj, s))
        else if t = tokenString then
          (case decodeString txt of
             None \<Rightarrow> failed tokenObjectEnd s
           | Some name \<Rightarrow>
               (case readToken s of (colon, _, s) \<Rightarrow>
                  if colon \<noteq> tokenMemberSeparator then failed tokenObjectEnd s
                  else then_read (rv s) (\<lambda>v s.
                    case v of
                      None \<Rightarrow> failed tokenObjectEnd s
                    | Some v \<Rightarrow>
                        (case readToken s of (comma, _, s) \<Rightarrow>
                           if comma \<noteq> tokenObjectEnd \<and> comma \<noteq> tokenArraySeparator \<and> comma \<noteq> tokenComment
                           then failed tokenObjectEnd s
                           else (case (if comma = tokenComment then skipCommentTokens s else (comma, [], s)) of (comma, _, s) \<Rightarrow>
                             if comma = tokenObjectEnd then Some (Inr (Some (json_put name v obj), s))
                             else read_members rv name (json_put name v obj) s)))))
        else failed tokenObjectEnd s)"

partial_function (option) read_elements :: "(string \<Rightarrow> reading) \<Rightarrow> json list \<Rightarrow> string \<Rightarrow> reading" where
  "read_elements rv vs s =
     then_read (rv s) (\<lambda>v s.
       case v of
         None \<Rightarrow> failed tokenArrayEnd s
       | Some v \<Rightarrow>
           (case skipCommentTokens s of (t, _, s) \<Rightarrow>
              if t = tokenArrayEnd then Some (Inr (Some (JArray (vs @ [v])), s))
              else if t = tokenArraySeparator then read_elements rv (vs @ [v]) s
              else failed tokenArrayEnd s))"

definition readObject :: "(string \<Rightarrow> reading) \<Rightarrow> string \<Rightarrow> reading" where
  "readObject rv s = read_members rv [] (JObject []) s"

definition readArray :: "(string \<Rightarrow> reading) \<Rightarrow> string \<Rightarrow> reading" where
  "readArray rv s =
     (let s = skipSpaces s
      in if deref s = CHR '']'' then (case readToken s of (_, _, s) \<Rightarrow> Some (Inr (Some (JArray []), s)))
         else read_elements rv [] s)"

text \<open>\<^verbatim>\<open>readValue\<close>, by the number of levels the stack limit leaves.\<close>

fun readValue :: "(string \<Rightarrow> (rat \<times> string) option) \<Rightarrow> nat \<Rightarrow> string \<Rightarrow> reading" where
  "readValue to_double 0 s = Some (Inl Uncaught)"
| "readValue to_double (Suc n) s =
     (case skipCommentTokens s of (t, txt, s) \<Rightarrow>
        if t = tokenObjectBegin then readObject (readValue to_double n) s
        else if t = tokenArrayBegin then readArray (readValue to_double n) s
        else if t = tokenNumber then Some (Inr (decodeNumber to_double txt, s))
        else if t = tokenString then Some (Inr (map_option JString (decodeString txt), s))
        else if t = tokenTrue then Some (Inr (Some (JBool True), s))
        else if t = tokenFalse then Some (Inr (Some (JBool False), s))
        else if t = tokenNull then Some (Inr (Some JNull, s))
        else Some (Inr (None, s)))"

definition stackLimit :: nat where "stackLimit = 1000"

text \<open>
  \<^verbatim>\<open>Reader::parse\<close> of a string. What it copies is the whole capacity of the string, so behind the text
  there may be more, \<open>slack\<close>: its terminator and then unknown bytes. The token behind the value does not matter.
\<close>

definition document_copy :: "(string \<Rightarrow> string) \<Rightarrow> string \<Rightarrow> string" where
  "document_copy slack s = s @ (if slack s = [] then [] else NUL # tl (slack s))"

definition Reader_parse :: "(string \<Rightarrow> (rat \<times> string) option) \<Rightarrow> (string \<Rightarrow> string) \<Rightarrow> string \<Rightarrow> json option outcome option" where
  "Reader_parse to_double slack s =
     (case readValue to_double stackLimit (document_copy slack s) of
        None \<Rightarrow> None
      | Some (Inl e) \<Rightarrow> Some (Inl e)
      | Some (Inr (v, r)) \<Rightarrow> (case skipCommentTokens r of _ \<Rightarrow> Some (Inr v)))"

section \<open>Reading returns\<close>

definition returns :: "(string \<Rightarrow> reading) \<Rightarrow> bool" where
  "returns rv \<longleftrightarrow> (\<forall>s. \<exists>r. rv s = Some r \<and> (\<forall>v s'. r = Inr (v, s') \<longrightarrow> length s' \<le> length s))"

lemma skipCommentTokens_length:
  "skipCommentTokens s = (t, tx, r) \<Longrightarrow> length r \<le> length s \<and> (t \<noteq> tokenEndOfStream \<longrightarrow> length r < length s)"
proof (induction s rule: skipCommentTokens.induct)
  case (1 s)
  obtain t1 tx1 r1 where r1: "readToken s = (t1, tx1, r1)" by (metis prod_cases3)
  note len = readToken_length [OF r1]
  show ?case
  proof (cases "t1 = tokenComment")
    case True
    then show ?thesis
      using "1.IH" [OF r1 [symmetric] refl True] "1.prems" r1 len by (simp add: skipCommentTokens.simps [of s])
  next
    case False
    then show ?thesis
      using "1.prems" r1 len by (simp add: skipCommentTokens.simps [of s])
  qed
qed

lemma recoverFromError_length: "length (recoverFromError k s) \<le> length s"
proof (induction k s rule: recoverFromError.induct)
  case (1 k s)
  obtain t tx r where r: "readToken s = (t, tx, r)" by (metis prod_cases3)
  note len = readToken_length [OF r]
  show ?case
  proof (cases "t = k \<or> t = tokenEndOfStream")
    case True
    then show ?thesis using r len by (simp add: recoverFromError.simps [of k s])
  next
    case False
    then have "length (recoverFromError k r) \<le> length r"
      using "1.IH" [OF r [symmetric] refl] by simp
    then show ?thesis using False r len by (simp add: recoverFromError.simps [of k s])
  qed
qed

definition bounded :: "string \<Rightarrow> reading \<Rightarrow> bool" where
  "bounded s m \<longleftrightarrow> (\<exists>r. m = Some r \<and> (\<forall>v s'. r = Inr (v, s') \<longrightarrow> length s' \<le> length s))"

lemma boundedI [intro]: "length s' \<le> length s \<Longrightarrow> bounded s (Some (Inr (v, s')))" "bounded s (Some (Inl e))"
  by (simp_all add: bounded_def)

lemma bounded_trans: "bounded s' m \<Longrightarrow> length s' \<le> length s \<Longrightarrow> bounded s m"
  by (auto simp: bounded_def)

lemma bounded_failed: "length s' \<le> length s \<Longrightarrow> bounded s (failed k s')"
  using recoverFromError_length [of k s'] by (simp add: bounded_def)

lemma bounded_then:
  assumes "returns rv" and "length s' \<le> length s"
    and "\<And>v r. length r \<le> length s' \<Longrightarrow> bounded s (f v r)"
  shows "bounded s (then_read (rv s') f)"
proof -
  obtain r where r: "rv s' = Some r" "\<And>v u. r = Inr (v, u) \<Longrightarrow> length u \<le> length s'"
    using assms(1) unfolding returns_def by blast
  show ?thesis
  proof (cases r)
    case (Inl e)
    then show ?thesis using r by auto
  next
    case (Inr p)
    then show ?thesis using r assms(3) by (cases p) auto
  qed
qed

lemma bounded_if: "bounded s a \<Longrightarrow> bounded s b \<Longrightarrow> bounded s (if c then a else b)"
  by simp

lemma read_members_bounded:
  assumes "returns rv"
  shows "bounded s (read_members rv name obj s)"
proof (induction s arbitrary: name obj rule: length_induct)
  case (1 s)
  obtain t tx s1 where t: "skipCommentTokens s = (t, tx, s1)" by (metis prod_cases3)
  note l1 = skipCommentTokens_length [OF t]
  show ?case
  proof (cases "t = tokenString")
    case False
    then show ?thesis
      using t l1 bounded_failed [of s1 s] by (subst read_members.simps) (auto simp: bounded_def)
  next
    case True
    note l1 = l1 [THEN conjunct2, rule_format, unfolded True, simplified]
    show ?thesis
    proof (cases "decodeString tx")
      case None
      then show ?thesis
        using t True l1 bounded_failed [of s1 s] by (subst read_members.simps) simp
    next
      case (Some key)
      obtain colon ctxt s2 where c: "readToken s1 = (colon, ctxt, s2)" by (metis prod_cases3)
      note l2 = readToken_length [OF c]
      have step: "bounded s (case readToken r of (comma, _, s) \<Rightarrow>
          if comma \<noteq> tokenObjectEnd \<and> comma \<noteq> tokenArraySeparator \<and> comma \<noteq> tokenComment
          then failed tokenObjectEnd s
          else (case (if comma = tokenComment then skipCommentTokens s else (comma, [], s)) of (comma, _, s) \<Rightarrow>
            if comma = tokenObjectEnd then Some (Inr (Some (json_put key v obj), s))
            else read_members rv key (json_put key v obj) s))" if "length r \<le> length s2" for v and r :: string
      proof -
        obtain comma ktxt s3 where k: "readToken r = (comma, ktxt, s3)" by (metis prod_cases3)
        note l3 = readToken_length [OF k]
        obtain comma' ktxt' s4 where k': "(if comma = tokenComment then skipCommentTokens s3 else (comma, [], s3)) = (comma', ktxt', s4)"
          by (metis prod_cases3)
        have l4: "length s4 \<le> length s3"
          using k' skipCommentTokens_length [of s3] by (auto split: if_splits)
        have "length s4 < length s"
          using l1 l2 l3 l4 that by simp
        then have "bounded s (read_members rv key (json_put key v obj) s4)"
          using 1 bounded_trans less_imp_le by blast
        then show ?thesis
          using k k' l1 l2 l3 l4 that bounded_failed [of s3 s] by (auto simp: bounded_def)
      qed
      show ?thesis
      proof (cases "colon = tokenMemberSeparator")
        case False
        then show ?thesis
          using t True Some c l1 l2 bounded_failed [of s2 s] by (subst read_members.simps) simp
      next
        case colon: True
        let ?f = "\<lambda>v s. case v of
            None \<Rightarrow> failed tokenObjectEnd s
          | Some v \<Rightarrow> (case readToken s of (comma, _, s) \<Rightarrow>
              if comma \<noteq> tokenObjectEnd \<and> comma \<noteq> tokenArraySeparator \<and> comma \<noteq> tokenComment
              then failed tokenObjectEnd s
              else (case (if comma = tokenComment then skipCommentTokens s else (comma, [], s)) of (comma, _, s) \<Rightarrow>
                if comma = tokenObjectEnd then Some (Inr (Some (json_put key v obj), s))
                else read_members rv key (json_put key v obj) s))"
        have "bounded s (then_read (rv s2) ?f)"
        proof (rule bounded_then [OF assms])
          show "length s2 \<le> length s" using l1 l2 by simp
          fix v and r :: string
          assume "length r \<le> length s2"
          then show "bounded s (?f v r)"
            using step [of r] bounded_failed [of r s] l1 l2 by (cases v) auto
        qed
        then show ?thesis
          using t True Some c colon by (subst read_members.simps) simp
      qed
    qed
  qed
qed

lemma read_elements_bounded:
  assumes "returns rv"
  shows "bounded s (read_elements rv vs s)"
proof (induction s arbitrary: vs rule: length_induct)
  case (1 s)
  show ?case
  proof (subst read_elements.simps, rule bounded_then [OF assms order_refl])
    fix v and r :: string
    assume r: "length r \<le> length s"
    obtain t tx s1 where t: "skipCommentTokens r = (t, tx, s1)" by (metis prod_cases3)
    note l1 = skipCommentTokens_length [OF t]
    have "bounded s (read_elements rv (vs @ [x]) s1)" if "t = tokenArraySeparator" for x
      using 1 that l1 r bounded_trans less_imp_le by (metis order_less_le_trans token_type.distinct(19))
    then show "bounded s (case v of None \<Rightarrow> failed tokenArrayEnd r
        | Some v \<Rightarrow> (case skipCommentTokens r of (t, _, s) \<Rightarrow>
            if t = tokenArrayEnd then Some (Inr (Some (JArray (vs @ [v])), s))
            else if t = tokenArraySeparator then read_elements rv (vs @ [v]) s
            else failed tokenArrayEnd s))"
      using t l1 r bounded_failed [of r s] bounded_failed [of s1 s] by (cases v) (auto simp: bounded_def)
  qed
qed

lemma readValue_returns: "returns (readValue to_double n)"
proof (induction n)
  case 0
  then show ?case by (simp add: returns_def)
next
  case (Suc n)
  have "bounded s (readValue to_double (Suc n) s)" for s
  proof -
    obtain t tx s1 where t: "skipCommentTokens s = (t, tx, s1)" by (metis prod_cases3)
    have l1: "length s1 \<le> length s" using skipCommentTokens_length [OF t] by simp
    have "bounded s (readObject (readValue to_double n) s1)"
      unfolding readObject_def by (rule bounded_trans [OF read_members_bounded [OF Suc.IH] l1])
    moreover have "bounded s (readArray (readValue to_double n) s1)"
    proof -
      have sk: "length (skipSpaces s1) \<le> length s"
        unfolding skipSpaces_def by (rule order_trans [OF length_dropWhile_le l1])
      have elements: "bounded s (read_elements (readValue to_double n) [] (skipSpaces s1))"
        by (rule bounded_trans [OF read_elements_bounded [OF Suc.IH] sk])
      obtain t2 tx2 s2 where t2: "readToken (skipSpaces s1) = (t2, tx2, s2)" by (metis prod_cases3)
      have "length s2 \<le> length s"
        using readToken_length(1) [OF t2] sk by (rule order_trans)
      then have "bounded s (Some (Inr (Some (JArray []), s2)))" by (rule boundedI)
      then show ?thesis
        unfolding readArray_def Let_def t2 prod.case using elements by (rule bounded_if)
    qed
    ultimately show ?thesis
      unfolding readValue.simps t prod.case by (intro bounded_if boundedI(1) l1)
  qed
  then show ?case by (auto simp only: returns_def bounded_def)
qed

section \<open>Reading what was written\<close>

text \<open>What stands behind a value in a written text.\<close>

definition follower :: "string \<Rightarrow> bool" where
  "follower r \<longleftrightarrow> deref r \<in> {CHR '','', CHR ''}'', CHR '']'', LF}"

lemma readToken_char:
  assumes "c \<notin> {CHR '' '', TAB, CR, LF}" and "token_from c s = (t, True, r)" and "c # s = tx @ r"
  shows "readToken (c # s) = (t, tx, r)"
proof -
  have "skipSpaces (c # s) = tx @ r"
    using assms(1) by (simp add: skipSpaces_def assms(3) [symmetric])
  moreover have "deref (tx @ r) = c" "tl (tx @ r) = s"
    by (simp_all add: assms(3) [symmetric])
  ultimately show ?thesis
    using assms(2) by (simp add: readToken_def Let_def)
qed

lemma skipCommentTokens_char:
  assumes "c \<notin> {CHR '' '', TAB, CR, LF}" and "token_from c s = (t, True, r)" and "c # s = tx @ r" and "t \<noteq> tokenComment"
  shows "skipCommentTokens (c # s) = (t, tx, r)"
  using assms(4) by (simp add: skipCommentTokens.simps [of "c # s"] readToken_char [OF assms(1-3)])

lemma token_from_marks:
  "token_from (CHR ''{'') s = (tokenObjectBegin, True, s)" "token_from (CHR ''}'') s = (tokenObjectEnd, True, s)"
  "token_from (CHR ''['') s = (tokenArrayBegin, True, s)" "token_from (CHR '']'') s = (tokenArrayEnd, True, s)"
  "token_from (CHR '','') s = (tokenArraySeparator, True, s)" "token_from (CHR '':'') s = (tokenMemberSeparator, True, s)"
  "token_from QUOTE s = (tokenString, readString s)"
  "token_from (CHR ''t'') s = (tokenTrue, match_word ''rue'' s)"
  "token_from (CHR ''f'') s = (tokenFalse, match_word ''alse'' s)"
  "token_from (CHR ''n'') s = (tokenNull, match_word ''ull'' s)"
  "token_from (CHR ''-'') s = (tokenNumber, True, readNumber s)"
  by (simp_all add: token_from_def isdigit_def char_code_def)

lemma token_from_digit: "isdigit c \<Longrightarrow> token_from c s = (tokenNumber, True, readNumber s)"
  by (auto simp: token_from_def isdigit_def char_code_def)

lemma token_marks [simp]:
  "readToken (CHR ''}'' # s) = (tokenObjectEnd, ''}'', s)" "readToken (CHR '']'' # s) = (tokenArrayEnd, '']'', s)"
  "readToken (CHR '','' # s) = (tokenArraySeparator, '','', s)" "readToken (CHR '':'' # s) = (tokenMemberSeparator, '':'', s)"
  by (simp_all add: readToken_char token_from_marks)

lemma skip_marks [simp]:
  "skipCommentTokens (CHR ''}'' # s) = (tokenObjectEnd, ''}'', s)" "skipCommentTokens (CHR '']'' # s) = (tokenArrayEnd, '']'', s)"
  "skipCommentTokens (CHR '','' # s) = (tokenArraySeparator, '','', s)"
  "skipCommentTokens (CHR ''{'' # s) = (tokenObjectBegin, ''{'', s)" "skipCommentTokens (CHR ''['' # s) = (tokenArrayBegin, ''['', s)"
  by (simp_all add: skipCommentTokens_char token_from_marks)

lemma skip_words [simp]:
  "skipCommentTokens (CHR ''t'' # CHR ''r'' # CHR ''u'' # CHR ''e'' # s) = (tokenTrue, ''true'', s)"
  "skipCommentTokens (CHR ''f'' # CHR ''a'' # CHR ''l'' # CHR ''s'' # CHR ''e'' # s) = (tokenFalse, ''false'', s)"
  "skipCommentTokens (CHR ''n'' # CHR ''u'' # CHR ''l'' # CHR ''l'' # s) = (tokenNull, ''null'', s)"
  by (simp_all add: skipCommentTokens_char token_from_marks match_word_def)

subsection \<open>Strings\<close>

lemma hex_value_hex_digit: "d < 16 \<Longrightarrow> hex_value (hex_digit d) = Some d"
  by (simp add: hex_value_def hex_digit_def isdigit_def)

lemma hex_value_not_special: "hex_value c = Some d \<Longrightarrow> c \<noteq> QUOTE \<and> c \<noteq> CHR 0x5C"
  by (auto simp: hex_value_def isdigit_def char_code_def)

text \<open>A written character stands for itself, is a letter behind a backslash, or its code.\<close>

lemma escape_char_cases:
  obtains (Plain) "escape_char c = [c]" "c \<noteq> QUOTE" "c \<noteq> CHR 0x5C"
    | (Letter) e where "escape_char c = [CHR 0x5C, e]" "e \<noteq> CHR ''u''" "escape_value e = Some c"
    | (Code) h l where "escape_char c = [CHR 0x5C, CHR ''u'', CHR ''0'', CHR ''0'', h, l]"
        "hex_value h = Some (char_code c div 16)" "hex_value l = Some (char_code c mod 16)" "char_code c < 32"
proof (cases "c \<in> {QUOTE, CHR 0x5C, CHR 0x08, CHR 0x0C, LF, CR, TAB}")
  case True
  then have "\<exists>e. escape_char c = [CHR 0x5C, e] \<and> e \<noteq> CHR ''u'' \<and> escape_value e = Some c"
    by (simp only: insert_iff empty_iff) (elim disjE; simp add: escape_char_def escape_value_def)
  then show ?thesis using Letter by blast
next
  case no: False
  show ?thesis
  proof (cases "isControlCharacter c \<or> c = NUL")
    case True
    then have small: "char_code c < 32"
      by (auto simp: isControlCharacter_def char_code_def)
    have "escape_char c = [CHR 0x5C, CHR ''u'', CHR ''0'', CHR ''0'', hex_digit (char_code c div 16), hex_digit (char_code c mod 16)]"
      using True no by (simp add: escape_char_def)
    moreover have "char_code c div 16 < 16"
      using small by linarith
    ultimately show ?thesis
      using small hex_value_hex_digit [of "char_code c div 16"] hex_value_hex_digit [of "char_code c mod 16"]
      by (intro Code) simp_all
  next
    case False
    then show ?thesis
      using no by (intro Plain) (simp_all add: escape_char_def)
  qed
qed

lemma readString_escape: "readString (escape_char c @ s) = readString s"
proof (cases c rule: escape_char_cases)
  case (Code h l)
  then show ?thesis
    using hex_value_not_special [of h] hex_value_not_special [of l] by simp
qed simp_all

lemma readString_quoted: "readString (concat (map escape_char s) @ QUOTE # r) = (True, r)"
  by (induction s) (simp_all add: readString_escape)

lemma decode_code:
  assumes "hex_value h = Some (char_code c div 16)" and "hex_value l = Some (char_code c mod 16)" and "char_code c < 32"
  shows "decodeUnicodeCodePoint (CHR ''0'' # CHR ''0'' # h # l # s) = Some (char_code c, s)"
proof -
  have "hex_value (CHR ''0'') = Some 0"
    by (simp add: hex_value_def isdigit_def char_code_def)
  moreover have "(4::nat) = Suc (Suc (Suc (Suc 0)))" by simp
  ultimately have "decodeUnicodeEscapeSequence (CHR ''0'' # CHR ''0'' # h # l # s) = Some (char_code c, s)"
    using assms by (simp only: decodeUnicodeEscapeSequence_def hex_loop.simps) simp
  then show ?thesis
    using assms(3) by (simp add: decodeUnicodeCodePoint_def)
qed

lemma unescape_loop_escape: "unescape_loop (escape_char c @ s) d = unescape_loop s (d @ [c])"
proof (cases c rule: escape_char_cases)
  case (Code h l)
  then show ?thesis
    by (simp add: unescape_loop.simps(2) decode_code codePointToUTF8_def)
qed (simp_all add: unescape_loop.simps)

lemma unescape_loop_quoted: "unescape_loop (concat (map escape_char s)) d = Some (d @ s)"
  by (induction s arbitrary: d) (simp_all add: unescape_loop_escape unescape_loop.simps(1))

lemma decodeString_quoted [simp]: "decodeString (valueToQuotedStringN s) = Some s"
  using unescape_loop_quoted [of s "[]"] by (simp add: decodeString_def valueToQuotedStringN_def)

lemma readToken_quoted: "readToken (valueToQuotedStringN s @ r) = (tokenString, valueToQuotedStringN s, r)"
  unfolding valueToQuotedStringN_def append_Cons
  by (rule readToken_char) (simp_all add: token_from_marks readString_quoted)

lemma skip_quoted [simp]: "skipCommentTokens (valueToQuotedStringN s @ r) = (tokenString, valueToQuotedStringN s, r)"
  by (simp add: skipCommentTokens.simps [of "_ @ _"] readToken_quoted)

subsection \<open>Numbers\<close>

lemma readNumber_show_nat:
  assumes "follower r"
  shows "readNumber (show_nat n @ r) = r"
proof -
  have "dropWhile isdigit (show_nat n @ r) = r"
    using show_nat_digits [of n] assms by (cases r) (auto simp: follower_def dropWhile_append isdigit_def char_code_def)
  then show ?thesis
    using assms by (auto simp: readNumber_def follower_def)
qed

lemma decode_digits_show_nat:
  assumes "n * 10 ^ length s \<le> limit" and "9 < limit"
  shows "decode_digits limit (show_nat n @ s) 0 = decode_digits limit s n"
  using assms(1)
proof (induction n arbitrary: s rule: show_nat.induct)
  case (1 n)
  have more: "n \<le> limit div 10" if s: "s \<noteq> []"
  proof -
    have "10 ^ 1 \<le> (10::nat) ^ length s"
      using s by (intro power_increasing) (simp_all add: Suc_le_eq)
    then have "n * 10 \<le> n * 10 ^ length s"
      by (intro mult_le_mono2) simp
    then have "n * 10 \<le> limit"
      using "1.prems" by (rule order_trans)
    then show ?thesis by simp
  qed
  have "n * 1 \<le> n * 10 ^ length s"
    by (intro mult_le_mono2) simp
  also note "1.prems"
  finally have "n \<le> limit" by simp
  show ?case
  proof (cases "n < 10")
    case True
    then show ?thesis
      using assms(2) more \<open>n \<le> limit\<close> by (subst show_nat.simps) auto
  next
    case False
    let ?q = "n div 10"
    have "decode_digits limit (show_nat n @ s) 0 = decode_digits limit (show_nat ?q @ digit_char (n mod 10) # s) 0"
      using False by (subst show_nat.simps) simp
    moreover have "decode_digits limit (show_nat ?q @ digit_char (n mod 10) # s) 0 = decode_digits limit (digit_char (n mod 10) # s) ?q"
    proof (rule "1.IH" [OF False])
      have "?q * 10 * 10 ^ length s \<le> n * 10 ^ length s"
        by (intro mult_le_mono1) simp
      also note "1.prems"
      finally show "?q * 10 ^ length (digit_char (n mod 10) # s) \<le> limit"
        by (simp add: mult.assoc)
    qed
    moreover have "decode_digits limit (digit_char (n mod 10) # s) ?q = decode_digits limit s n"
    proof -
      have q: "?q \<le> limit div 10"
        using \<open>n \<le> limit\<close> by (rule div_le_mono)
      have last: "n mod 10 \<le> limit mod 10" if "limit div 10 \<le> ?q"
        using that q \<open>n \<le> limit\<close> div_mult_mod_eq [of n 10] div_mult_mod_eq [of limit 10] by linarith
      have "\<not> limit div 10 \<le> ?q" if "s \<noteq> []"
        using more [OF that] False by linarith
      with q last have in_range: "\<not> (limit div 10 \<le> ?q \<and> (limit div 10 < ?q \<or> s \<noteq> [] \<or> limit mod 10 < n mod 10))"
        using linorder_not_less by blast
      have "n mod 10 < 10" by simp
      then have "isdigit (digit_char (n mod 10))" "digit_value (digit_char (n mod 10)) = n mod 10"
        by (rule isdigit_digit_char, rule digit_value_digit_char)
      then show ?thesis
        by (simp only: decode_digits.simps in_range not_True_eq_False if_False div_mult_mod_eq)
    qed
    ultimately show ?thesis by simp
  qed
qed

lemma decodeNumber_show_int:
  assumes "- (2 ^ 63) \<le> i" and "i < 2 ^ 64"
  shows "decodeNumber to_double (show_int i) = Some (JInt i)"
proof (cases "i < 0")
  case True
  then have "decode_digits (2 ^ 63) (show_nat (nat (- i)) @ []) 0 = Some (nat (- i))"
    using assms by (subst decode_digits_show_nat) auto
  then show ?thesis
    using True by (simp add: decodeNumber_def show_int_def)
next
  case False
  then have "decode_digits (2 ^ 64 - 1) (show_nat (nat i) @ []) 0 = Some (nat i)"
    using assms by (subst decode_digits_show_nat) auto
  moreover have "deref (show_nat (nat i)) \<noteq> CHR ''-''"
    using hd_show_nat_isdigit [of "nat i"] by (cases "show_nat (nat i)") (auto simp: isdigit_def char_code_def)
  ultimately show ?thesis
    using False by (simp add: decodeNumber_def show_int_def)
qed

lemma skip_number [simp]:
  assumes "follower r"
  shows "skipCommentTokens (show_int i @ r) = (tokenNumber, show_int i, r)"
proof (cases "i < 0")
  case True
  then show ?thesis
    by (simp add: show_int_def skipCommentTokens_char token_from_marks readNumber_show_nat [OF assms])
next
  case False
  obtain c cs where c: "show_nat (nat i) = c # cs"
    by (cases "show_nat (nat i)") auto
  have d: "isdigit c"
    using hd_show_nat_isdigit [of "nat i"] c by simp
  have "readNumber (c # cs @ r) = r"
    using readNumber_show_nat [OF assms, of "nat i"] c by simp
  then have "readNumber (cs @ r) = r"
    using d by (simp add: readNumber_def)
  moreover have "c \<notin> {CHR '' '', TAB, CR, LF}"
    using d by (auto simp: isdigit_def char_code_def)
  ultimately have "skipCommentTokens (c # cs @ r) = (tokenNumber, c # cs, r)"
    using d by (intro skipCommentTokens_char) (simp_all add: token_from_digit)
  then show ?thesis
    using False c by (simp add: show_int_def)
qed

subsection \<open>Values\<close>

lemma follower_marks [simp]:
  "follower (CHR '','' # r)" "follower (CHR ''}'' # r)" "follower (CHR '']'' # r)" "follower (LF # r)"
  by (simp_all add: follower_def)

lemma std_put_last: "\<forall>m \<in> set ms. fst m < k \<Longrightarrow> std_put k v ms = ms @ [(k, v)]"
  by (induction ms) auto

lemma std_wf_put_last:
  assumes "std_wf (ms @ (k, v) # ns)"
  shows "json_put k v (JObject ms) = JObject (ms @ [(k, v)])"
  using assms by (simp add: json_put_def std_wf_def sorted_wrt_append std_put_last)

lemma written_first:
  "json_plain v \<Longrightarrow> \<exists>c s. writeValue v = c # s \<and> c \<noteq> CHR '']'' \<and> c \<notin> {CHR '' '', TAB, CR, LF}"
proof (cases v)
  case (JInt i)
  have "\<exists>c s. show_nat n = c # s \<and> c \<noteq> CHR '']'' \<and> c \<notin> {CHR '' '', TAB, CR, LF}" for n
    using hd_show_nat_isdigit [of n] by (cases "show_nat n") (auto simp: isdigit_def char_code_def)
  then show ?thesis using JInt by (simp add: show_int_def)
qed (simp_all add: valueToQuotedStringN_def)

abbreviation reads_back :: "(string \<Rightarrow> (rat \<times> string) option) \<Rightarrow> nat \<Rightarrow> json \<Rightarrow> bool" where
  "reads_back to_double n v \<equiv> \<forall>r. follower r \<longrightarrow> readValue to_double n (writeValue v @ r) = Some (Inr (Some v, r))"

lemma written_elements_read:
  assumes "\<forall>v \<in> set ws. reads_back to_double n v" and "ws \<noteq> []"
  shows "read_elements (readValue to_double n) vs (write_elements ws @ CHR '']'' # r) = Some (Inr (Some (JArray (vs @ ws)), r))"
  using assms
proof (induction ws arbitrary: vs rule: induct_list012)
  case (2 w)
  then show ?case by (subst read_elements.simps) simp
next
  case (3 w w' ws)
  have "reads_back to_double n w" using "3.prems" by simp
  then show ?case
    using "3.IH"(2) [of "vs @ [w]"] "3.prems" by (subst read_elements.simps) simp
qed simp

lemma written_members_read:
  assumes "\<forall>m \<in> set ns. reads_back to_double n (snd m)" and "ns \<noteq> []" and "std_wf (ms @ ns)"
  shows "read_members (readValue to_double n) name (JObject ms) (write_members ns @ CHR ''}'' # r)
      = Some (Inr (Some (JObject (ms @ ns)), r))"
  using assms
proof (induction ns arbitrary: name ms rule: induct_list012)
  case (2 m)
  obtain k v where m: "m = (k, v)" by (cases m)
  then show ?case
    using "2.prems" std_wf_put_last [of ms k v "[]"] by (subst read_members.simps) simp
next
  case (3 m m' ns)
  obtain k v where m: "m = (k, v)" by (cases m)
  have "reads_back to_double n v" using "3.prems" m by simp
  then show ?case
    using "3.IH"(2) [of "ms @ [m]" k] "3.prems" std_wf_put_last [of ms k v "m' # ns"] m by (subst read_members.simps) simp
qed simp

lemma foldr_max_le: "x \<in> set xs \<Longrightarrow> x \<le> foldr max xs (0::nat)"
  by (induction xs) auto

lemma written_value_read: "json_plain v \<Longrightarrow> json_depth v \<le> n \<Longrightarrow> reads_back to_double n v"
proof (induction v arbitrary: n)
  case (JInt i)
  then show ?case
    using decodeNumber_show_int [of i to_double] by (cases n) simp_all
next
  case (JArray vs)
  then obtain m where n: "n = Suc m" by (cases n) auto
  show ?case
  proof (cases "vs = []")
    case True
    then show ?thesis using n by (simp add: readArray_def skipSpaces_def)
  next
    case False
    then obtain w ws where vs: "vs = w # ws" by (cases vs) auto
    have "\<forall>v \<in> set vs. reads_back to_double m v"
      using JArray n foldr_max_le [of _ "map json_depth vs"] by fastforce
    then have "read_elements (readValue to_double m) [] (write_elements vs @ CHR '']'' # r) = Some (Inr (Some (JArray vs), r))" for r
      using written_elements_read [of vs to_double m "[]"] False by simp
    moreover obtain c s where c: "write_elements vs = c # s" "c \<noteq> CHR '']''" "c \<notin> {CHR '' '', TAB, CR, LF}"
      using written_first [of w] JArray.prems vs by (cases ws) auto
    ultimately show ?thesis
      using n by (simp add: readArray_def skipSpaces_def)
  qed
next
  case (JObject ms)
  then obtain m where n: "n = Suc m" by (cases n) auto
  show ?case
  proof (cases "ms = []")
    case True
    then show ?thesis using n by (simp add: readObject_def read_members.simps)
  next
    case False
    have "reads_back to_double m (snd x)" if x: "x \<in> set ms" for x
    proof -
      have "json_depth (snd x) \<le> m"
        using foldr_max_le [of "json_depth (snd x)" "map (\<lambda>m. json_depth (snd m)) ms"] JObject.prems n x by auto
      then show ?thesis
        using JObject.IH [of x "snd x" m] JObject.prems x by (cases x) (auto simp: snds.simps)
    qed
    then have "read_members (readValue to_double m) [] (JObject []) (write_members ms @ CHR ''}'' # r)
        = Some (Inr (Some (JObject ms), r))" for r
      using written_members_read [of ms to_double m "[]"] False JObject.prems by simp
    then show ?thesis
      using n by (simp add: readObject_def)
  qed
next
  case JNull
  then obtain m where "n = Suc m" by (cases n) auto
  then show ?case by simp
next
  case (JBool b)
  then obtain m where "n = Suc m" by (cases n) auto
  then show ?case by (cases b) simp_all
next
  case (JReal r t)
  then show ?case by simp
next
  case (JString s)
  then obtain m where "n = Suc m" by (cases n) auto
  then show ?case by simp
qed

section \<open>Documents\<close>

lemma NUL_not_in_escape: "NUL \<notin> set (escape_char c)"
proof (cases c rule: escape_char_cases)
  case Plain
  then show ?thesis
    by (auto simp: escape_char_def)
next
  case (Letter e)
  then show ?thesis
    by (auto simp: escape_value_def)
next
  case (Code h l)
  then show ?thesis
    by (auto simp: hex_value_def isdigit_def char_code_def)
qed

lemma NUL_not_in_quoted: "NUL \<notin> set (valueToQuotedStringN s)"
  by (simp add: valueToQuotedStringN_def NUL_not_in_escape)

lemma NUL_not_in_show_int: "NUL \<notin> set (show_int i)"
proof -
  have "NUL \<notin> set (show_nat n)" for n
    using show_nat_digits [of n] by (auto simp: isdigit_def char_code_def)
  then show ?thesis by (simp add: show_int_def)
qed

lemma NUL_not_in_written:
  "json_plain v \<Longrightarrow> NUL \<notin> set (writeValue v)"
  "(\<forall>v \<in> set vs. json_plain v) \<Longrightarrow> NUL \<notin> set (write_elements vs)"
  "(\<forall>m \<in> set ms. json_plain (snd m)) \<Longrightarrow> NUL \<notin> set (write_members ms)"
  by (induction v and vs and ms rule: writeValue_write_elements_write_members.induct)
    (simp_all add: NUL_not_in_show_int NUL_not_in_quoted)

lemma c_str_fast_write: "json_plain v \<Longrightarrow> c_str (fast_write v) = fast_write v"
  by (intro c_str_id) (simp add: fast_write_def NUL_not_in_written)

text \<open>
  C14: Reading always returns: no text, whatever it nests, leaves unclosed or repeats, keeps
  \<^verbatim>\<open>Reader::parse\<close> in its loops or in the recovery from an error.
\<close>

theorem reading_returns: "\<exists>r. Reader_parse to_double slack s = Some r"
proof -
  obtain r where "readValue to_double stackLimit (document_copy slack s) = Some r"
    using readValue_returns [of to_double stackLimit] unfolding returns_def by blast
  then show ?thesis
    by (cases r) (auto simp: Reader_parse_def)
qed

text \<open>
  C7: Any value with 64-bit integers, without floating point numbers, of any strings and nested at most
  1000 deep is what \<^verbatim>\<open>Reader::parse\<close> reads from the C string \<^verbatim>\<open>FastWriter::write\<close> made of it, whatever
  bytes lie behind it in the memory of the string.
\<close>

theorem json_text_round_trip:
  assumes "json_plain v" and "json_depth v \<le> stackLimit"
  shows "Reader_parse to_double slack (c_str (fast_write v)) = Some (Inr (Some v))"
proof -
  let ?r = "LF # (if slack (fast_write v) = [] then [] else NUL # tl (slack (fast_write v)))"
  have "readValue to_double stackLimit (writeValue v @ ?r) = Some (Inr (Some v, ?r))"
    using written_value_read [OF assms] follower_marks(4) by blast
  moreover have "document_copy slack (fast_write v) = writeValue v @ ?r"
    by (simp add: document_copy_def fast_write_def)
  ultimately show ?thesis
    using c_str_fast_write [OF assms(1)] by (simp add: Reader_parse_def split: prod.splits)
qed

definition example_value :: json where
  "example_value = JObject [(''a'', JArray [JInt (- 5), JString [QUOTE, LF, NUL], JNull]), (''b'', JObject [])]"

theorem json_text_round_trip_witness:
  "Reader_parse (\<lambda>_. None) (\<lambda>_. ''garbage'') (c_str (fast_write example_value)) = Some (Inr (Some example_value))"
  by (rule json_text_round_trip) (simp_all add: example_value_def std_wf_def stackLimit_def)

lemma nested_arrays: "readValue to_double n (replicate (Suc n) (CHR ''['') @ r) = Some (Inl Uncaught)"
proof (induction n)
  case (Suc n)
  then show ?case
    by (simp add: readArray_def skipSpaces_def read_elements.simps [of _ "[]"])
qed simp

text \<open>
  C39: More than 1000 opening brackets end in an exception that nothing in the program catches.
\<close>

theorem deep_nesting_throws:
  "Reader_parse to_double slack (replicate 1001 (CHR ''['') @ r) = Some (Inl Uncaught)"
  using nested_arrays [of to_double stackLimit "r @ (if slack (replicate 1001 (CHR ''['') @ r) = [] then []
      else NUL # tl (slack (replicate 1001 (CHR ''['') @ r)))"]
  by (simp add: Reader_parse_def document_copy_def stackLimit_def del: replicate_Suc)

section \<open>The codec\<close>

text \<open>What a caller sees of the reader, which always returns: an exception, no document, or its value.\<close>

definition json_read :: "(string \<Rightarrow> (rat \<times> string) option) \<Rightarrow> (string \<Rightarrow> string) \<Rightarrow> json_reader" where
  "json_read to_double slack s = (case Reader_parse to_double slack s of None \<Rightarrow> Inl Uncaught | Some r \<Rightarrow> r)"

interpretation jsoncpp: json_codec "json_read to_double slack" fast_write for to_double slack
proof
  fix v
  assume "json_ok 1000 v"
  then show "json_read to_double slack (c_str (fast_write v)) = Inr (Some v)"
    using json_text_round_trip [of v to_double slack] by (simp add: json_read_def json_ok_def stackLimit_def)
qed

end
