(* ===== verification/Control.thy ===== *)
theory Control
  imports JsonText SipHeaders
begin

text \<open>
  Model of \<^verbatim>\<open>src/src/components/control/\<close>: the requests a controller sends, the notifications it gets,
  and the stream handlers of \<^verbatim>\<open>ControlInterface\<close>. The reader and the writer of JSON texts are arguments.
\<close>

section \<open>Requests\<close>

datatype request_method = R_UNKNOWN | R_SYSTEM_LOGIN | R_SYSTEM_LOGINCHALLENGERESPONSE | R_CALL_PROGRESS
  | R_CALL_RING | R_CALL_ANSWER | R_CALL_CLEAR | R_CALL_RECORD | R_INFO_CALLCOUNT | R_INFO_STATUS

text \<open>An object of a request class: the dialogue id and the members. That of a ring request is never set.\<close>

datatype control_request =
    LoginRequest (requestDialogue: int)
  | CallCountRequest (requestDialogue: int)
  | CallProgressRequest (requestDialogue: int) int
  | CallRingRequest (requestDialogue: int)
  | CallAnswerRequest (requestDialogue: int) int string string
  | CallClearRequest (requestDialogue: int) int int
  | CallRecordRequest (requestDialogue: int) int string bool
  | CallInitiateRequest (requestDialogue: int) string string string string

text \<open>The enumeration gives \<^verbatim>\<open>CALL_INITITIATE\<close> and \<^verbatim>\<open>UNKNOWN\<close> the same value.\<close>

definition request_getMethod :: "control_request \<Rightarrow> request_method" where
  "request_getMethod r = (case r of
       LoginRequest _ \<Rightarrow> R_SYSTEM_LOGIN
     | CallCountRequest _ \<Rightarrow> R_INFO_CALLCOUNT
     | CallProgressRequest _ _ \<Rightarrow> R_CALL_PROGRESS
     | CallRingRequest _ \<Rightarrow> R_CALL_RING
     | CallAnswerRequest _ _ _ _ \<Rightarrow> R_CALL_ANSWER
     | CallClearRequest _ _ _ \<Rightarrow> R_CALL_CLEAR
     | CallRecordRequest _ _ _ _ \<Rightarrow> R_CALL_RECORD
     | CallInitiateRequest _ _ _ _ _ \<Rightarrow> R_UNKNOWN)"

definition request_getMethodName :: "control_request \<Rightarrow> string" where
  "request_getMethodName r = (case r of
       LoginRequest _ \<Rightarrow> ''login''
     | CallCountRequest _ \<Rightarrow> ''callCount''
     | CallProgressRequest _ _ \<Rightarrow> ''callProgress''
     | CallRingRequest _ \<Rightarrow> ''sendRingback''
     | CallAnswerRequest _ _ _ _ \<Rightarrow> ''callAnswer''
     | CallClearRequest _ _ _ \<Rightarrow> ''callClear''
     | CallRecordRequest _ _ _ _ \<Rightarrow> ''callRecord''
     | CallInitiateRequest _ _ _ _ _ \<Rightarrow> ''makeCall'')"

definition request_getChannelId :: "control_request \<Rightarrow> int outcome" where
  "request_getChannelId r = (case r of
       CallProgressRequest _ ch \<Rightarrow> Inr ch
     | CallAnswerRequest _ ch _ _ \<Rightarrow> Inr ch
     | CallClearRequest _ ch _ \<Rightarrow> Inr ch
     | CallRecordRequest _ ch _ _ \<Rightarrow> Inr ch
     | CallRingRequest _ \<Rightarrow> Inl Indeterminate
     | _ \<Rightarrow> Inr 0)"

definition request_getCallId :: "control_request \<Rightarrow> string" where
  "request_getCallId r = []"

section \<open>Building a request\<close>

definition CallProgressRequest_of :: "json \<Rightarrow> int \<Rightarrow> control_request outcome" where
  "CallProgressRequest_of v d = bindO (int_member v ''channelId'' 0) (\<lambda>ch. Inr (CallProgressRequest d ch))"

definition CallAnswerRequest_of :: "json \<Rightarrow> int \<Rightarrow> control_request outcome" where
  "CallAnswerRequest_of v d =
     bindO (int_member v ''channelId'' 0) (\<lambda>ch.
     bindO (text_member v ''tag'' ''tag-not-set'') (\<lambda>tag.
     bindO (text_member v ''contact'' []) (\<lambda>contact. Inr (CallAnswerRequest d ch tag contact))))"

definition CallClearRequest_of :: "json \<Rightarrow> int \<Rightarrow> control_request outcome" where
  "CallClearRequest_of v d =
     bindO (int_member v ''channelId'' 0) (\<lambda>ch.
     bindO (int_member v ''clearingCode'' 200) (\<lambda>code. Inr (CallClearRequest d ch code)))"

definition CallRecordRequest_of :: "json \<Rightarrow> int \<Rightarrow> control_request outcome" where
  "CallRecordRequest_of v d =
     bindO (int_member v ''channelId'' 0) (\<lambda>ch.
     bindO (text_member v ''filename'' []) (\<lambda>f.
     bindO (text_member v ''action'' ''start'') (\<lambda>act. Inr (CallRecordRequest d ch f (act = ''start'')))))"

definition CallInitiateRequest_of :: "json \<Rightarrow> int \<Rightarrow> control_request outcome" where
  "CallInitiateRequest_of v d =
     bindO (text_member v ''to'' []) (\<lambda>to.
     bindO (text_member v ''from'' []) (\<lambda>fromField.
     bindO (text_member v ''body'' []) (\<lambda>body.
     bindO (text_member v ''tag'' ''tag-not-set'') (\<lambda>tag. Inr (CallInitiateRequest d to fromField body tag)))))"

definition request_of_json :: "json \<Rightarrow> control_request option outcome" where
  "request_of_json doc =
     bindO (text_member doc ''type'' ''UNKNOWN'') (\<lambda>messageType.
     bindO (text_member doc ''method'' ''UNKNOWN'') (\<lambda>mth.
     bindO (int_member doc ''dialogueId'' 0) (\<lambda>d.
     bindO (data_member doc) (\<lambda>v.
       if messageType = ''request'' then
         if mth = ''callCount'' then Inr (Some (CallCountRequest d))
         else if mth = ''answerCall'' then some_of (CallAnswerRequest_of v d)
         else if mth = ''recordCall'' then some_of (CallRecordRequest_of v d)
         else if mth = ''clearCall'' then some_of (CallClearRequest_of v d)
         else if mth = ''login'' then Inr (Some (LoginRequest d))
         else if mth = ''sendRingback'' then Inr (Some (CallRingRequest d))
         else if mth = ''sendProgress'' then some_of (CallProgressRequest_of v d)
         else Inr None
       else Inr None))))"

definition control_build_request :: "json_reader \<Rightarrow> string \<Rightarrow> control_request option outcome" where
  "control_build_request reader s = bindO (reader (c_str s)) (\<lambda>doc. case doc of None \<Rightarrow> Inr None | Some doc \<Rightarrow> request_of_json doc)"

section \<open>Notifications\<close>

record media_stats =
  packetsTransmitted :: int
  packetsReceived :: int
  packetsReceivedOutOfOrder :: int
  rxPacketsLost :: int
  badPacketsRx :: int
  duplicatePacketsReceived :: int
  discardedReceivedPackets :: int
  jitterLast :: int
  jitterMax :: int
  jitterSum :: int
  jitterMean :: int

datatype notification_data =
    NoData
  | CallCountData int
  | CallClearedData int
  | CallIncomingData string string string string "(string \<times> string) list"
  | CallStatisticsData media_stats

record notification =
  noteMethod :: string
  noteChannelId :: int
  noteErrorCode :: int
  noteErrorMessage :: string
  noteDialogueId :: int
  noteData :: notification_data

text \<open>The channel id is an unsigned number in the classes and an \<^verbatim>\<open>int\<close> in the base class.\<close>

definition Notification :: "string \<Rightarrow> int \<Rightarrow> int \<Rightarrow> string \<Rightarrow> int \<Rightarrow> notification_data \<Rightarrow> notification" where
  "Notification mth ch code msg d x = \<lparr>noteMethod = mth, noteChannelId = ch, noteErrorCode = code,
     noteErrorMessage = msg, noteDialogueId = d, noteData = x\<rparr>"

definition int_of_channel :: "u32 \<Rightarrow> int" where
  "int_of_channel ch = to_int32 (uint ch)"

definition LoginNotification :: "int \<Rightarrow> string \<Rightarrow> int \<Rightarrow> notification" where
  "LoginNotification code msg d = Notification ''login'' 0 code msg d NoData"

definition CallCountNotification :: "int \<Rightarrow> int \<Rightarrow> string \<Rightarrow> int \<Rightarrow> notification" where
  "CallCountNotification n code msg d = Notification ''callCount'' 0 code msg d (CallCountData n)"

definition CallProgressNotification :: "u32 \<Rightarrow> int \<Rightarrow> string \<Rightarrow> int \<Rightarrow> notification" where
  "CallProgressNotification ch code msg d = Notification ''callProgress'' (int_of_channel ch) code msg d NoData"

definition CallRingingNotification :: "u32 \<Rightarrow> int \<Rightarrow> string \<Rightarrow> int \<Rightarrow> notification" where
  "CallRingingNotification ch code msg d = Notification ''callRinging'' (int_of_channel ch) code msg d NoData"

definition CallConnectedNotification :: "u32 \<Rightarrow> int \<Rightarrow> string \<Rightarrow> int \<Rightarrow> notification" where
  "CallConnectedNotification ch code msg d = Notification ''callConnected'' (int_of_channel ch) code msg d NoData"

definition CallClearedNotification :: "u32 \<Rightarrow> int \<Rightarrow> int \<Rightarrow> string \<Rightarrow> int \<Rightarrow> notification" where
  "CallClearedNotification ch clearing code msg d =
     Notification ''callCleared'' (int_of_channel ch) code msg d (CallClearedData clearing)"

definition CallRecordingStartedNotification :: "u32 \<Rightarrow> int \<Rightarrow> string \<Rightarrow> int \<Rightarrow> notification" where
  "CallRecordingStartedNotification ch code msg d = Notification ''callRecordStart'' (int_of_channel ch) code msg d NoData"

definition CallRecordingCompletedNotification :: "u32 \<Rightarrow> int \<Rightarrow> string \<Rightarrow> int \<Rightarrow> notification" where
  "CallRecordingCompletedNotification ch code msg d = Notification ''callRecordEnd'' (int_of_channel ch) code msg d NoData"

definition CallStatisticsNotification :: "u32 \<Rightarrow> media_stats \<Rightarrow> int \<Rightarrow> string \<Rightarrow> int \<Rightarrow> notification" where
  "CallStatisticsNotification ch stats code msg d =
     Notification ''callMediaStatistics'' (int_of_channel ch) code msg d (CallStatisticsData stats)"

definition CallIncomingNotification :: "u32 \<Rightarrow> string \<Rightarrow> string \<Rightarrow> string \<Rightarrow> string \<Rightarrow> (string \<times> string) list \<Rightarrow>
    int \<Rightarrow> string \<Rightarrow> int \<Rightarrow> notification" where
  "CallIncomingNotification ch callId tag to fromField headers code msg d =
     Notification ''callIncoming'' (int_of_channel ch) code msg d (CallIncomingData callId tag to fromField headers)"

section \<open>The connection of an incoming call\<close>

text \<open>The four parts of an address are numbers below 256, the first one not 0.\<close>

definition is_ip_address :: "mapped_buffer list \<Rightarrow> bool" where
  "is_ip_address octets \<longleftrightarrow> (\<forall>i < 4. \<not> (toUnsignedLongInteger (octets ! i) > 255 \<or> i = 0 \<and> toUnsignedLongInteger (octets ! i) = 0))"

definition via_first_part :: "mapped_buffer \<Rightarrow> json \<Rightarrow> json outcome" where
  "via_first_part part result =
     (case buffer_split_on_first part (CHR '' '') of
        p # rest # _ \<Rightarrow>
          let result = json_put ''proto'' (JString (if buffer_contains p ''TCP'' False then ''TCP'' else ''UDP'')) result
          in (case buffer_split_on_first rest (CHR '':'') of
                adr # prt # _ \<Rightarrow>
                  let result = json_put ''remoteServer'' (JString (toString adr)) result;
                      octets = buffer_split adr (CHR ''.'')
                  in if length octets = 4 \<and> is_ip_address octets then
                       let result = json_put ''remoteIpAddress'' (JString (toString adr)) result;
                           result = (if blen prt \<noteq> 0 then json_put ''remotePort'' (JString (toString prt)) result else result)
                       in Inr (json_put ''valid'' (JBool True) result)
                     else Inr result
              | _ \<Rightarrow> Inl OutOfBounds)
      | _ \<Rightarrow> Inr result)"

definition via_parameter :: "mapped_buffer \<Rightarrow> json \<Rightarrow> json outcome" where
  "via_parameter part result =
     (case buffer_split_on_first part (CHR ''='') of
        k # v # _ \<Rightarrow>
          if buffer_starts_with k ''received'' False then
            Inr (if blen v \<noteq> 0 then json_put ''valid'' (JBool True) (json_put ''remoteIpAddress'' (JString (toString v)) result)
                 else result)
          else if buffer_starts_with k ''rport'' False then
            Inr (if blen v \<noteq> 0 then json_put ''remotePort'' (JString (toString v)) result else result)
          else Inr (if blen v \<noteq> 0 then json_put (toString k) (JString (toString v)) result else result)
      | _ \<Rightarrow> Inl OutOfBounds)"

fun via_parts :: "mapped_buffer list \<Rightarrow> nat \<Rightarrow> json \<Rightarrow> json outcome" where
  "via_parts [] i result = Inr result"
| "via_parts (part # parts) i result =
     bindO (if i = 0 then via_first_part part result else via_parameter part result) (via_parts parts (Suc i))"

definition parseViaHeader :: "string \<Rightarrow> json outcome" where
  "parseViaHeader viaHeader = via_parts (buffer_split (buffer_of_string viaHeader) (CHR '';'')) 0 JNull"

section \<open>Writing a notification\<close>

text \<open>The header map as an object, and the details of the last Via of it; a name or value ends at its first NUL.\<close>

fun header_members :: "(string \<times> string) list \<Rightarrow> json \<Rightarrow> json \<Rightarrow> (json \<times> json) outcome" where
  "header_members [] sipHeaders details = Inr (sipHeaders, details)"
| "header_members ((n, v) # hs) sipHeaders details =
     (let sipHeaders = json_put (c_str n) (JString (c_str v)) sipHeaders
      in if n = ''Via'' then bindO (parseViaHeader v) (\<lambda>details. header_members hs sipHeaders details)
         else header_members hs sipHeaders details)"

definition CallIncomingNotification_getData :: "string \<Rightarrow> string \<Rightarrow> string \<Rightarrow> (string \<times> string) list \<Rightarrow> json outcome" where
  "CallIncomingNotification_getData callId to fromField headers =
     bindO (header_members headers JNull JNull) (\<lambda>(sipHeaders, details).
       Inr (json_object [(''callId'', JString callId), (''to'', JString to), (''from'', JString fromField),
         (''remoteConnectionDetails'', details), (''sipHeaders'', sipHeaders)] JNull))"

definition CallStatisticsNotification_getData :: "media_stats \<Rightarrow> json" where
  "CallStatisticsNotification_getData s = json_object
     [(''PaTx'', JInt (packetsTransmitted s)), (''PaRx'', JInt (packetsReceived s)),
      (''OORx'', JInt (packetsReceivedOutOfOrder s)), (''CLRx'', JInt (rxPacketsLost s)), (''BaRx'', JInt (badPacketsRx s)),
      (''DuRx'', JInt (duplicatePacketsReceived s)), (''DiRx'', JInt (discardedReceivedPackets s)),
      (''JiLa'', JInt (jitterLast s)), (''JiMa'', JInt (jitterMax s)), (''JiSu'', JInt (jitterSum s)),
      (''JiMe'', JInt (jitterMean s))] JNull"

definition notification_data_json :: "notification_data \<Rightarrow> json outcome" where
  "notification_data_json x = (case x of
       NoData \<Rightarrow> Inr JNull
     | CallCountData n \<Rightarrow> Inr (json_object [(''callCount'', JInt n)] JNull)
     | CallClearedData code \<Rightarrow> Inr (json_object [(''clearingCode'', JInt code)] JNull)
     | CallIncomingData callId _ to fromField headers \<Rightarrow> CallIncomingNotification_getData callId to fromField headers
     | CallStatisticsData s \<Rightarrow> Inr (CallStatisticsNotification_getData s))"

definition notification_json :: "notification \<Rightarrow> json outcome" where
  "notification_json n =
     bindO (notification_data_json (noteData n)) (\<lambda>x.
       Inr (json_object [(''type'', JString ''notification''), (''channelId'', JInt (noteChannelId n)),
         (''method'', JString (c_str (noteMethod n))), (''errorCode'', JInt (noteErrorCode n)),
         (''errorMessage'', JString (c_str (noteErrorMessage n))), (''dialogueId'', JInt (noteDialogueId n)),
         (''data'', x)] JNull))"

definition notification_toJson :: "json_writer \<Rightarrow> notification \<Rightarrow> string outcome" where
  "notification_toJson writer n = bindO (notification_json n) (\<lambda>v. Inr (writer v))"

section \<open>The interface\<close>

text \<open>
  Bytes that are no request make no object, and the log line after that calls through the null
  pointer. A stream is a number; the texts sent are kept with it.
\<close>

definition Control_on_read :: "json_reader \<Rightarrow> (control_request \<Rightarrow> nat \<Rightarrow> 's \<Rightarrow> 's outcome) \<Rightarrow> ('s \<Rightarrow> 's) \<Rightarrow>
    nat \<Rightarrow> read_event \<Rightarrow> 's \<Rightarrow> 's outcome" where
  "Control_on_read reader hdl close stream ev s =
     (case ev of
        ReadError \<Rightarrow> Inr (close s)
      | ReadBytes b \<Rightarrow>
          bindO (control_build_request reader b) (\<lambda>request.
            case request of None \<Rightarrow> Inl NullDeref | Some r \<Rightarrow> hdl r stream s))"

definition PostNotification :: "json_writer \<Rightarrow> nat option \<Rightarrow> notification \<Rightarrow> (nat \<times> string) list \<Rightarrow>
    (nat \<times> string) list outcome" where
  "PostNotification writer stream n out =
     (case stream of
        None \<Rightarrow> Inr out
      | Some st \<Rightarrow> bindO (notification_toJson writer n) (\<lambda>t. Inr (out @ [(st, t)])))"

section \<open>A notification can always be written\<close>

lemma split_in_two: obtains a b where "buffer_split_on_first v d = [a, b]"
  using length_buffer_split_on_first [of v d] by (auto simp: length_Suc_conv numeral_2_eq_2)

definition fits_object :: "json outcome \<Rightarrow> json \<Rightarrow> bool" where
  "fits_object m v \<longleftrightarrow> (\<exists>r. m = Inr r \<and> (json_ok (Suc (Suc 0)) v \<longrightarrow> json_ok (Suc (Suc 0)) r))"

lemma via_first_part_fits: "fits_object (via_first_part part result) result"
proof -
  obtain p rest where "buffer_split_on_first part (CHR '' '') = [p, rest]" by (rule split_in_two)
  moreover obtain adr prt where "buffer_split_on_first rest (CHR '':'') = [adr, prt]" by (rule split_in_two)
  ultimately show ?thesis
    by (simp add: via_first_part_def fits_object_def Let_def)
qed

lemma via_parameter_fits: "fits_object (via_parameter part result) result"
proof -
  obtain k v where "buffer_split_on_first part (CHR ''='') = [k, v]" by (rule split_in_two)
  then show ?thesis
    by (simp add: via_parameter_def fits_object_def)
qed

lemma fits_object_bind:
  assumes "fits_object m v" and "\<And>r. fits_object (f r) r"
  shows "fits_object (bindO m f) v"
proof -
  obtain r where r: "m = Inr r" "json_ok (Suc (Suc 0)) v \<longrightarrow> json_ok (Suc (Suc 0)) r"
    using assms(1) by (auto simp: fits_object_def)
  then show ?thesis
    using assms(2) [of r] by (auto simp: fits_object_def)
qed

lemma via_parts_fit: "fits_object (via_parts parts i result) result"
proof (induction parts i result rule: via_parts.induct)
  case (2 part parts i result)
  have "fits_object (if i = 0 then via_first_part part result else via_parameter part result) result"
    by (simp add: via_first_part_fits via_parameter_fits)
  then show ?case
    unfolding via_parts.simps by (rule fits_object_bind) (rule "2.IH")
qed (simp add: fits_object_def)

lemma parseViaHeader_fits: "fits_object (parseViaHeader v) JNull"
  unfolding parseViaHeader_def by (rule via_parts_fit)

lemma header_members_fit:
  assumes "json_ok (Suc (Suc 0)) h" and "json_ok (Suc (Suc 0)) d"
  shows "\<exists>h' d'. header_members hs h d = Inr (h', d') \<and> json_ok (Suc (Suc 0)) h' \<and> json_ok (Suc (Suc 0)) d'"
  using assms
proof (induction hs h d rule: header_members.induct)
  case (2 n v hs h d)
  obtain r where r: "parseViaHeader v = Inr r" "json_ok (Suc (Suc 0)) r"
    using parseViaHeader_fits [of v] by (auto simp: fits_object_def)
  show ?case
  proof (cases "n = ''Via''")
    case True
    then show ?thesis
      using "2.IH"(1) [OF refl True, of r] r "2.prems" by (simp add: Let_def)
  next
    case False
    then show ?thesis
      using "2.IH"(2) [OF refl False] "2.prems" by (simp add: Let_def)
  qed
qed simp

lemma to_int32_fits [simp]: "fits_int (to_int32 i)"
  using sint_greater_eq [of "word_of_int i :: 32 word"] sint_less [of "word_of_int i :: 32 word"]
  by (simp add: fits_int_def to_int32_def)

lemma incoming_data_fits:
  "\<exists>v h d. CallIncomingNotification_getData callId to fromField headers = Inr v \<and> json_ok (Suc (Suc (Suc 0))) v \<and>
     v = json_object [(''callId'', JString callId), (''to'', JString to), (''from'', JString fromField),
           (''remoteConnectionDetails'', d), (''sipHeaders'', h)] JNull"
proof -
  obtain h d where hd: "header_members headers JNull JNull = Inr (h, d)" "json_ok (Suc (Suc 0)) h" "json_ok (Suc (Suc 0)) d"
    using header_members_fit [of JNull JNull headers] by auto
  have "json_ok (Suc (Suc (Suc 0))) (json_object [(''callId'', JString callId), (''to'', JString to), (''from'', JString fromField),
           (''remoteConnectionDetails'', d), (''sipHeaders'', h)] JNull)"
    using hd(2,3) by simp
  then show ?thesis
    using hd(1) unfolding CallIncomingNotification_getData_def by (metis (no_types, lifting) bindO_Inr prod.case)
qed

lemma notification_written: "\<exists>t. notification_toJson writer n = Inr t"
proof -
  have "\<exists>v. notification_data_json (noteData n) = Inr v"
    using incoming_data_fits by (cases "noteData n") (simp_all add: notification_data_json_def, blast)
  then show ?thesis
    by (auto simp: notification_toJson_def notification_json_def)
qed

context json_codec begin

text \<open>What the controller reads from a notification of an incoming call.\<close>

lemma incoming_read_back:
  assumes "fits_int code" and "fits_int d"
    and "notification_toJson writer (CallIncomingNotification ch callId tag to fromField headers code msg d) = Inr t"
  shows "\<exists>doc x. reader (c_str t) = Inr (Some doc) \<and>
    members doc ''type'' = Some (JString ''notification'') \<and> members doc ''method'' = Some (JString ''callIncoming'') \<and>
    members doc ''channelId'' = Some (JInt (int_of_channel ch)) \<and> members doc ''data'' = Some x \<and>
    members x ''callId'' = Some (JString callId) \<and> members x ''to'' = Some (JString to) \<and>
    members x ''from'' = Some (JString fromField)"
proof -
  obtain x h d' where x: "CallIncomingNotification_getData callId to fromField headers = Inr x" "json_ok (Suc (Suc (Suc 0))) x"
    "x = json_object [(''callId'', JString callId), (''to'', JString to), (''from'', JString fromField),
           (''remoteConnectionDetails'', d'), (''sipHeaders'', h)] JNull"
    using incoming_data_fits by blast
  let ?doc = "json_object [(''type'', JString ''notification''), (''channelId'', JInt (int_of_channel ch)),
         (''method'', JString ''callIncoming''), (''errorCode'', JInt code),
         (''errorMessage'', JString (c_str msg)), (''dialogueId'', JInt d), (''data'', x)] JNull"
  have "c_str ''callIncoming'' = ''callIncoming''"
    by (simp add: c_str_def)
  then have t: "t = writer ?doc"
    using assms(3) x(1)
    by (simp add: notification_toJson_def notification_json_def notification_data_json_def CallIncomingNotification_def
        Notification_def)
  have "json_ok (Suc (Suc (Suc (Suc 0)))) ?doc"
    using x(2) assms(1,2) by (simp add: int_of_channel_def)
  then have "json_ok 1000 ?doc"
    by (rule json_ok_mono) simp
  then have "reader (c_str t) = Inr (Some ?doc)"
    unfolding t by (rule reads_back)
  then show ?thesis
    using x(3) by (intro exI [of _ ?doc] exI [of _ x]) simp
qed

end

end
