(* ===== verification/MediaMessages.thy ===== *)
theory MediaMessages
  imports JsonText
begin

text \<open>
  Model of \<^verbatim>\<open>src/src/components/media/messages/\<close> and of the two ends of the connection that carries the
  messages (\<^verbatim>\<open>MediaClientInterface\<close>, \<^verbatim>\<open>MediaServerInterface\<close>). The reader and the writer of JSON
  texts are arguments, and are those of \<open>JsonText\<close> in what is proved of a message that arrives. An object of the class hierarchy is its base part (dialogue and callback id),
  for a response the status, and the members of its class. The constructor of the base part that all
  classes use logs through a pointer it does not set: \<open>nl\<close> is what this call does.
\<close>

section \<open>Messages\<close>

datatype media_type = T_UNKNOWN | T_REQUEST | T_RESPONSE

datatype media_method = MM_UNKNOWN | MM_REGISTER | MM_ALLOCATE | MM_RELEASE | MM_RECORD_START
  | MM_RECORD_STOP | MM_PLAY_START | MM_PLAY_STOP | MM_EVENTS

definition getTypeText :: "media_type \<Rightarrow> string" where
  "getTypeText t = (case t of T_UNKNOWN \<Rightarrow> ''unknown'' | T_REQUEST \<Rightarrow> ''request'' | T_RESPONSE \<Rightarrow> ''response'')"

definition getMethodText :: "media_method \<Rightarrow> string" where
  "getMethodText m = (case m of
       MM_UNKNOWN \<Rightarrow> ''unknown''
     | MM_REGISTER \<Rightarrow> ''register''
     | MM_ALLOCATE \<Rightarrow> ''allocate''
     | MM_RELEASE \<Rightarrow> ''release''
     | MM_RECORD_START \<Rightarrow> ''recordStart''
     | MM_RECORD_STOP \<Rightarrow> ''recordStop''
     | MM_PLAY_START \<Rightarrow> ''playStart''
     | MM_PLAY_STOP \<Rightarrow> ''playStop''
     | MM_EVENTS \<Rightarrow> ''events'')"

record media_base =
  mediaDialogueId :: int
  mediaCallbackId :: u32

definition media_ids :: "int \<Rightarrow> u32 \<Rightarrow> media_base" where
  "media_ids d cb = \<lparr>mediaDialogueId = d, mediaCallbackId = cb\<rparr>"

definition MediaMessage :: "logging \<Rightarrow> int \<Rightarrow> u32 \<Rightarrow> media_base outcome" where
  "MediaMessage nl d cb = bindO nl (\<lambda>_. Inr (media_ids d cb))"

datatype media_request =
    MediaRegisterRequest string
  | MediaAllocateRequest (mediaCallId: string) (offer: string)
  | MediaReleaseRequest (requestResourceId: u32) (ownerReference: string)
  | MediaRecordStartRequest (requestResourceId: u32) (requestFilename: string)
  | MediaRecordStopRequest (requestResourceId: u32)

datatype media_response =
    MediaRegisterResponse
  | MediaAllocateResponse (resourceId: u32) (answer: string)
  | MediaReleaseResponse (resourceId: u32)
  | MediaRecordStartResponse (resourceId: u32) (filename: string) (systemReference: string)
  | MediaRecordStopResponse (resourceId: u32) (filename: string) (systemReference: string)

datatype media_message =
    MediaRequest (base: media_base) media_request
  | MediaResponse (base: media_base) (errorCode: int) (errorMessage: string) media_response

text \<open>Making an object of a class: its base part comes first.\<close>

definition MediaRequest_object :: "logging \<Rightarrow> int \<Rightarrow> u32 \<Rightarrow> media_request \<Rightarrow> media_message outcome" where
  "MediaRequest_object nl d cb r = bindO (MediaMessage nl d cb) (\<lambda>b. Inr (MediaRequest b r))"

definition MediaResponse_object :: "logging \<Rightarrow> int \<Rightarrow> u32 \<Rightarrow> int \<Rightarrow> string \<Rightarrow> media_response \<Rightarrow> media_message outcome" where
  "MediaResponse_object nl d cb code msg r = bindO (MediaMessage nl d cb) (\<lambda>b. Inr (MediaResponse b code msg r))"

definition request_method :: "media_request \<Rightarrow> media_method" where
  "request_method r = (case r of
       MediaRegisterRequest _ \<Rightarrow> MM_REGISTER
     | MediaAllocateRequest _ _ \<Rightarrow> MM_ALLOCATE
     | MediaReleaseRequest _ _ \<Rightarrow> MM_RELEASE
     | MediaRecordStartRequest _ _ \<Rightarrow> MM_RECORD_START
     | MediaRecordStopRequest _ \<Rightarrow> MM_RECORD_STOP)"

definition response_method :: "media_response \<Rightarrow> media_method" where
  "response_method r = (case r of
       MediaRegisterResponse \<Rightarrow> MM_REGISTER
     | MediaAllocateResponse _ _ \<Rightarrow> MM_ALLOCATE
     | MediaReleaseResponse _ \<Rightarrow> MM_RELEASE
     | MediaRecordStartResponse _ _ _ \<Rightarrow> MM_RECORD_START
     | MediaRecordStopResponse _ _ _ \<Rightarrow> MM_RECORD_STOP)"

definition getMethod :: "media_message \<Rightarrow> media_method" where
  "getMethod m = (case m of MediaRequest _ r \<Rightarrow> request_method r | MediaResponse _ _ _ r \<Rightarrow> response_method r)"

definition getType :: "media_message \<Rightarrow> media_type" where
  "getType m = (case m of MediaRequest _ _ \<Rightarrow> T_REQUEST | MediaResponse _ _ _ _ \<Rightarrow> T_RESPONSE)"

definition getDomainStr :: string where
  "getDomainStr = ''media''"

section \<open>Writing\<close>

text \<open>\<^verbatim>\<open>hasData\<close> and \<^verbatim>\<open>getData\<close> in one: no data is \<^const>\<open>None\<close>.\<close>

definition MediaRegisterRequest_getData :: "string \<Rightarrow> json" where
  "MediaRegisterRequest_getData idt = json_object [(''identifier'', JString idt)] JNull"

definition MediaAllocateRequest_getData :: "string \<Rightarrow> string \<Rightarrow> json" where
  "MediaAllocateRequest_getData c s = json_object [(''callId'', JString c), (''sdp'', JString s)] JNull"

definition MediaReleaseRequest_getData :: "u32 \<Rightarrow> string \<Rightarrow> json" where
  "MediaReleaseRequest_getData i own =
     json_object [(''ownerReference'', JString (c_str own)), (''resourceId'', JUInt i)] JNull"

definition MediaRecordStartRequest_getData :: "u32 \<Rightarrow> string \<Rightarrow> json" where
  "MediaRecordStartRequest_getData i f = json_object [(''resourceId'', JUInt i), (''filename'', JString (c_str f))] JNull"

definition MediaRecordStopRequest_getData :: "u32 \<Rightarrow> json" where
  "MediaRecordStopRequest_getData i = json_object [(''resourceId'', JUInt i)] JNull"

definition MediaAllocateResponse_getData :: "u32 \<Rightarrow> string \<Rightarrow> json" where
  "MediaAllocateResponse_getData i a = json_object [(''resourceId'', JUInt i), (''offerAnswer'', JString a)] JNull"

definition MediaReleaseResponse_getData :: "u32 \<Rightarrow> json" where
  "MediaReleaseResponse_getData i = json_object [(''resourceId'', JUInt i)] JNull"

definition MediaRecordStartResponse_getData :: "u32 \<Rightarrow> string \<Rightarrow> string \<Rightarrow> json" where
  "MediaRecordStartResponse_getData i f ref = json_object [(''resourceId'', JUInt i), (''filename'', JString (c_str f)),
     (''systemReference'', JString (c_str ref))] JNull"

definition MediaRecordStopResponse_getData :: "u32 \<Rightarrow> string \<Rightarrow> string \<Rightarrow> json" where
  "MediaRecordStopResponse_getData i f ref = json_object [(''resourceId'', JUInt i), (''filename'', JString (c_str f)),
     (''systemReference'', JString (c_str ref))] JNull"

definition request_data :: "media_request \<Rightarrow> json option" where
  "request_data r = (case r of
       MediaRegisterRequest idt \<Rightarrow> Some (MediaRegisterRequest_getData idt)
     | MediaAllocateRequest c s \<Rightarrow> Some (MediaAllocateRequest_getData c s)
     | MediaReleaseRequest i own \<Rightarrow> Some (MediaReleaseRequest_getData i own)
     | MediaRecordStartRequest i f \<Rightarrow> Some (MediaRecordStartRequest_getData i f)
     | MediaRecordStopRequest i \<Rightarrow> Some (MediaRecordStopRequest_getData i))"

definition response_data :: "media_response \<Rightarrow> json option" where
  "response_data r = (case r of
       MediaRegisterResponse \<Rightarrow> None
     | MediaAllocateResponse i a \<Rightarrow> Some (MediaAllocateResponse_getData i a)
     | MediaReleaseResponse i \<Rightarrow> Some (MediaReleaseResponse_getData i)
     | MediaRecordStartResponse i f ref \<Rightarrow> Some (MediaRecordStartResponse_getData i f ref)
     | MediaRecordStopResponse i f ref \<Rightarrow> Some (MediaRecordStopResponse_getData i f ref))"

lemmas data_defs = request_data_def response_data_def MediaRegisterRequest_getData_def MediaAllocateRequest_getData_def
  MediaReleaseRequest_getData_def MediaRecordStartRequest_getData_def MediaRecordStopRequest_getData_def
  MediaAllocateResponse_getData_def MediaReleaseResponse_getData_def MediaRecordStartResponse_getData_def
  MediaRecordStopResponse_getData_def

definition getData :: "media_message \<Rightarrow> json option" where
  "getData m = (case m of MediaRequest _ r \<Rightarrow> request_data r | MediaResponse _ _ _ r \<Rightarrow> response_data r)"

definition getStatus :: "media_message \<Rightarrow> json option" where
  "getStatus m = (case m of
       MediaRequest _ _ \<Rightarrow> None
     | MediaResponse _ code msg _ \<Rightarrow>
         Some (json_object [(''errorCode'', JInt code), (''errorMessage'', JString msg)] JNull))"

definition optional_member :: "string \<Rightarrow> json option \<Rightarrow> (string \<times> json) list" where
  "optional_member k v = (case v of None \<Rightarrow> [] | Some x \<Rightarrow> [(k, x)])"

definition message_json :: "media_message \<Rightarrow> json" where
  "message_json m = json_object
     ([(''type'', JString (getTypeText (getType m))),
       (''domain'', JString getDomainStr),
       (''method'', JString (getMethodText (getMethod m))),
       (''dialogueId'', JInt (mediaDialogueId (base m))),
       (''callbackId'', JUInt (mediaCallbackId (base m)))]
      @ optional_member ''data'' (getData m) @ optional_member ''status'' (getStatus m)) JNull"

definition toJson :: "json_writer \<Rightarrow> media_message \<Rightarrow> string" where
  "toJson writer m = writer (message_json m)"

section \<open>Reading\<close>

text \<open>The constructors from the data of a message.\<close>

definition MediaReleaseResponse_of_data :: "logging \<Rightarrow> json \<Rightarrow> int \<Rightarrow> u32 \<Rightarrow> int \<Rightarrow> string \<Rightarrow> media_message outcome" where
  "MediaReleaseResponse_of_data nl v d cb code msg =
     bindO (MediaMessage nl d cb) (\<lambda>b.
     bindO (uint_member v ''resourceId'') (\<lambda>i. Inr (MediaResponse b code msg (MediaReleaseResponse i))))"

definition MediaRecordStartResponse_of_data :: "logging \<Rightarrow> json \<Rightarrow> int \<Rightarrow> u32 \<Rightarrow> int \<Rightarrow> string \<Rightarrow> media_message outcome" where
  "MediaRecordStartResponse_of_data nl v d cb code msg =
     bindO (MediaMessage nl d cb) (\<lambda>b.
     bindO (uint_member v ''resourceId'') (\<lambda>i.
     bindO (text_member v ''filename'' []) (\<lambda>f.
     bindO (text_member v ''systemReference'' []) (\<lambda>ref. Inr (MediaResponse b code msg (MediaRecordStartResponse i f ref))))))"

definition MediaRecordStopResponse_of_data :: "logging \<Rightarrow> json \<Rightarrow> int \<Rightarrow> u32 \<Rightarrow> int \<Rightarrow> string \<Rightarrow> media_message outcome" where
  "MediaRecordStopResponse_of_data nl v d cb code msg =
     bindO (MediaMessage nl d cb) (\<lambda>b.
     bindO (uint_member v ''resourceId'') (\<lambda>i.
     bindO (text_member v ''filename'' []) (\<lambda>f.
     bindO (text_member v ''systemReference'' []) (\<lambda>ref. Inr (MediaResponse b code msg (MediaRecordStopResponse i f ref))))))"

definition MediaReleaseRequest_of_data :: "logging \<Rightarrow> int \<Rightarrow> u32 \<Rightarrow> json \<Rightarrow> media_message outcome" where
  "MediaReleaseRequest_of_data nl d cb v =
     bindO (MediaMessage nl d cb) (\<lambda>b.
     bindO (uint_member v ''resourceId'') (\<lambda>i. Inr (MediaRequest b (MediaReleaseRequest i []))))"

definition MediaRecordStartRequest_of_data :: "logging \<Rightarrow> u32 \<Rightarrow> int \<Rightarrow> json \<Rightarrow> media_message outcome" where
  "MediaRecordStartRequest_of_data nl cb d v =
     bindO (MediaMessage nl d cb) (\<lambda>b.
     bindO (uint_member v ''resourceId'') (\<lambda>i.
     bindO (text_member v ''filename'' []) (\<lambda>f. Inr (MediaRequest b (MediaRecordStartRequest i f)))))"

definition MediaRecordStopRequest_of_data :: "logging \<Rightarrow> u32 \<Rightarrow> int \<Rightarrow> json \<Rightarrow> media_message outcome" where
  "MediaRecordStopRequest_of_data nl cb d v =
     bindO (MediaMessage nl d cb) (\<lambda>b.
     bindO (uint_member v ''resourceId'') (\<lambda>i. Inr (MediaRequest b (MediaRecordStopRequest i))))"

lemmas of_data_defs = MediaReleaseResponse_of_data_def MediaRecordStartResponse_of_data_def
  MediaRecordStopResponse_of_data_def MediaReleaseRequest_of_data_def MediaRecordStartRequest_of_data_def
  MediaRecordStopRequest_of_data_def MediaRequest_object_def MediaResponse_object_def MediaMessage_def

definition build_response :: "logging \<Rightarrow> string \<Rightarrow> int \<Rightarrow> u32 \<Rightarrow> int \<Rightarrow> string \<Rightarrow> json \<Rightarrow> media_message option outcome" where
  "build_response nl mth d cb code msg v =
     (if mth = ''register'' then some_of (MediaResponse_object nl d cb code msg MediaRegisterResponse)
      else if mth = ''allocate'' then
        bindO (string_member v ''offerAnswer'' ''EMPTY SDP'') (\<lambda>a.
        bindO (uint_member v ''resourceId'') (\<lambda>i.
          some_of (MediaResponse_object nl d cb code msg (MediaAllocateResponse i a))))
      else if mth = ''release'' then some_of (MediaReleaseResponse_of_data nl v d cb code msg)
      else if mth = ''recordStart'' then some_of (MediaRecordStartResponse_of_data nl v d cb code msg)
      else if mth = ''recordStop'' then some_of (MediaRecordStopResponse_of_data nl v d cb code msg)
      else Inr None)"

text \<open>
  The release request is built from the callback id and the dialogue id in this order, where the
  constructor expects them in the other; the numbers are converted.
\<close>

definition build_request :: "logging \<Rightarrow> string \<Rightarrow> int \<Rightarrow> u32 \<Rightarrow> json \<Rightarrow> media_message option outcome" where
  "build_request nl mth d cb v =
     (if mth = ''register'' then some_of (MediaRequest_object nl d cb (MediaRegisterRequest ''temporaryIdentifier''))
      else if mth = ''allocate'' then
        bindO (string_member v ''callId'' []) (\<lambda>c.
        bindO (string_member v ''sdp'' []) (\<lambda>s.
          some_of (MediaRequest_object nl d cb (MediaAllocateRequest c s))))
      else if mth = ''release'' then some_of (MediaReleaseRequest_of_data nl (to_int32 (uint cb)) (word_of_int d) v)
      else if mth = ''recordStart'' then some_of (MediaRecordStartRequest_of_data nl cb d v)
      else if mth = ''recordStop'' then some_of (MediaRecordStopRequest_of_data nl cb d v)
      else Inr None)"

definition status_members :: "json \<Rightarrow> (int \<times> string) outcome" where
  "status_members doc = bindO (json_isMember doc ''status'') (\<lambda>b.
     if b then
       bindO (json_get doc ''status'' JNull) (\<lambda>status.
       bindO (int_member status ''errorCode'' 0) (\<lambda>code.
       bindO (text_member status ''errorMessage'' []) (\<lambda>msg. Inr (code, msg))))
     else Inr (0, []))"

definition message_of_json :: "logging \<Rightarrow> json \<Rightarrow> media_message option outcome" where
  "message_of_json nl doc =
     bindO (text_member doc ''domain'' ''UNKNOWN'') (\<lambda>_.
     bindO (text_member doc ''type'' ''UNKNOWN'') (\<lambda>typ.
     bindO (text_member doc ''method'' ''UNKNOWN'') (\<lambda>mth.
     bindO (int_member doc ''dialogueId'' 0) (\<lambda>d.
     bindO (uint_member doc ''callbackId'') (\<lambda>cb.
     bindO (data_member doc) (\<lambda>v.
       if typ = ''response'' then
         bindO (status_members doc) (\<lambda>(code, msg). build_response nl mth d cb code msg v)
       else if typ = ''request'' then build_request nl mth d cb v
       else Inr None))))))"

definition build_message :: "logging \<Rightarrow> json_reader \<Rightarrow> string \<Rightarrow> media_message option outcome" where
  "build_message nl reader s =
     bindO (reader (c_str s)) (\<lambda>doc. case doc of None \<Rightarrow> Inr None | Some doc \<Rightarrow> message_of_json nl doc)"

section \<open>The two ends of the connection\<close>

text \<open>
  A read reports an error, on which the stream is closed, or bytes, which are taken as one message.
  The handler runs on a state of the application.
\<close>

definition MediaClient_on_read :: "logging \<Rightarrow> json_reader \<Rightarrow> (media_message \<Rightarrow> 's \<Rightarrow> 's outcome) \<Rightarrow>
    ('s \<Rightarrow> 's) \<Rightarrow> read_event \<Rightarrow> 's \<Rightarrow> 's outcome" where
  "MediaClient_on_read nl reader hdl close ev s =
     (case ev of
        ReadError \<Rightarrow> Inr (close s)
      | ReadBytes b \<Rightarrow>
          bindO (build_message nl reader b) (\<lambda>msg.
            case msg of
              None \<Rightarrow> Inr s
            | Some m \<Rightarrow> if getType m = T_RESPONSE then hdl m s else Inr s))"

definition MediaServer_on_read :: "logging \<Rightarrow> json_reader \<Rightarrow> (media_message \<Rightarrow> 's \<Rightarrow> 's outcome) \<Rightarrow>
    ('s \<Rightarrow> 's) \<Rightarrow> read_event \<Rightarrow> 's \<Rightarrow> 's outcome" where
  "MediaServer_on_read nl reader hdl close ev s =
     (case ev of
        ReadError \<Rightarrow> Inr (close s)
      | ReadBytes b \<Rightarrow>
          bindO (build_message nl reader b) (\<lambda>msg.
            case msg of
              None \<Rightarrow> Inr s
            | Some m \<Rightarrow> if getType m = T_REQUEST then hdl m s else Inr s))"

text \<open>What the client sends first on a new connection; the two numbers are the other way round in the call.\<close>

definition registration :: "logging \<Rightarrow> media_message outcome" where
  "registration nl = MediaRequest_object nl 0 1 (MediaRegisterRequest ''systemIdentifier'')"

section \<open>What arrives\<close>

fun received_request :: "media_base \<Rightarrow> media_request \<Rightarrow> media_message" where
  "received_request b (MediaRegisterRequest i) = MediaRequest b (MediaRegisterRequest ''temporaryIdentifier'')"
| "received_request b (MediaAllocateRequest c s) = MediaRequest b (MediaAllocateRequest c s)"
| "received_request b (MediaReleaseRequest i own) =
     MediaRequest (media_ids (to_int32 (uint (mediaCallbackId b))) (word_of_int (mediaDialogueId b)))
       (MediaReleaseRequest i [])"
| "received_request b (MediaRecordStartRequest i f) = MediaRequest b (MediaRecordStartRequest i (c_str f))"
| "received_request b (MediaRecordStopRequest i) = MediaRequest b (MediaRecordStopRequest i)"

fun received_response :: "media_response \<Rightarrow> media_response" where
  "received_response MediaRegisterResponse = MediaRegisterResponse"
| "received_response (MediaAllocateResponse i a) = MediaAllocateResponse i a"
| "received_response (MediaReleaseResponse i) = MediaReleaseResponse i"
| "received_response (MediaRecordStartResponse i f ref) = MediaRecordStartResponse i (c_str f) (c_str ref)"
| "received_response (MediaRecordStopResponse i f ref) = MediaRecordStopResponse i (c_str f) (c_str ref)"

fun received :: "media_message \<Rightarrow> media_message" where
  "received (MediaRequest b r) = received_request b r"
| "received (MediaResponse b code msg r) = MediaResponse b code (c_str msg) (received_response r)"

definition int_fields_fit :: "media_message \<Rightarrow> bool" where
  "int_fields_fit m \<longleftrightarrow> fits_int (mediaDialogueId (base m)) \<and>
     (case m of MediaRequest _ _ \<Rightarrow> True | MediaResponse _ code _ _ \<Rightarrow> fits_int code)"

lemma media_ids_simps [simp]:
  "mediaDialogueId (media_ids d cb) = d" "mediaCallbackId (media_ids d cb) = cb"
  "media_ids (mediaDialogueId b) (mediaCallbackId b) = b"
  by (simp_all add: media_ids_def)

lemmas built_defs = member_defs status_members_def of_data_defs

lemmas message_json_defs = message_json_def getData_def getStatus_def getType_def getMethod_def
  optional_member_def getTypeText_def

lemma method_text_c_str [simp]: "c_str (getMethodText mth) = getMethodText mth"
  by (cases mth) (simp_all add: getMethodText_def c_str_def)

lemma type_text_c_str [simp]: "c_str ''request'' = ''request''" "c_str ''response'' = ''response''"
  by (simp_all add: c_str_def)

lemma request_arrives:
  "bindO (data_member (message_json (MediaRequest b r)))
      (build_request nl (getMethodText (request_method r)) (mediaDialogueId b) (mediaCallbackId b))
    = bindO nl (\<lambda>_. Inr (Some (received_request b r)))"
  by (cases nl; cases r; simp add: message_json_defs data_defs request_method_def getMethodText_def
      build_request_def built_defs)

lemma response_arrives:
  "bindO (data_member (message_json (MediaResponse b code' msg' r)))
      (build_response nl (getMethodText (response_method r)) (mediaDialogueId b) (mediaCallbackId b) code msg)
    = bindO nl (\<lambda>_. Inr (Some (MediaResponse b code msg (received_response r))))"
  by (cases nl; cases r; simp add: message_json_defs data_defs response_method_def
      getMethodText_def build_response_def built_defs)

lemma status_arrives:
  assumes "fits_int code"
  shows "status_members (message_json (MediaResponse b code msg r)) = Inr (code, c_str msg)"
  using assms by (cases "response_data r"; simp add: message_json_defs built_defs)

lemma head_arrives:
  assumes "fits_int (mediaDialogueId (base m))"
  shows "\<exists>s. text_member (message_json m) ''domain'' ''UNKNOWN'' = Inr s"
    and "text_member (message_json m) ''type'' ''UNKNOWN'' = Inr (c_str (getTypeText (getType m)))"
    and "text_member (message_json m) ''method'' ''UNKNOWN'' = Inr (getMethodText (getMethod m))"
    and "int_member (message_json m) ''dialogueId'' 0 = Inr (mediaDialogueId (base m))"
    and "uint_member (message_json m) ''callbackId'' = Inr (mediaCallbackId (base m))"
  using assms
  by (cases "getData m"; cases "getStatus m"; simp add: message_json_def optional_member_def built_defs)+

lemma message_arrives:
  assumes fit: "int_fields_fit m"
  shows "message_of_json nl (message_json m) = bindO nl (\<lambda>_. Inr (Some (received m)))"
proof -
  have d: "fits_int (mediaDialogueId (base m))"
    using fit by (simp add: int_fields_fit_def)
  obtain dom where dom: "text_member (message_json m) ''domain'' ''UNKNOWN'' = Inr dom"
    using head_arrives(1) [OF d] by blast
  note head = dom head_arrives(2-5) [OF d]
  show ?thesis
  proof (cases m)
    case (MediaRequest b r)
    then have "getType m = T_REQUEST" and "getMethod m = request_method r"
      by (simp_all add: getType_def getMethod_def)
    moreover have "bindO (data_member (message_json m)) (\<lambda>v.
        build_request nl (getMethodText (request_method r)) (mediaDialogueId b) (mediaCallbackId b) v)
        = bindO nl (\<lambda>_. Inr (Some (received_request b r)))"
      using request_arrives [of b r nl] MediaRequest by simp
    ultimately show ?thesis
      using head MediaRequest by (simp add: message_of_json_def getTypeText_def)
  next
    case (MediaResponse b code msg r)
    have code: "fits_int code"
      using fit MediaResponse by (simp add: int_fields_fit_def)
    obtain v where v: "data_member (message_json m) = Inr v"
    proof (cases "data_member (message_json m)")
      case (Inl e)
      then show ?thesis
        using response_arrives [of b code msg r "Inr ()" code msg] MediaResponse by simp
    qed
    have "build_response nl (getMethodText (response_method r)) (mediaDialogueId b) (mediaCallbackId b) code (c_str msg) v =
        bindO nl (\<lambda>_. Inr (Some (MediaResponse b code (c_str msg) (received_response r))))"
      using response_arrives [of b code msg r nl code "c_str msg"] v MediaResponse by simp
    moreover have "getType m = T_RESPONSE" and "getMethod m = response_method r"
      using MediaResponse by (simp_all add: getType_def getMethod_def)
    ultimately show ?thesis
      using head v status_arrives [OF code, of b msg r] MediaResponse
      by (simp add: message_of_json_def getTypeText_def)
  qed
qed

lemma message_json_ok:
  assumes "int_fields_fit m"
  shows "json_ok (Suc (Suc (Suc n))) (message_json m)"
proof (cases m)
  case (MediaRequest b r)
  then show ?thesis
    using assms by (cases r) (simp_all add: int_fields_fit_def message_json_defs data_defs)
next
  case (MediaResponse b code msg r)
  then show ?thesis
    using assms by (cases r) (simp_all add: int_fields_fit_def message_json_defs data_defs)
qed

context json_codec begin

lemma built_message:
  assumes "int_fields_fit m"
  shows "build_message nl reader (toJson writer m) = bindO nl (\<lambda>_. Inr (Some (received m)))"
proof -
  have "reader (c_str (writer (message_json m))) = Inr (Some (message_json m))"
    by (rule reads_back [OF json_ok_mono [OF message_json_ok [OF assms, of 0]]]) simp
  then show ?thesis
    by (simp add: build_message_def toJson_def message_arrives assms)
qed

end

text \<open>
  C10: A media message survives the connection. Applied to the text \<^verbatim>\<open>toJson\<close> wrote,
  \<^verbatim>\<open>build_message\<close> builds a message of the same class, with the
  same dialogue and callback id, method, resource, session description and status; texts end at their
  first NUL. Three things are not what was sent: the identifier of a registration is replaced by a
  constant, and a release request loses its owner reference and comes out with its dialogue id and its
  callback id exchanged. Every object made on the way logs through a logger that is not there; if that
  faults, nothing is built.
\<close>

theorem media_message_round_trip:
  assumes "int_fields_fit m"
  shows "build_message nl (json_read to_double slack) (toJson fast_write m) = bindO nl (\<lambda>_. Inr (Some (received m)))"
  using assms by (rule jsoncpp.built_message)

definition example_release :: media_message where
  "example_release = MediaRequest (media_ids 7 3) (MediaReleaseRequest 1001 ''owner'')"

theorem media_message_round_trip_witness:
  "\<forall>nl. build_message nl (json_read (\<lambda>_. None) (\<lambda>_. [])) (toJson fast_write example_release)
   = bindO nl (\<lambda>_. Inr (Some (MediaRequest (media_ids 3 7) (MediaReleaseRequest 1001 []))))" (is "\<forall>nl. ?P nl")
proof (rule allI)
  fix nl :: logging
  have "received example_release = MediaRequest (media_ids 3 7) (MediaReleaseRequest 1001 [])"
    by (simp add: example_release_def to_int32_id)
  moreover have "int_fields_fit example_release"
    by (simp add: example_release_def int_fields_fit_def fits_int_def)
  ultimately show "?P nl"
    using media_message_round_trip [of example_release nl "\<lambda>_. None" "\<lambda>_. []"] by simp
qed

end
