(* ===== verification/Core.thy ===== *)
theory Core
  imports InviteDatagram Control MediaMessages
begin

text \<open>
  Model of \<^verbatim>\<open>src/src/applications/core.cpp\<close>: the process between the controllers, the SIP interface and
  the media process. Its three handlers run on one event loop, so a step is one received datagram, one
  read from a controller or one read from the media connection. The handler of SIP events never calls
  the SIP interface, so the events of a step are handled in their order after it. \<open>nl\<close> is the call through
  a logger that is not there, in the objects it makes and in the functions it calls.
\<close>

section \<open>State\<close>

record core =
  sip :: sip_interface
  theresourceId :: u32
  controlStream :: "nat option"
  controlSent :: "(nat \<times> string) list"
  mediaConnected :: bool
  mediaSent :: "string list"

definition new_core :: core where
  "new_core = \<lparr>sip = new_sip_interface, theresourceId = 0, controlStream = None, controlSent = [],
     mediaConnected = False, mediaSent = []\<rparr>"

definition notify :: "json_writer \<Rightarrow> notification \<Rightarrow> core \<Rightarrow> core outcome" where
  "notify writer n c = bindO (PostNotification writer (controlStream c) n (controlSent c)) (\<lambda>out. Inr (c\<lparr>controlSent := out\<rparr>))"

text \<open>\<^verbatim>\<open>MediaClientInterface::PostRequest\<close>: before the connection stands, the stream is null.\<close>

definition PostRequest :: "json_writer \<Rightarrow> media_message \<Rightarrow> core \<Rightarrow> core outcome" where
  "PostRequest writer m c =
     (if mediaConnected c then Inr (c\<lparr>mediaSent := mediaSent c @ [toJson writer m]\<rparr>) else Inl NullDeref)"

text \<open>\<^verbatim>\<open>MediaClientInterface::on_connect\<close>.\<close>

definition media_on_connect :: "logging \<Rightarrow> json_writer \<Rightarrow> int \<Rightarrow> core \<Rightarrow> core outcome" where
  "media_on_connect nl writer status c =
     (if status \<noteq> 0 then Inr c
      else bindO (registration nl) (\<lambda>m. PostRequest writer m (c\<lparr>mediaConnected := True\<rparr>)))"

section \<open>Handlers\<close>

definition mediaResponseHandler :: "logging \<Rightarrow> json_writer \<Rightarrow> media_message \<Rightarrow> core \<Rightarrow> core outcome" where
  "mediaResponseHandler nl writer m c =
     (case m of
        MediaRequest _ _ \<Rightarrow> Inl BadCast
      | MediaResponse b code msg r \<Rightarrow>
         (case r of
            MediaAllocateResponse n ans \<Rightarrow>
              bindO (answerCall nl (mediaCallbackId b) ''TBC-TEST-TAG'' ''TBC-TEST-CONTACT'' ans (sip c)) (\<lambda>(_, i).
                Inr (c\<lparr>theresourceId := n, sip := i\<rparr>))
          | MediaRecordStartResponse _ _ _ \<Rightarrow>
              notify writer (CallRecordingStartedNotification (mediaCallbackId b) code ''OK'' 0) c
          | MediaRecordStopResponse _ _ _ \<Rightarrow>
              notify writer (CallRecordingCompletedNotification (mediaCallbackId b) code (c_str msg) (mediaDialogueId b)) c
          | MediaReleaseResponse _ \<Rightarrow> Inr c
          | MediaRegisterResponse \<Rightarrow> Inr c))"

text \<open>
  The dialogue id of an event is 0, and so is its error code where its constructor takes none. The case
  of a started recording runs on into that of a stopped one.
\<close>

definition incoming_notification :: "u32 \<Rightarrow> string \<Rightarrow> string \<Rightarrow> string \<Rightarrow> string \<Rightarrow> (string \<times> string) list \<Rightarrow> notification" where
  "incoming_notification ch callId tag to fromField headers =
     CallIncomingNotification ch (c_str callId) (c_str tag) (c_str to) (c_str fromField) headers 0 ''OK'' 0"

definition sipEventHandler :: "json_writer \<Rightarrow> call_event \<Rightarrow> core \<Rightarrow> core outcome" where
  "sipEventHandler writer e c =
     (case e of
        CallNewCallEvent ch callId tag to fromField headers bodies \<Rightarrow>
          notify writer (incoming_notification ch callId tag to fromField headers) c
      | CallAnsweredEvent ch callId \<Rightarrow> notify writer (CallConnectedNotification ch 0 [] 0) c
      | CallClearedEvent ch callId code \<Rightarrow> notify writer (CallClearedNotification ch code 0 [] 0) c
      | CallMediaRecordingStartedEvent ch callId _ code msg \<Rightarrow>
          bindO (notify writer (CallRecordingStartedNotification ch code (c_str msg) 0) c) (\<lambda>c.
            notify writer (CallRecordingCompletedNotification ch code (c_str msg) 0) c))"

definition answer_request :: "logging \<Rightarrow> json_writer \<Rightarrow> control_request \<Rightarrow> core \<Rightarrow> core outcome" where
  "answer_request nl writer r c =
     bindO (request_getChannelId r) (\<lambda>ch.
     bindO (getMediaOffer nl (word_of_int ch) (sip c)) (\<lambda>sdpOffer.
     bindO (MediaRequest_object nl (requestDialogue r) (word_of_int ch)
         (MediaAllocateRequest (request_getCallId r) sdpOffer)) (\<lambda>m. PostRequest writer m c)))"

definition record_request :: "logging \<Rightarrow> json_writer \<Rightarrow> int \<Rightarrow> int \<Rightarrow> string \<Rightarrow> bool \<Rightarrow> core \<Rightarrow> core outcome" where
  "record_request nl writer d ch f start c =
     (if start then
        bindO (MediaRequest_object nl d (word_of_int ch) (MediaRecordStartRequest (theresourceId c) (c_str f))) (\<lambda>m.
          PostRequest writer m c)
      else
        bindO (MediaRequest_object nl d (word_of_int ch) (MediaRecordStopRequest (theresourceId c))) (\<lambda>m.
          PostRequest writer m (c\<lparr>sip := snd (stopRecordingCall (word_of_int ch) (sip c))\<rparr>)))"

definition controlRequestHandler :: "logging \<Rightarrow> json_writer \<Rightarrow> control_request \<Rightarrow> nat \<Rightarrow> core \<Rightarrow> core outcome" where
  "controlRequestHandler nl writer r stream c =
     (let c = c\<lparr>controlStream := Some stream\<rparr>
      in case r of
           LoginRequest _ \<Rightarrow> notify writer (LoginNotification 0 ''OK'' 0) c
         | CallCountRequest _ \<Rightarrow> notify writer (CallCountNotification 0 0 ''OK'' 0) c
         | CallAnswerRequest _ _ _ _ \<Rightarrow> answer_request nl writer r c
         | CallRecordRequest d ch f start \<Rightarrow> record_request nl writer d ch f start c
         | _ \<Rightarrow> Inr c)"

section \<open>Steps\<close>

fun handle_events :: "json_writer \<Rightarrow> call_event list \<Rightarrow> core \<Rightarrow> core outcome" where
  "handle_events writer [] c = Inr c"
| "handle_events writer (e # es) c = bindO (sipEventHandler writer e c) (handle_events writer es)"

text \<open>What the SIP interface did in a step is what was appended to its actions.\<close>

definition after_sip :: "json_writer \<Rightarrow> sip_interface \<Rightarrow> core \<Rightarrow> core outcome" where
  "after_sip writer i c =
     handle_events writer (events_of (drop (length (actions (sip c))) (actions i))) (c\<lparr>sip := i\<rparr>)"

definition core_datagram :: "logging \<Rightarrow> json_writer \<Rightarrow> string \<Rightarrow> string \<Rightarrow> int \<Rightarrow> string \<Rightarrow> core \<Rightarrow> core outcome option" where
  "core_datagram nl writer fresh dest bytes_read mem c =
     (case onUdpRecv nl fresh dest bytes_read mem (sip c) of
        None \<Rightarrow> None
      | Some r \<Rightarrow> Some (bindO r (\<lambda>i. after_sip writer i c)))"

definition core_control :: "logging \<Rightarrow> json_reader \<Rightarrow> json_writer \<Rightarrow> nat \<Rightarrow> read_event \<Rightarrow> core \<Rightarrow> core outcome" where
  "core_control nl reader writer stream ev c =
     Control_on_read reader (controlRequestHandler nl writer) (\<lambda>c. c) stream ev c"

definition core_media :: "logging \<Rightarrow> json_reader \<Rightarrow> json_writer \<Rightarrow> read_event \<Rightarrow> core \<Rightarrow> core outcome" where
  "core_media nl reader writer ev c = MediaClient_on_read nl reader (mediaResponseHandler nl writer) (\<lambda>c. c) ev c"

section \<open>Notifications\<close>

lemma notify_sends:
  assumes "controlStream c = Some st"
  obtains t where "notification_toJson writer n = Inr t" and "notify writer n c = Inr (c\<lparr>controlSent := controlSent c @ [(st, t)]\<rparr>)"
  using notification_written [of writer n] assms by (auto simp: notify_def PostNotification_def)

lemma notify_total: "\<exists>out. notify writer n c = Inr (c\<lparr>controlSent := out\<rparr>)"
proof (cases "controlStream c")
  case None
  then show ?thesis by (intro exI [of _ "controlSent c"]) (simp add: notify_def PostNotification_def)
next
  case (Some st)
  then show ?thesis using notify_sends by blast
qed

lemma sipEventHandler_total: "\<exists>out. sipEventHandler writer e c = Inr (c\<lparr>controlSent := out\<rparr>)"
proof (cases e)
  case (CallMediaRecordingStartedEvent ch callId b code msg)
  let ?n1 = "CallRecordingStartedNotification ch code (c_str msg) 0"
  obtain out where "notify writer ?n1 c = Inr (c\<lparr>controlSent := out\<rparr>)"
    using notify_total by blast
  then show ?thesis
    using notify_total [of writer "CallRecordingCompletedNotification ch code (c_str msg) 0" "c\<lparr>controlSent := out\<rparr>"]
    by (simp add: sipEventHandler_def CallMediaRecordingStartedEvent)
qed (simp_all add: sipEventHandler_def notify_total)

lemma handle_events_total: "\<exists>out. handle_events writer es c = Inr (c\<lparr>controlSent := out\<rparr>)"
proof (induction es arbitrary: c)
  case Nil
  then show ?case by (intro exI [of _ "controlSent c"]) simp
next
  case (Cons e es)
  obtain out where "sipEventHandler writer e c = Inr (c\<lparr>controlSent := out\<rparr>)"
    using sipEventHandler_total by blast
  then show ?case
    using Cons.IH [of "c\<lparr>controlSent := out\<rparr>"] by simp
qed

lemma after_sip_total: "\<exists>out. after_sip writer i c = Inr (c\<lparr>sip := i, controlSent := out\<rparr>)"
  using handle_events_total [of writer _ "c\<lparr>sip := i\<rparr>"] by (simp add: after_sip_def)

section \<open>Reachable states of the process\<close>

text \<open>
  One step: a datagram (within the number of channels), a read from a controller or from the media
  connection, the connection to the media process.
\<close>

inductive core_step :: "logging \<Rightarrow> json_reader \<Rightarrow> json_writer \<Rightarrow> core \<Rightarrow> core \<Rightarrow> bool" for nl reader writer where
  datagram: "length fresh = 4097 \<Longrightarrow> length dest = 4096 \<Longrightarrow>
     core_datagram nl writer fresh dest bytes_read mem c = Some (Inr c') \<Longrightarrow> channel_left (sip c') \<Longrightarrow> core_step nl reader writer c c'"
| control: "core_control nl reader writer stream ev c = Inr c' \<Longrightarrow> core_step nl reader writer c c'"
| media: "core_media nl reader writer ev c = Inr c' \<Longrightarrow> core_step nl reader writer c c'"
| connect: "media_on_connect nl writer status c = Inr c' \<Longrightarrow> core_step nl reader writer c c'"

inductive core_reachable :: "logging \<Rightarrow> json_reader \<Rightarrow> json_writer \<Rightarrow> core \<Rightarrow> bool" for nl reader writer where
  start: "core_reachable nl reader writer new_core"
| step: "core_reachable nl reader writer c \<Longrightarrow> core_step nl reader writer c c' \<Longrightarrow> core_reachable nl reader writer c'"

definition core_inv :: "logging \<Rightarrow> core \<Rightarrow> bool" where
  "core_inv nl c \<longleftrightarrow> sip_reachable nl (sip c) \<and> parser_plain (udpParser (sip c))"

lemma core_inv_sip: "sip c' = sip c \<Longrightarrow> core_inv nl c' = core_inv nl c"
  by (simp add: core_inv_def)

lemma PostRequest_sip: "PostRequest writer m c = Inr c' \<Longrightarrow> sip c' = sip c"
  by (auto simp: PostRequest_def split: if_splits)

lemma notify_sip: "notify writer n c = Inr c' \<Longrightarrow> sip c' = sip c"
  using notify_total [of writer n c] by auto

lemma controlRequestHandler_sip: "controlRequestHandler nl writer r stream c = Inr c' \<Longrightarrow> sip c' = sip c"
  by (cases r) (auto simp: controlRequestHandler_def answer_request_def record_request_def stopRecordingCall_def Let_def
      bindO_eq_Inr_iff dest!: notify_sip PostRequest_sip split: if_splits)

lemma core_control_sip: "core_control nl reader writer stream ev c = Inr c' \<Longrightarrow> sip c' = sip c"
  by (auto simp: core_control_def Control_on_read_def bindO_eq_Inr_iff dest!: controlRequestHandler_sip
      split: read_event.splits option.splits)

lemma answerCall_parser: "answerCall nl ch tag contact sdp i = Inr (r, i') \<Longrightarrow> udpParser i' = udpParser i"
  using answerCall_effect [of nl ch tag contact sdp i r i'] by (auto simp: effect_def)

lemma mediaResponseHandler_inv:
  assumes "mediaResponseHandler nl writer m c = Inr c'" and "core_inv nl c"
  shows "core_inv nl c'"
proof (cases m)
  case (MediaResponse b code msg r)
  show ?thesis
  proof (cases r)
    case (MediaAllocateResponse n ans)
    then obtain q i where a: "answerCall nl (mediaCallbackId b) ''TBC-TEST-TAG'' ''TBC-TEST-CONTACT'' ans (sip c) = Inr (q, i)"
      and c': "c' = c\<lparr>theresourceId := n, sip := i\<rparr>"
      using assms(1) MediaResponse by (auto simp: mediaResponseHandler_def bindO_eq_Inr_iff)
    have "sip_reachable nl i"
      using assms(2) sip_step.answer [OF a] by (auto simp: core_inv_def intro: sip_reachable.step)
    then show ?thesis
      using assms(2) answerCall_parser [OF a] by (simp add: core_inv_def c')
  qed (use assms MediaResponse in \<open>auto simp: mediaResponseHandler_def core_inv_def dest!: notify_sip\<close>)
qed (use assms in \<open>simp add: mediaResponseHandler_def\<close>)

lemma core_step_inv:
  assumes "core_step nl reader writer c c'" and "core_inv nl c"
  shows "core_inv nl c'"
  using assms(1)
proof cases
  case (datagram fresh dest bytes_read mem)
  then obtain i where i: "onUdpRecv nl fresh dest bytes_read mem (sip c) = Some (Inr i)" "after_sip writer i c = Inr c'"
    by (auto simp: core_datagram_def bindO_eq_Inr_iff split: option.splits)
  then have "sip c' = i"
    using after_sip_total [of writer i c] by auto
  then show ?thesis
    using udp_keeps_reachable [OF _ _ datagram(1,2) i(1)] assms(2) datagram(4) unfolding core_inv_def by metis
next
  case (control stream ev)
  then show ?thesis using assms(2) core_control_sip core_inv_sip by blast
next
  case (media ev)
  then show ?thesis
    using assms(2) mediaResponseHandler_inv [of nl writer _ c c']
    by (fastforce simp: core_media_def MediaClient_on_read_def bindO_eq_Inr_iff split: read_event.splits option.splits if_splits)
next
  case (connect status)
  then show ?thesis
    using assms(2) by (auto simp: media_on_connect_def core_inv_def bindO_eq_Inr_iff split: if_splits dest!: PostRequest_sip)
qed

lemma core_reachable_inv: "core_reachable nl reader writer c \<Longrightarrow> core_inv nl c"
proof (induction rule: core_reachable.induct)
  case start
  then show ?case
    using sip_reachable.start by (simp add: core_inv_def new_core_def) (simp add: new_sip_interface_def new_sip_parser_def parser_plain_def)
next
  case (step c c')
  then show ?case by (blast intro: core_step_inv)
qed

section \<open>Messages of the controller that end the process\<close>

lemma nothing_is_no_document: "json_read to_double slack [] = Inr None"
proof -
  let ?s = "document_copy slack []"
  have "skipSpaces ?s = ?s" "deref ?s = NUL"
    by (simp_all add: document_copy_def skipSpaces_def deref_def)
  then have "\<exists>tx r. readToken ?s = (tokenEndOfStream, tx, r)"
    by (cases "token_from NUL (tl ?s)") (auto simp: readToken_def Let_def dest: token_from_NUL)
  then obtain tx r where "readToken ?s = (tokenEndOfStream, tx, r)" by blast
  then have tok: "skipCommentTokens ?s = (tokenEndOfStream, tx, r)"
    by (simp add: skipCommentTokens.simps)
  obtain k where k: "stackLimit = Suc k" by (cases stackLimit) (simp_all add: stackLimit_def)
  have "readValue to_double stackLimit ?s = Some (Inr (None, r))"
    unfolding k readValue.simps(2) tok by simp
  then show ?thesis
    by (simp add: json_read_def Reader_parse_def)
qed

abbreviation unknown_request :: "string \<Rightarrow> json" where
  "unknown_request mth \<equiv> json_object [(''type'', JString ''request''), (''method'', JString mth)] JNull"

text \<open>
  C38: A controller message with a method the core does not know ends in a call through the null pointer, and
  so does a read of no bytes, which is no error of the stream.
\<close>

theorem unusable_control_message_faults:
  assumes "c_str mth \<notin> {''callCount'', ''answerCall'', ''recordCall'', ''clearCall'', ''login'', ''sendRingback'', ''sendProgress''}"
  shows "core_control nl (json_read to_double slack) fast_write stream (ReadBytes (fast_write (unknown_request mth))) c = Inl NullDeref \<and>
    core_control nl (json_read to_double slack) fast_write stream (ReadBytes []) c = Inl NullDeref"
proof
  have ok: "json_ok 1000 (unknown_request mth)"
    by (rule json_ok_mono [of "Suc (Suc 0)"]) simp_all
  have "request_of_json (unknown_request mth) = Inr None"
    using assms by (simp add: request_of_json_def member_defs)
  then show "core_control nl (json_read to_double slack) fast_write stream (ReadBytes (fast_write (unknown_request mth))) c = Inl NullDeref"
    using jsoncpp.reads_back [OF ok] by (simp add: core_control_def Control_on_read_def control_build_request_def)
  show "core_control nl (json_read to_double slack) fast_write stream (ReadBytes []) c = Inl NullDeref"
    using nothing_is_no_document by (simp add: core_control_def Control_on_read_def control_build_request_def c_str_def)
qed

theorem unusable_control_message_faults_witness:
  "\<forall>nl. core_control nl (json_read (\<lambda>_. None) (\<lambda>_. [])) fast_write 7 (ReadBytes (fast_write (unknown_request ''makeCall''))) new_core = Inl NullDeref \<and>
    core_control nl (json_read (\<lambda>_. None) (\<lambda>_. [])) fast_write 7 (ReadBytes []) new_core = Inl NullDeref"
  by (rule allI, rule unusable_control_message_faults) (simp add: c_str_def)

end
