(* ===== verification/Sdp.thy ===== *)
theory Sdp
  imports SipHeaders
begin

text \<open>
  Session descriptions (\<^verbatim>\<open>sdp/\<close>): the lines, the description object with its streams, its parser and
  its two printers. \<^verbatim>\<open>std::ostream\<close> prints the unsigned members in decimal. Members the constructors
  leave unset are \<^const>\<open>None\<close>, printing one is \<^const>\<open>Indeterminate\<close>.

  The constructor of a description from bytes logs before anything set its logger, and no constructor of a
  stream sets one that is used: \<open>nl\<close> is what their log calls do. A description that exists has its logger, as
  the other constructors set it and this one does not return without it.
\<close>

section \<open>Types of the fields\<close>

datatype addr_type = IPV4 | IPV6

definition addr_toString :: "addr_type \<Rightarrow> string" where
  "addr_toString t = (case t of IPV4 \<Rightarrow> ''IP4'' | IPV6 \<Rightarrow> ''IP6'')"

definition SdpAddrType :: "mapped_buffer \<Rightarrow> addr_type" where
  "SdpAddrType value =
     (let buffer = buffer_trim value NUL
      in if buffer_equals buffer ''IP4'' False then IPV4
         else if buffer_equals buffer ''IP6'' False then IPV6
         else IPV4)"

datatype sdp_media_type = Media_unknown | Media_audio | Media_video | Media_text | Media_application | Media_message

definition media_type_toString :: "sdp_media_type \<Rightarrow> string" where
  "media_type_toString t =
     (case t of
        Media_audio \<Rightarrow> ''audio''
      | Media_video \<Rightarrow> ''video''
      | Media_text \<Rightarrow> ''text''
      | Media_application \<Rightarrow> ''application''
      | Media_message \<Rightarrow> ''message''
      | Media_unknown \<Rightarrow> ''unknown'')"

definition SdpMediaType :: "mapped_buffer \<Rightarrow> sdp_media_type" where
  "SdpMediaType value =
     (let buffer = buffer_trim value NUL
      in if buffer_equals buffer ''audio'' False then Media_audio
         else if buffer_equals buffer ''video'' False then Media_video
         else if buffer_equals buffer ''text'' False then Media_text
         else if buffer_equals buffer ''application'' False then Media_application
         else if buffer_equals buffer ''message'' False then Media_message
         else Media_unknown)"

datatype sdp_protocol = Proto_udp | Proto_rtp | Proto_srtp

definition protocol_toString :: "sdp_protocol \<Rightarrow> string" where
  "protocol_toString t = (case t of Proto_udp \<Rightarrow> ''UDP'' | Proto_rtp \<Rightarrow> ''RTP/AVP'' | Proto_srtp \<Rightarrow> ''RTP/SAVP'')"

definition SdpProtocolType :: "mapped_buffer \<Rightarrow> sdp_protocol" where
  "SdpProtocolType value =
     (let protocolType = buffer_trim value NUL
      in if buffer_equals protocolType ''RTP/AVP'' False then Proto_rtp
         else if buffer_equals protocolType ''RTP/SAVP'' False then Proto_srtp
         else if buffer_equals protocolType ''UDP'' False then Proto_udp
         else Proto_rtp)"

datatype sdp_attribute_type =
  Attr_none | Attr_rtpmap | Attr_ptime | Attr_recvonly | Attr_sendonly | Attr_sendrecv | Attr_inactive | Attr_orient
| Attr_conferencetype | Attr_lang | Attr_sdplang | Attr_framerate | Attr_quality | Attr_fmtp

definition attribute_type_toString :: "sdp_attribute_type \<Rightarrow> string" where
  "attribute_type_toString t =
     (case t of
        Attr_rtpmap \<Rightarrow> ''rtpmap''
      | Attr_ptime \<Rightarrow> ''ptime''
      | Attr_recvonly \<Rightarrow> ''recvonly''
      | Attr_sendonly \<Rightarrow> ''sendonly''
      | Attr_sendrecv \<Rightarrow> ''sendrecv''
      | Attr_inactive \<Rightarrow> ''inactive''
      | Attr_orient \<Rightarrow> ''orient''
      | Attr_conferencetype \<Rightarrow> ''conferencetype''
      | Attr_lang \<Rightarrow> ''lang''
      | Attr_sdplang \<Rightarrow> ''sdplang''
      | Attr_framerate \<Rightarrow> ''framerate''
      | Attr_quality \<Rightarrow> ''quality''
      | Attr_fmtp \<Rightarrow> ''fmtp''
      | Attr_none \<Rightarrow> ''none'')"

definition SdpAttributeType :: "mapped_buffer \<Rightarrow> sdp_attribute_type" where
  "SdpAttributeType value =
     (let buffer = buffer_trim value NUL
      in if buffer_equals buffer ''rtpmap'' False then Attr_rtpmap
         else if buffer_equals buffer ''ptime'' False then Attr_ptime
         else if buffer_equals buffer ''recvonly'' False then Attr_recvonly
         else if buffer_equals buffer ''sendonly'' False then Attr_sendonly
         else if buffer_equals buffer ''sendrecv'' False then Attr_sendrecv
         else if buffer_equals buffer ''inactive'' False then Attr_inactive
         else if buffer_equals buffer ''orient'' False then Attr_orient
         else if buffer_equals buffer ''conferencetype'' False then Attr_conferencetype
         else if buffer_equals buffer ''lang'' False then Attr_lang
         else if buffer_equals buffer ''sdplang'' False then Attr_sdplang
         else if buffer_equals buffer ''framerate'' False then Attr_framerate
         else if buffer_equals buffer ''quality'' False then Attr_quality
         else if buffer_equals buffer ''fmtp'' False then Attr_fmtp
         else Attr_none)"

text \<open>Payload formats. \<open>setFmt\<close> leaves the member as it was for a number it does not know.\<close>

datatype sdp_fmt = Fmt_PCMU | Fmt_G723 | Fmt_PCMA | Fmt_G722 | Fmt_G729 | Fmt_DTMF | Fmt_CUSTOM

definition getFmtNumber :: "sdp_fmt \<Rightarrow> u16" where
  "getFmtNumber f =
     (case f of Fmt_PCMU \<Rightarrow> 0 | Fmt_G723 \<Rightarrow> 4 | Fmt_PCMA \<Rightarrow> 8 | Fmt_G722 \<Rightarrow> 9 | Fmt_G729 \<Rightarrow> 18 | Fmt_DTMF \<Rightarrow> 101
      | Fmt_CUSTOM \<Rightarrow> 120)"

definition fmt_toString :: "sdp_fmt \<Rightarrow> string" where
  "fmt_toString f =
     (case f of
        Fmt_PCMU \<Rightarrow> ''PCMU''
      | Fmt_G723 \<Rightarrow> ''G723''
      | Fmt_PCMA \<Rightarrow> ''PCMA''
      | Fmt_G729 \<Rightarrow> ''G729''
      | Fmt_G722 \<Rightarrow> ''G722''
      | Fmt_DTMF \<Rightarrow> ''DTMF''
      | Fmt_CUSTOM \<Rightarrow> ''CUSTOM'')"

definition setFmt :: "u16 \<Rightarrow> sdp_fmt option \<Rightarrow> sdp_fmt option" where
  "setFmt fmtId fmt =
     (if fmtId = 0 then Some Fmt_PCMU
      else if fmtId = 8 then Some Fmt_PCMA
      else if fmtId = 18 then Some Fmt_G729
      else if fmtId = 9 then Some Fmt_G722
      else if fmtId = 101 then Some Fmt_DTMF
      else if fmtId = 120 then Some Fmt_CUSTOM
      else fmt)"

definition SdpFormatType :: "u16 \<Rightarrow> sdp_fmt option" where
  "SdpFormatType fmtId = setFmt fmtId None"

datatype format_descriptor = PayloadFormat | FormatParameter

record sdp_format =
  formatId :: u8
  formatDescriptor :: format_descriptor

definition SdpFormat :: "u8 \<Rightarrow> sdp_format" where
  "SdpFormat n = \<lparr>formatId = n, formatDescriptor = PayloadFormat\<rparr>"

definition getFormatName :: "u8 \<Rightarrow> string" where
  "getFormatName n = (if n = 0 then ''PCMU'' else if n = 8 then ''PCMA'' else if n = 9 then ''G722'' else ''UNKNOWN'')"

definition getFmt :: "sdp_format \<Rightarrow> u16" where
  "getFmt f = ucast (formatId f)"

definition format_toString :: "sdp_format \<Rightarrow> string" where
  "format_toString f =
     ''a='' @ (if formatDescriptor f = PayloadFormat then ''rtpmap:'' else ''fmtp'') @ '' '' @
     getFormatName (formatId f) @ ''/8000''"

section \<open>The lines\<close>

record sdp_attribute =
  attrKey :: string
  attrValue :: string
  attrParameters :: string
  isPropertyAttribute :: bool

definition SdpAttributeLine :: "mapped_buffer \<Rightarrow> sdp_attribute outcome" where
  "SdpAttributeLine line =
     (case buffer_split_on_first (buffer_trim line NUL) (CHR '' '') of
        [] \<Rightarrow> Inl OutOfBounds
      | c # cs \<Rightarrow>
         (case buffer_split_on_first c (CHR '':'') of
            k # v # _ \<Rightarrow>
              Inr \<lparr>attrKey = bufferToString (buffer_trim k NUL),
                 attrValue = (if blen v = 0 then [] else bufferToString (buffer_trim v NUL)),
                 attrParameters = (case cs of [] \<Rightarrow> [] | ps # _ \<Rightarrow> bufferToString ps),
                 isPropertyAttribute = (blen v = 0)\<rparr>
          | _ \<Rightarrow> Inl OutOfBounds))"

definition attribute_line_toString :: "sdp_attribute \<Rightarrow> string" where
  "attribute_line_toString a =
     attrKey a @ (if \<not> isPropertyAttribute a then CHR '':'' # attrValue a else []) @
     (if attrParameters a \<noteq> [] then CHR '' '' # attrParameters a else [])"

text \<open>\<open>SdpAttribute\<close>: from a line, from a name, and from three strings.\<close>

definition SdpAttribute_of_line :: "sdp_attribute \<Rightarrow> sdp_attribute" where
  "SdpAttribute_of_line line =
     \<lparr>attrKey = attrKey line, attrValue = attrValue line, attrParameters = attrParameters line,
      isPropertyAttribute = isPropertyAttribute line\<rparr>"

definition SdpAttribute_named :: "string \<Rightarrow> sdp_attribute" where
  "SdpAttribute_named key = \<lparr>attrKey = key, attrValue = [], attrParameters = [], isPropertyAttribute = True\<rparr>"

definition SdpAttribute_strings :: "string \<Rightarrow> string \<Rightarrow> string \<Rightarrow> sdp_attribute" where
  "SdpAttribute_strings key v params =
     \<lparr>attrKey = key, attrValue = v, attrParameters = params, isPropertyAttribute = (v = [])\<rparr>"

text \<open>The constructor from C strings: the value is present even when it is empty, the parameters may be null.\<close>

definition SdpAttribute_cstr :: "string \<Rightarrow> string \<Rightarrow> string option \<Rightarrow> sdp_attribute" where
  "SdpAttribute_cstr key v params =
     \<lparr>attrKey = key, attrValue = v, attrParameters = (case params of None \<Rightarrow> [] | Some p \<Rightarrow> p),
      isPropertyAttribute = False\<rparr>"

definition attribute_toString :: "sdp_attribute \<Rightarrow> string" where
  "attribute_toString a =
     ''a='' @ attrKey a @ (if \<not> isPropertyAttribute a then CHR '':'' # attrValue a else []) @
     (if attrParameters a \<noteq> [] then CHR '' '' # attrParameters a else [])"

text \<open>What the printers put between quotation marks is not escaped.\<close>

definition quoted :: "string \<Rightarrow> string" where
  "quoted s = QUOTE # s @ [QUOTE]"

definition attribute_toJson :: "sdp_attribute \<Rightarrow> string" where
  "attribute_toJson a =
     ''{'' @ quoted ''name'' @ '':'' @ quoted (attrKey a) @ '','' @ quoted ''value'' @ '':'' @ quoted (attrValue a) @ '','' @
     quoted ''parameters'' @ '':'' @ quoted (attrParameters a) @ ''}''"

record sdp_connection =
  connAddress :: string
  connAddrType :: addr_type
  connNetType :: string

definition SdpConnectionLine :: "mapped_buffer \<Rightarrow> sdp_connection outcome" where
  "SdpConnectionLine line =
     (case buffer_split line (CHR '' '') of
        n # t # a # _ \<Rightarrow> Inr \<lparr>connAddress = bufferToString a, connAddrType = SdpAddrType t, connNetType = bufferToString n\<rparr>
      | _ \<Rightarrow> Inl OutOfBounds)"

definition connection_line_toString :: "sdp_connection \<Rightarrow> string" where
  "connection_line_toString c = connNetType c @ '' '' @ addr_toString (connAddrType c) @ '' '' @ connAddress c"

definition SdpConnection :: "string \<Rightarrow> sdp_connection" where
  "SdpConnection address = \<lparr>connAddress = address, connAddrType = IPV4, connNetType = ''IN''\<rparr>"

definition SdpConnection_of_line :: "sdp_connection \<Rightarrow> sdp_connection" where
  "SdpConnection_of_line line =
     \<lparr>connAddress = connAddress line, connAddrType = connAddrType line, connNetType = connNetType line\<rparr>"

definition connection_toString :: "sdp_connection \<Rightarrow> string" where
  "connection_toString c =
     ''c='' @ connNetType c @ '' '' @ addr_toString (connAddrType c) @ '' '' @ connAddress c"

definition connection_toJson :: "sdp_connection \<Rightarrow> string" where
  "connection_toJson c =
     ''{'' @ quoted ''netType'' @ '':'' @ quoted (connNetType c) @ '','' @
     quoted ''addressType'' @ '':'' @ quoted (addr_toString (connAddrType c)) @ '','' @
     quoted ''address'' @ '':'' @ quoted (connAddress c) @ ''}''"

record sdp_origin_line =
  lineUsername :: string
  lineSessionId :: string
  lineSessionVersion :: "u32 option"
  lineNetType :: string
  lineAddrType :: addr_type
  lineAddress :: string

definition SdpOriginLine :: "mapped_buffer \<Rightarrow> sdp_origin_line" where
  "SdpOriginLine line =
     (case buffer_split line (CHR '' '') of
        [username, sid, version, net, addr, address] \<Rightarrow>
          \<lparr>lineUsername = bufferToString username, lineSessionId = bufferToString sid,
           lineSessionVersion = Some (word_of_int (toLongInteger version)), lineNetType = bufferToString net,
           lineAddrType = (if buffer_equals addr ''IP6'' False then IPV6 else IPV4), lineAddress = bufferToString address\<rparr>
      | _ \<Rightarrow>
          \<lparr>lineUsername = [], lineSessionId = [], lineSessionVersion = None, lineNetType = ''IN'',
           lineAddrType = IPV4, lineAddress = []\<rparr>)"

record sdp_origin =
  originUsername :: string
  originSessionId :: u64
  originSessionVersion :: "u32 option"
  originAddress :: string
  originAddrType :: addr_type
  originNetType :: string

text \<open>The default constructor takes the session id from the clock; \<^verbatim>\<open>strtoull\<close> is \<^const>\<open>strtoul\<close> here.\<close>

definition SdpOrigin_now :: "u64 \<Rightarrow> sdp_origin" where
  "SdpOrigin_now clock =
     \<lparr>originUsername = [], originSessionId = clock, originSessionVersion = None, originAddress = [],
      originAddrType = IPV4, originNetType = ''IN''\<rparr>"

definition origin_setSessionId_string :: "string \<Rightarrow> sdp_origin \<Rightarrow> sdp_origin" where
  "origin_setSessionId_string n o1 = o1\<lparr>originSessionId := of_nat (strtoul (c_str n))\<rparr>"

definition origin_setSessionId :: "u32 \<Rightarrow> sdp_origin \<Rightarrow> sdp_origin" where
  "origin_setSessionId n o1 = o1\<lparr>originSessionId := ucast n\<rparr>"

definition origin_getSessionId :: "sdp_origin \<Rightarrow> u32" where
  "origin_getSessionId o1 = ucast (originSessionId o1)"

definition SdpOrigin_strings :: "string \<Rightarrow> string \<Rightarrow> u32 \<Rightarrow> string \<Rightarrow> sdp_origin" where
  "SdpOrigin_strings username sid version address =
     origin_setSessionId_string sid
       \<lparr>originUsername = username, originSessionId = 0, originSessionVersion = Some version, originAddress = address,
        originAddrType = IPV4, originNetType = ''IN''\<rparr>"

definition SdpOrigin_of_line :: "sdp_origin_line \<Rightarrow> sdp_origin" where
  "SdpOrigin_of_line line =
     origin_setSessionId_string (lineSessionId line)
       \<lparr>originUsername = lineUsername line, originSessionId = 0, originSessionVersion = lineSessionVersion line,
        originAddress = lineAddress line, originAddrType = lineAddrType line, originNetType = ''IN''\<rparr>"

definition show_word :: "'a::len word \<Rightarrow> string" where
  "show_word w = show_nat (unat w)"

definition origin_toString :: "sdp_origin \<Rightarrow> string outcome" where
  "origin_toString o1 =
     bindO (initialised (originSessionVersion o1)) (\<lambda>version.
       Inr (''o='' @ originUsername o1 @ '' '' @ show_word (originSessionId o1) @ '' '' @ show_word version @ '' '' @
         originNetType o1 @ '' '' @ addr_toString (originAddrType o1) @ '' '' @ originAddress o1))"

definition origin_toJson :: "sdp_origin \<Rightarrow> string outcome" where
  "origin_toJson o1 =
     bindO (initialised (originSessionVersion o1)) (\<lambda>version.
       Inr (''{'' @ quoted ''username'' @ '':'' @ quoted (originUsername o1) @ '','' @
         quoted ''sessionId'' @ '':'' @ show_word (originSessionId o1) @ '','' @
         quoted ''sessionVersion'' @ '':'' @ show_word version @ '','' @
         quoted ''networkType'' @ '':'' @ quoted (originNetType o1) @ '','' @
         quoted ''addressType'' @ '':'' @ quoted (addr_toString (originAddrType o1)) @ '','' @
         quoted ''address'' @ '':'' @ quoted (originAddress o1) @ ''}''))"

record sdp_timing =
  timeStart :: u32
  timeStop :: u32

definition SdpTiming_default :: sdp_timing where
  "SdpTiming_default = \<lparr>timeStart = 0, timeStop = 0\<rparr>"

definition SdpTiming :: "mapped_buffer \<Rightarrow> sdp_timing" where
  "SdpTiming line =
     (case buffer_split line (CHR '' '') of
        a # b # _ \<Rightarrow> \<lparr>timeStart = word_of_int (toLongInteger a), timeStop = word_of_int (toLongInteger b)\<rparr>
      | _ \<Rightarrow> SdpTiming_default)"

definition timing_toString :: "sdp_timing \<Rightarrow> string" where
  "timing_toString t = ''t='' @ show_word (timeStart t) @ '' '' @ show_word (timeStop t)"

definition timing_toJson :: "sdp_timing \<Rightarrow> string" where
  "timing_toJson t =
     ''{'' @ quoted ''start'' @ '': '' @ quoted (show_word (timeStart t)) @ '', '' @
     quoted ''end'' @ '': '' @ quoted (show_word (timeStop t)) @ ''}''"

text \<open>Session name and version are their text; the defaults are \<^verbatim>\<open>-\<close> and \<^verbatim>\<open>0\<close>.\<close>

definition SdpSession :: "mapped_buffer \<Rightarrow> string" where
  "SdpSession line = bufferToString line"

definition session_toString :: "string \<Rightarrow> string" where
  "session_toString name = ''s='' @ name"

definition session_toJson :: "string \<Rightarrow> string" where
  "session_toJson name = ''{'' @ quoted ''name'' @ '':'' @ quoted name @ ''}''"

definition version_toString :: "string \<Rightarrow> string" where
  "version_toString v = ''v='' @ v"

definition version_toJson :: "string \<Rightarrow> string" where
  "version_toJson v = ''{'' @ quoted ''version'' @ '':'' @ quoted v @ ''}''"

section \<open>Media streams\<close>

record sdp_media_line =
  lineType :: sdp_media_type
  linePort :: "u16 option"
  linePortCount :: u16
  lineProtocol :: sdp_protocol
  lineFormats :: "u16 list"

definition SdpMediaLine :: "mapped_buffer \<Rightarrow> sdp_media_line outcome" where
  "SdpMediaLine line =
     (case buffer_split line (CHR '' '') of
        t # prt # proto # f # fs \<Rightarrow>
         (case buffer_split prt (CHR ''/'') of
            [] \<Rightarrow> Inl OutOfBounds
          | p # ps \<Rightarrow>
             Inr \<lparr>lineType = SdpMediaType t, linePort = Some (of_nat (toUnsignedLongInteger p)),
               linePortCount = (case ps of [] \<Rightarrow> 1 | n # _ \<Rightarrow> of_nat (toUnsignedLongInteger n)),
               lineProtocol = SdpProtocolType proto, lineFormats = map toUnsignedShortInteger (f # fs)\<rparr>)
      | _ \<Rightarrow> Inr \<lparr>lineType = Media_audio, linePort = None, linePortCount = 1, lineProtocol = Proto_rtp, lineFormats = []\<rparr>)"

definition media_line_toString :: "sdp_media_line \<Rightarrow> string outcome" where
  "media_line_toString m =
     bindO (initialised (linePort m)) (\<lambda>prt.
       Inr (media_type_toString (lineType m) @ '' '' @ show_word prt @ '' '' @ protocol_toString (lineProtocol m) @
         concat (map (\<lambda>f. CHR '' '' # show_word f) (lineFormats m))))"

record sdp_media =
  mediaType :: sdp_media_type
  mediaPort :: "u16 option"
  mediaProtocol :: sdp_protocol
  mediaFormats :: "sdp_format list"
  mediaAttributes :: "sdp_attribute list"

definition SdpMedia :: "sdp_media_type \<Rightarrow> u16 \<Rightarrow> sdp_protocol \<Rightarrow> sdp_media" where
  "SdpMedia t prt proto =
     \<lparr>mediaType = t, mediaPort = Some prt, mediaProtocol = proto, mediaFormats = [], mediaAttributes = []\<rparr>"

text \<open>From a line: the formats of the line are not taken over.\<close>

definition SdpMedia_of_line :: "sdp_media_line \<Rightarrow> sdp_media" where
  "SdpMedia_of_line line =
     \<lparr>mediaType = lineType line, mediaPort = linePort line, mediaProtocol = lineProtocol line, mediaFormats = [],
      mediaAttributes = []\<rparr>"

definition hasFormat :: "u16 \<Rightarrow> sdp_media \<Rightarrow> bool outcome" where
  "hasFormat fmtId m =
     (if mediaFormats m = [] then Inr False
      else bindO (initialised (SdpFormatType fmtId)) (\<lambda>t.
        Inr (\<exists>f \<in> set (mediaFormats m). getFmt f = getFmtNumber t)))"

text \<open>A format the stream has already is logged, and added all the same.\<close>

definition media_addFormat :: "logging \<Rightarrow> sdp_format \<Rightarrow> sdp_media \<Rightarrow> sdp_media outcome" where
  "media_addFormat nl f m =
     bindO (hasFormat (getFmt f) m) (\<lambda>present.
     bindO (if present then nl else Inr ()) (\<lambda>_. Inr (m\<lparr>mediaFormats := mediaFormats m @ [f]\<rparr>)))"

definition media_addAttribute :: "sdp_attribute \<Rightarrow> sdp_media \<Rightarrow> sdp_media" where
  "media_addAttribute a m = m\<lparr>mediaAttributes := mediaAttributes m @ [a]\<rparr>"

definition media_addAttribute_cstr :: "logging \<Rightarrow> string \<Rightarrow> string \<Rightarrow> string option \<Rightarrow> sdp_media \<Rightarrow>
    sdp_media outcome" where
  "media_addAttribute_cstr nl key v params m =
     bindO nl (\<lambda>_. Inr (m\<lparr>mediaAttributes := mediaAttributes m @ [SdpAttribute_cstr key v params]\<rparr>))"

definition media_toString :: "sdp_media \<Rightarrow> string outcome" where
  "media_toString m =
     bindO (initialised (mediaPort m)) (\<lambda>prt.
       Inr (''m='' @ media_type_toString (mediaType m) @ '' '' @ show_word prt @ '' '' @ protocol_toString (mediaProtocol m) @
         concat (map (\<lambda>f. CHR '' '' # show_word (getFmt f)) (mediaFormats m)) @
         concat (map (\<lambda>a. CRLF @ attribute_toString a) (mediaAttributes m))))"

fun separated :: "string \<Rightarrow> string list \<Rightarrow> string" where
  "separated sep [] = []"
| "separated sep [s] = s"
| "separated sep (s # t # ts) = s @ sep @ separated sep (t # ts)"

definition media_toJson :: "sdp_media \<Rightarrow> string outcome" where
  "media_toJson m =
     bindO (initialised (mediaPort m)) (\<lambda>prt.
       Inr (''{'' @ quoted ''type'' @ '':'' @ quoted (media_type_toString (mediaType m)) @ '','' @
         quoted ''port'' @ '':'' @ show_word prt @ '','' @
         quoted ''protocol'' @ '':'' @ quoted (protocol_toString (mediaProtocol m)) @ '','' @
         quoted ''attribute'' @ '':['' @
         separated '','' (map (\<lambda>a. CRLF @ attribute_toJson a) (mediaAttributes m)) @ '']}''))"

section \<open>The description\<close>

record sdp =
  streamCount :: u8
  sdpVersion :: string
  sdpOrigin :: sdp_origin
  sdpSession :: string
  sdpConnection :: sdp_connection
  sdpTiming :: sdp_timing
  sdpAttributes :: "sdp_attribute list"
  sdpMedia :: "sdp_media list"

definition new_sdp :: "u64 \<Rightarrow> sdp" where
  "new_sdp clock =
     \<lparr>streamCount = 0, sdpVersion = ''0'', sdpOrigin = SdpOrigin_now clock, sdpSession = ''-'',
      sdpConnection = SdpConnection [], sdpTiming = SdpTiming_default, sdpAttributes = [], sdpMedia = []\<rparr>"

definition setOrigin :: "sdp_origin \<Rightarrow> sdp \<Rightarrow> sdp" where
  "setOrigin o1 s = s\<lparr>sdpOrigin := o1\<rparr>"

definition setConnection :: "sdp_connection \<Rightarrow> sdp \<Rightarrow> sdp" where
  "setConnection c s = s\<lparr>sdpConnection := c\<rparr>"

definition setSessionId :: "u32 \<Rightarrow> sdp \<Rightarrow> sdp" where
  "setSessionId n s = s\<lparr>sdpOrigin := origin_setSessionId n (sdpOrigin s)\<rparr>"

definition getSessionId :: "sdp \<Rightarrow> u32" where
  "getSessionId s = origin_getSessionId (sdpOrigin s)"

definition addMediaStream :: "sdp_media \<Rightarrow> sdp \<Rightarrow> u16 \<times> sdp" where
  "addMediaStream m s =
     (let s = s\<lparr>streamCount := streamCount s + 1, sdpMedia := sdpMedia s @ [m]\<rparr> in (ucast (streamCount s), s))"

text \<open>The line is printed for the log, also one whose port was never set.\<close>

definition addMediaStream_line :: "logging \<Rightarrow> sdp_media_line \<Rightarrow> sdp \<Rightarrow> (u16 \<times> sdp) outcome" where
  "addMediaStream_line nl line s =
     bindO (media_line_toString line) (\<lambda>_.
     bindO nl (\<lambda>_.
       let s = s\<lparr>streamCount := streamCount s + 1, sdpMedia := sdpMedia s @ [SdpMedia_of_line line]\<rparr>
       in Inr (ucast (streamCount s), s)))"

text \<open>
  A stream is addressed by its number from 1. The guard compares with the 8-bit count, the access is
  to the vector. A number that is too high is logged; \<open>lg\<close> is what the call through the logger of the
  description does.
\<close>

definition at_stream :: "logging \<Rightarrow> u16 \<Rightarrow> (sdp_media \<Rightarrow> sdp_media outcome) \<Rightarrow> sdp \<Rightarrow> sdp outcome" where
  "at_stream lg streamId f s =
     (let mediaIndex = unat (streamId - 1)
      in if mediaIndex \<ge> unat (streamCount s) then bindO lg (\<lambda>_. Inr s)
         else if mediaIndex < length (sdpMedia s) then
           bindO (f (sdpMedia s ! mediaIndex)) (\<lambda>m. Inr (s\<lparr>sdpMedia := (sdpMedia s)[mediaIndex := m]\<rparr>))
         else Inl OutOfBounds)"

definition addAttribute_line :: "logging \<Rightarrow> u16 \<Rightarrow> sdp_attribute \<Rightarrow> sdp \<Rightarrow> sdp outcome" where
  "addAttribute_line nl streamId line s =
     (if streamId = 0 then Inr (s\<lparr>sdpAttributes := sdpAttributes s @ [SdpAttribute_of_line line]\<rparr>)
      else at_stream nl streamId (\<lambda>m. Inr (media_addAttribute (SdpAttribute_of_line line) m)) s)"

definition addFormat :: "logging \<Rightarrow> u16 \<Rightarrow> sdp_format \<Rightarrow> sdp \<Rightarrow> sdp outcome" where
  "addFormat nl streamId f s = at_stream (Inr ()) streamId (media_addFormat nl f) s"

definition addAttribute :: "sdp_attribute \<Rightarrow> sdp \<Rightarrow> sdp" where
  "addAttribute a s = s\<lparr>sdpAttributes := sdpAttributes s @ [a]\<rparr>"

definition addAttribute_strings :: "string \<Rightarrow> string \<Rightarrow> string \<Rightarrow> sdp \<Rightarrow> sdp" where
  "addAttribute_strings name v params s =
     s\<lparr>sdpAttributes := sdpAttributes s @ [SdpAttribute_strings name v params]\<rparr>"

definition addAttribute_named :: "string \<Rightarrow> sdp \<Rightarrow> sdp" where
  "addAttribute_named name s = s\<lparr>sdpAttributes := sdpAttributes s @ [SdpAttribute_named name]\<rparr>"

definition addAttribute_to_stream :: "u16 \<Rightarrow> string \<Rightarrow> string \<Rightarrow> string \<Rightarrow> sdp \<Rightarrow> sdp outcome" where
  "addAttribute_to_stream streamId name v params s =
     at_stream (Inr ()) streamId (\<lambda>m. Inr (media_addAttribute (SdpAttribute_strings name v params) m)) s"

definition addAttribute_named_to_stream :: "u16 \<Rightarrow> string \<Rightarrow> sdp \<Rightarrow> sdp outcome" where
  "addAttribute_named_to_stream streamId name s =
     at_stream (Inr ()) streamId (\<lambda>m. Inr (media_addAttribute (SdpAttribute_named name) m)) s"

definition MaxSdpBodyLength :: nat where "MaxSdpBodyLength = 4096"

text \<open>
  One line of a body, and the constructor from the bytes of a body. It first makes a string of all the bytes
  for the log; a line it does not understand is logged.
\<close>

definition load_value :: "logging \<Rightarrow> char \<Rightarrow> mapped_buffer \<Rightarrow> sdp \<Rightarrow> sdp outcome" where
  "load_value nl c v s =
     (if c = CHR ''o'' then Inr (s\<lparr>sdpOrigin := SdpOrigin_of_line (SdpOriginLine v)\<rparr>)
      else if c = CHR ''v'' then Inr s
      else if c = CHR ''s'' then Inr (s\<lparr>sdpSession := SdpSession v\<rparr>)
      else if c = CHR ''c'' then
        bindO (SdpConnectionLine v) (\<lambda>l. Inr (s\<lparr>sdpConnection := SdpConnection_of_line l\<rparr>))
      else if c = CHR ''t'' then Inr (s\<lparr>sdpTiming := SdpTiming v\<rparr>)
      else if c = CHR ''m'' then
        bindO (SdpMediaLine v) (\<lambda>l. bindO (addMediaStream_line nl l s) (\<lambda>(_, s). Inr s))
      else if c = CHR ''a'' then
        bindO (SdpAttributeLine v) (\<lambda>l. addAttribute_line nl (ucast (streamCount s)) l s)
      else bindO nl (\<lambda>_. Inr s))"

definition load_line :: "logging \<Rightarrow> mapped_buffer \<Rightarrow> sdp \<Rightarrow> sdp outcome" where
  "load_line nl line s =
     (case buffer_split_on_first line (CHR ''='') of
        [k, v] \<Rightarrow> load_value nl (tolower (deref (buf k))) v s
      | _ \<Rightarrow> bindO nl (\<lambda>_. Inr s))"

fun load_lines :: "logging \<Rightarrow> mapped_buffer list \<Rightarrow> sdp \<Rightarrow> sdp outcome" where
  "load_lines nl [] s = Inr s"
| "load_lines nl (l # ls) s = bindO (load_line nl l s) (load_lines nl ls)"

definition Sdp :: "logging \<Rightarrow> u64 \<Rightarrow> string \<Rightarrow> nat \<Rightarrow> sdp outcome" where
  "Sdp nl clock rawSdpBodyData sz =
     (if sz \<le> length rawSdpBodyData then
        bindO nl (\<lambda>_.
          let dataSize = (if sz < MaxSdpBodyLength then sz else MaxSdpBodyLength)
          in load_lines nl (buffer_split_lines (view rawSdpBodyData dataSize)) (new_sdp clock))
      else Inl OutOfBounds)"

lemma Sdp_nl: "sz \<le> length raw \<Longrightarrow> Sdp nl clock raw sz = bindO nl (\<lambda>_. Sdp (Inr ()) clock raw sz)"
  by (cases nl) (simp_all add: Sdp_def)

fun print_all :: "('a \<Rightarrow> string outcome) \<Rightarrow> 'a list \<Rightarrow> string list outcome" where
  "print_all f [] = Inr []"
| "print_all f (x # xs) = bindO (f x) (\<lambda>s. bindO (print_all f xs) (\<lambda>ss. Inr (s # ss)))"

text \<open>The streams that are printed are those below the 8-bit count; the vector is at least as long.\<close>

definition sdp_toString :: "sdp \<Rightarrow> string outcome" where
  "sdp_toString s =
     bindO (origin_toString (sdpOrigin s)) (\<lambda>o1.
     bindO (print_all media_toString (take (unat (streamCount s)) (sdpMedia s))) (\<lambda>ms.
     if unat (streamCount s) \<le> length (sdpMedia s) then
       Inr (version_toString (sdpVersion s) @ CRLF @ o1 @ CRLF @ session_toString (sdpSession s) @ CRLF @
         connection_toString (sdpConnection s) @ CRLF @ timing_toString (sdpTiming s) @ CRLF @
         concat (map (\<lambda>a. attribute_toString a @ CRLF) (sdpAttributes s)) @ concat (map (\<lambda>m. m @ CRLF) ms))
     else Inl OutOfBounds))"

definition sdp_toJson :: "sdp \<Rightarrow> string outcome" where
  "sdp_toJson s =
     bindO (origin_toJson (sdpOrigin s)) (\<lambda>o1.
     bindO (print_all media_toJson (take (unat (streamCount s)) (sdpMedia s))) (\<lambda>ms.
     if unat (streamCount s) \<le> length (sdpMedia s) then
       Inr (''{'' @ quoted ''version'' @ '':'' @ version_toJson (sdpVersion s) @ '','' @ quoted ''owner'' @ '':'' @ o1 @ '','' @
         quoted ''session'' @ '':'' @ session_toJson (sdpSession s) @ '','' @
         quoted ''connection'' @ '':'' @ connection_toJson (sdpConnection s) @ '','' @
         quoted ''time'' @ '':'' @ timing_toJson (sdpTiming s) @ '','' @
         concat (map (\<lambda>a. attribute_toJson a @ '','') (sdpAttributes s)) @
         quoted ''media'' @ '':['' @ separated '','' ms @ '']}'')
     else Inl OutOfBounds))"

end
