(* ===== verification/SdpText.thy ===== *)
theory SdpText
  imports Sdp
begin

text \<open>
  Printing a session description and reading it back. \<open>printable\<close> says which descriptions the text can
  carry; \<open>read_back\<close> is what the reader makes of one, which is the description without its payload
  formats.
\<close>

section \<open>Words separated by spaces\<close>

definition word :: "string \<Rightarrow> bool" where
  "word w \<longleftrightarrow> w \<noteq> [] \<and> NUL \<notin> set w \<and> (\<forall>c \<in> set w. \<not> isspace c)"

lemma isspace_chars: "isspace (CHR '' '')" "isspace CR" "isspace LF"
  by (simp_all add: isspace_def char_code_def)

lemma word_char:
  assumes "word w"
  shows "w \<noteq> []" "NUL \<notin> set w" "CHR '' '' \<notin> set w" "CR \<notin> set w" "LF \<notin> set w"
  using assms isspace_chars by (auto simp: word_def)

lemma word_digits: "word (show_nat n)"
  using show_nat_digits [of n] by (auto simp: word_def isdigit_not_isspace)

lemma tokens_words:
  assumes "\<forall>w \<in> set ws. word w" and "ws \<noteq> []"
  shows "tokens (\<lambda>c. c = CHR '' '' \<or> c = NUL) (separated '' '' ws) = ws"
  using assms
proof (induction "'' ''" ws rule: separated.induct)
  case (2 s)
  then show ?case using word_char [of s] by (auto intro!: tokens_last_word)
next
  case (3 s t ts)
  then have "tokens (\<lambda>c. c = CHR '' '' \<or> c = NUL) (s @ CHR '' '' # separated '' '' (t # ts)) =
      s # tokens (\<lambda>c. c = CHR '' '' \<or> c = NUL) (separated '' '' (t # ts))"
    using word_char [of s] by (intro tokens_word) auto
  then show ?case using 3 by simp
qed simp

lemma split_words:
  assumes "line_view v" and "toString v = separated '' '' ws" and "\<forall>w \<in> set ws. word w" and "ws \<noteq> []"
  shows "map toString (buffer_split v (CHR '' '')) = ws" and "\<forall>u \<in> set (buffer_split v (CHR '' '')). line_view u"
proof -
  have "\<not> isdigit (CHR '' '')" by (simp add: isdigit_def char_code_def)
  from split_line_view [OF assms(1) this]
  show "map toString (buffer_split v (CHR '' '')) = ws" "\<forall>u \<in> set (buffer_split v (CHR '' '')). line_view u"
    using tokens_words [OF assms(3,4)] assms(2) by auto
qed

text \<open>Numbers read from a line view.\<close>

lemma long_read: "line_view v \<Longrightarrow> toString v = show_nat n \<Longrightarrow> n < 2 ^ 63 \<Longrightarrow> toLongInteger v = int n"
  by (simp add: line_view_def toLongInteger_show_nat)

lemma unsigned_read:
  assumes "line_view v" and "toString v = show_nat n" and "n < 2 ^ 64"
  shows "toUnsignedLongInteger v = n"
proof -
  have wf: "view_wf v" and ended: "view_ended v"
    using assms(1) by (simp_all add: line_view_def)
  have "buf v = show_nat n @ drop (blen v) (buf v)"
    using assms(2) append_take_drop_id [of "blen v" "buf v"] by (simp add: toString_def)
  moreover have "blen v \<noteq> 0"
    using assms(2) show_nat_not_Nil [of n] by (cases "blen v") (auto simp: toString_def)
  ultimately show ?thesis
    using strtoul_show_nat [OF assms(3), of "drop (blen v) (buf v)"] ended
    by (simp add: toUnsignedLongInteger_def view_ended_def)
qed

lemma view_equals:
  "line_view v \<Longrightarrow> NUL \<notin> set s \<Longrightarrow> buffer_equals v s False \<longleftrightarrow> map toupper (toString v) = map toupper s"
  by (simp add: line_view_def buffer_equals_iff fold_case_def)

lemma trim_word:
  assumes "view_wf v" and "word (toString v)"
  shows "toString (buffer_trim v NUL) = toString v" and "view_wf (buffer_trim v NUL)"
proof -
  have "\<not> isspace (hd (toString v))" "\<not> isspace (last (toString v))" "toString v \<noteq> []"
    using assms(2) by (auto simp: word_def)
  then have "dropWhile isspace (toString v) = toString v" "strip_back isspace (toString v) = toString v"
    by (cases "toString v", simp_all) (simp add: strip_back_id)
  then show "toString (buffer_trim v NUL) = toString v"
    using assms(1) by (simp add: buffer_trim_def buffer_trim_front_text buffer_trim_back_text trim_char_NUL)
  show "view_wf (buffer_trim v NUL)" using assms(1) by simp
qed

lemma trimmed_equals:
  assumes "line_view v" and "word (toString v)" and "NUL \<notin> set s"
  shows "buffer_equals (buffer_trim v NUL) s False \<longleftrightarrow> map toupper (toString v) = map toupper s"
  using trim_word [of v] assms by (simp add: line_view_def buffer_equals_iff fold_case_def)

section \<open>The fields\<close>

lemma addr_word: "word (addr_toString t)"
  by (cases t) (simp_all add: addr_toString_def word_def isspace_def char_code_def)

lemma addr_read:
  assumes "line_view v" and "toString v = addr_toString t"
  shows "SdpAddrType v = t" and "buffer_equals v ''IP6'' False \<longleftrightarrow> t = IPV6"
proof -
  have w: "word (toString v)" by (simp add: assms(2) addr_word)
  show "SdpAddrType v = t"
    unfolding SdpAddrType_def Let_def using trimmed_equals [OF assms(1) w]
    by (cases t) (simp_all add: assms(2) addr_toString_def ctype_defs)
  show "buffer_equals v ''IP6'' False \<longleftrightarrow> t = IPV6"
    using view_equals [OF assms(1), of "''IP6''"]
    by (cases t) (simp_all add: assms(2) addr_toString_def ctype_defs)
qed

lemma media_word: "word (media_type_toString t)"
  by (cases t) (simp_all add: media_type_toString_def word_def isspace_def char_code_def)

lemma media_read:
  assumes "line_view v" and "toString v = media_type_toString t"
  shows "SdpMediaType v = t"
proof -
  have w: "word (toString v)" by (simp add: assms(2) media_word)
  show ?thesis
    unfolding SdpMediaType_def Let_def using trimmed_equals [OF assms(1) w]
    by (cases t) (simp_all add: assms(2) media_type_toString_def ctype_defs)
qed

lemma protocol_word: "word (protocol_toString t)"
  by (cases t) (simp_all add: protocol_toString_def word_def isspace_def char_code_def)

lemma protocol_read:
  assumes "line_view v" and "toString v = protocol_toString t"
  shows "SdpProtocolType v = t"
proof -
  have w: "word (toString v)" by (simp add: assms(2) protocol_word)
  show ?thesis
    unfolding SdpProtocolType_def Let_def using trimmed_equals [OF assms(1) w]
    by (cases t) (simp_all add: assms(2) protocol_toString_def ctype_defs)
qed

section \<open>The lines\<close>

text \<open>What the text of a field can carry.\<close>

definition printable_origin :: "sdp_origin \<Rightarrow> bool" where
  "printable_origin o1 \<longleftrightarrow> word (originUsername o1) \<and> word (originAddress o1) \<and> originNetType o1 = ''IN'' \<and>
     originSessionVersion o1 \<noteq> None"

definition printable_connection :: "sdp_connection \<Rightarrow> bool" where
  "printable_connection c \<longleftrightarrow> word (connAddress c) \<and> word (connNetType c)"

definition printable_attribute :: "sdp_attribute \<Rightarrow> bool" where
  "printable_attribute a \<longleftrightarrow> word (attrKey a) \<and> CHR '':'' \<notin> set (attrKey a) \<and>
     (if isPropertyAttribute a then attrValue a = [] else word (attrValue a)) \<and>
     CR \<notin> set (attrParameters a) \<and> LF \<notin> set (attrParameters a) \<and>
     (attrParameters a = [] \<or> \<not> isspace (last (attrParameters a)))"

definition printable_media :: "sdp_media \<Rightarrow> bool" where
  "printable_media m \<longleftrightarrow> mediaPort m \<noteq> None \<and> mediaFormats m \<noteq> [] \<and> (\<forall>a \<in> set (mediaAttributes m). printable_attribute a)"

lemma word_IN: "word ''IN''"
  by (simp add: word_def isspace_def char_code_def)

lemma unat_small: "unat (w :: u16) < 2 ^ 64" "unat (x :: u32) < 2 ^ 63" "unat (y :: u64) < 2 ^ 64"
  using unsigned_less [of w, where ?'a = nat] unsigned_less [of x, where ?'a = nat] unsigned_less [of y, where ?'a = nat]
  by simp_all

lemma word_read: "line_view v \<Longrightarrow> toString v = show_word w \<Longrightarrow> word_of_int (toLongInteger v) = (w :: u32)"
  using long_read [of v "unat w"] unat_small(2) [of w] by (simp add: show_word_def)

lemma word_show_word: "word (show_word w)"
  by (simp add: show_word_def word_digits)

lemma origin_read:
  assumes "line_view v" and "printable_origin o1" and "origin_toString o1 = Inr (''o='' @ toString v)"
  shows "SdpOrigin_of_line (SdpOriginLine v) = o1"
proof -
  obtain version where version: "originSessionVersion o1 = Some version"
    using assms(2) by (auto simp: printable_origin_def)
  let ?ws = "[originUsername o1, show_word (originSessionId o1), show_word version, originNetType o1,
    addr_toString (originAddrType o1), originAddress o1]"
  have "toString v = separated '' '' ?ws"
    using assms(3) by (simp add: origin_toString_def version)
  moreover have ws: "\<forall>w \<in> set ?ws. word w" "?ws \<noteq> []"
    using assms(2) by (auto simp: printable_origin_def word_show_word addr_word word_IN)
  ultimately obtain vs where vs: "buffer_split v (CHR '' '') = vs" "map toString vs = ?ws" "\<forall>u \<in> set vs. line_view u"
    using split_words [OF assms(1) _ ws] by simp
  then obtain a b c d e f where six: "vs = [a, b, c, d, e, f]"
    by (auto simp: map_eq_Cons_conv)
  have "word_of_int (toLongInteger c) = version"
    using vs(2,3) by (intro word_read) (simp_all add: six)
  moreover have "strtoul (show_nat (unat (originSessionId o1)) @ []) = unat (originSessionId o1)"
    by (rule strtoul_show_nat) (use unat_small in \<open>simp_all add: isdigit_def char_code_def\<close>)
  moreover have "c_str (show_nat n) = show_nat n" for n
    using word_char(2) [OF word_digits [of n]] by (simp add: c_str_id)
  moreover have "buffer_equals e ''IP6'' False \<longleftrightarrow> originAddrType o1 = IPV6"
    using vs(2,3) by (intro addr_read(2)) (simp_all add: six)
  ultimately show ?thesis
    using vs(1,2) assms(2) version
    by (cases "originAddrType o1"; cases o1) (simp_all add: SdpOriginLine_def six SdpOrigin_of_line_def
        origin_setSessionId_string_def show_word_def printable_origin_def)
qed

lemma connection_read:
  assumes "line_view v" and "printable_connection c" and "connection_toString c = ''c='' @ toString v"
  shows "SdpConnectionLine v = Inr c"
proof -
  let ?ws = "[connNetType c, addr_toString (connAddrType c), connAddress c]"
  have "toString v = separated '' '' ?ws"
    using assms(3) by (simp add: connection_toString_def)
  moreover have ws: "\<forall>w \<in> set ?ws. word w" "?ws \<noteq> []"
    using assms(2) by (auto simp: printable_connection_def addr_word)
  ultimately obtain vs where vs: "buffer_split v (CHR '' '') = vs" "map toString vs = ?ws" "\<forall>u \<in> set vs. line_view u"
    using split_words [OF assms(1) _ ws] by simp
  then obtain a b d where three: "vs = [a, b, d]"
    by (auto simp: map_eq_Cons_conv)
  have "SdpAddrType b = connAddrType c"
    using vs(2,3) by (intro addr_read(1)) (simp_all add: three)
  then show ?thesis
    using vs(1,2) by (cases c) (simp add: SdpConnectionLine_def three)
qed

lemma timing_read:
  assumes "line_view v" and "timing_toString t = ''t='' @ toString v"
  shows "SdpTiming v = t"
proof -
  let ?ws = "[show_word (timeStart t), show_word (timeStop t)]"
  have "toString v = separated '' '' ?ws"
    using assms(2) by (simp add: timing_toString_def)
  moreover have ws: "\<forall>w \<in> set ?ws. word w" "?ws \<noteq> []"
    by (simp_all add: word_show_word)
  ultimately obtain vs where vs: "buffer_split v (CHR '' '') = vs" "map toString vs = ?ws" "\<forall>u \<in> set vs. line_view u"
    using split_words [OF assms(1) _ ws] by simp
  then obtain a b where two: "vs = [a, b]"
    by (auto simp: map_eq_Cons_conv)
  have "word_of_int (toLongInteger a) = timeStart t" "word_of_int (toLongInteger b) = timeStop t"
    using vs(2,3) by (auto intro!: word_read simp: two)
  then show ?thesis
    using vs(1) by (cases t) (simp add: SdpTiming_def two)
qed

lemma split_on_first_wf:
  assumes "view_wf b" and "toString b = t @ d # s" and "d \<notin> set t"
  obtains k v where "buffer_split_on_first b d = [k, v]" and "view_wf k" and "view_wf v"
    and "toString k = t" and "toString v = s"
proof -
  have "d \<in> set (toString b)" using assms(2) by simp
  then obtain t' s' where ts: "toString b = t' @ d # s'" "d \<notin> set t'"
      "map toString (buffer_split_on_first b d) = [t', s']" "\<forall>v \<in> set (buffer_split_on_first b d). view_wf v"
    using buffer_split_on_first_text [OF assms(1)] by metis
  have "t' = t" "s' = s"
    using split_first_unique [of d t' t s' s] ts(1,2) assms(2,3) by auto
  moreover obtain k v where "buffer_split_on_first b d = [k, v]"
    using ts(3) by (auto simp: map_eq_Cons_conv)
  ultimately show thesis
    using that ts(3,4) by simp
qed

lemma key_value_read:
  assumes "view_wf c" and "printable_attribute a"
    and "toString c = attrKey a @ (if isPropertyAttribute a then [] else CHR '':'' # attrValue a)"
  obtains k v vs where "buffer_split_on_first c (CHR '':'') = k # v # vs" and "toString (buffer_trim k NUL) = attrKey a"
    and "blen v = 0 \<longleftrightarrow> isPropertyAttribute a" and "\<not> isPropertyAttribute a \<Longrightarrow> toString (buffer_trim v NUL) = attrValue a"
proof (cases "isPropertyAttribute a")
  case True
  then have "toString c = attrKey a" "CHR '':'' \<notin> set (toString c)"
    using assms(2,3) by (simp_all add: printable_attribute_def)
  then have "buffer_split_on_first c (CHR '':'') = [c, null_buffer]"
    using buffer_split_on_first_none [OF assms(1)] by blast
  moreover have "toString (buffer_trim c NUL) = attrKey a"
    using trim_word(1) [OF assms(1)] \<open>toString c = attrKey a\<close> assms(2) by (simp add: printable_attribute_def)
  ultimately show thesis
    using that [of c null_buffer "[]"] True by (simp add: null_buffer_def)
next
  case False
  have colon: "CHR '':'' \<notin> set (attrKey a)" and words: "word (attrKey a)" "word (attrValue a)"
    using assms(2) False by (simp_all add: printable_attribute_def)
  from split_on_first_wf [OF assms(1) _ colon, of "attrValue a"] assms(3) False
  obtain k v where kv: "buffer_split_on_first c (CHR '':'') = [k, v]" "view_wf k" "view_wf v"
    "toString k = attrKey a" "toString v = attrValue a"
    by auto
  then have "blen v \<noteq> 0"
    using word_char(1) [OF words(2)] length_toString [OF kv(3)] kv(5) by (metis length_0_conv)
  then show thesis
    using that [of k v "[]"] kv trim_word(1) [OF kv(2)] trim_word(1) [OF kv(3)] words False by simp
qed

lemma attribute_read:
  assumes "line_view v" and a: "printable_attribute a" and text_a: "attribute_toString a = ''a='' @ toString v"
  shows "SdpAttributeLine v = Inr a"
proof -
  let ?kv = "attrKey a @ (if isPropertyAttribute a then [] else CHR '':'' # attrValue a)"
  have t: "toString v = ?kv @ (if attrParameters a = [] then [] else CHR '' '' # attrParameters a)"
    using text_a by (simp add: attribute_toString_def split: if_splits)
  have wf: "view_wf v" using assms(1) by (simp add: line_view_def)
  have kv: "?kv \<noteq> []" "\<not> isspace (hd ?kv)" "\<not> isspace (last ?kv)" "CHR '' '' \<notin> set ?kv"
  proof -
    have k: "attrKey a \<noteq> []" "\<not> isspace (hd (attrKey a))" "\<not> isspace (last (attrKey a))" "CHR '' '' \<notin> set (attrKey a)"
      using a word_char(1,3) [of "attrKey a"] by (simp_all add: printable_attribute_def word_def)
    have w: "attrValue a \<noteq> []" "\<not> isspace (last (attrValue a))" "CHR '' '' \<notin> set (attrValue a)"
      if "\<not> isPropertyAttribute a"
      using a that word_char(1,3) [of "attrValue a"] by (simp_all add: printable_attribute_def word_def)
    have "CHR '' '' \<noteq> CHR '':''" by simp
    with k w show "?kv \<noteq> []" "\<not> isspace (hd ?kv)" "\<not> isspace (last ?kv)" "CHR '' '' \<notin> set ?kv"
      by (cases "isPropertyAttribute a"; simp)+
  qed
  have "toString v \<noteq> []" "\<not> isspace (hd (toString v))"
    unfolding t using kv(1,2) by (simp_all only: hd_append2 append_is_Nil_conv simp_thms)
  then have "dropWhile isspace (toString v) = toString v"
    by (cases "toString v") simp_all
  moreover have "\<not> isspace (last (toString v))"
  proof (cases "attrParameters a = []")
    case True
    then show ?thesis unfolding t using kv(3) by (simp only: if_True append_Nil2 simp_thms)
  next
    case False
    then have "last (toString v) = last (attrParameters a)"
      unfolding t by (simp only: if_False last_appendR last_ConsR list.distinct simp_thms)
    then show ?thesis using a False by (simp add: printable_attribute_def)
  qed
  then have "strip_back isspace (toString v) = toString v"
    by (intro strip_back_id) simp
  ultimately have trim: "toString (buffer_trim v NUL) = toString v" "view_wf (buffer_trim v NUL)"
    using wf by (simp_all add: buffer_trim_def buffer_trim_front_text buffer_trim_back_text trim_char_NUL)
  have "\<exists>c ps. buffer_split_on_first (buffer_trim v NUL) (CHR '' '') = [c, ps] \<and> view_wf c \<and> toString c = ?kv \<and>
      toString ps = attrParameters a"
  proof (cases "attrParameters a = []")
    case True
    then have "CHR '' '' \<notin> set (toString (buffer_trim v NUL))"
      using kv(4) trim(1) t by simp
    from buffer_split_on_first_none [OF trim(2) this] show ?thesis
      using trim t True by simp
  next
    case False
    have "toString (buffer_trim v NUL) = ?kv @ CHR '' '' # attrParameters a"
      unfolding trim(1) t using False by (simp only: if_False)
    from split_on_first_wf [OF trim(2) this kv(4)] show ?thesis
      by blast
  qed
  then obtain c ps where c: "buffer_split_on_first (buffer_trim v NUL) (CHR '' '') = [c, ps]" "view_wf c"
      "toString c = ?kv" "toString ps = attrParameters a"
    by blast
  obtain k w ws where "buffer_split_on_first c (CHR '':'') = k # w # ws" "toString (buffer_trim k NUL) = attrKey a"
      "blen w = 0 \<longleftrightarrow> isPropertyAttribute a" "\<not> isPropertyAttribute a \<Longrightarrow> toString (buffer_trim w NUL) = attrValue a"
    using key_value_read [OF c(2) a c(3)] by metis
  then show ?thesis
    using c(1,4) a by (cases a) (auto simp: SdpAttributeLine_def printable_attribute_def)
qed

definition media_head :: "u16 \<Rightarrow> sdp_media \<Rightarrow> string" where
  "media_head prt m = media_type_toString (mediaType m) @ '' '' @ show_word prt @ '' '' @ protocol_toString (mediaProtocol m) @
     concat (map (\<lambda>f. CHR '' '' # show_word (getFmt f)) (mediaFormats m))"

definition without_formats :: "sdp_media \<Rightarrow> sdp_media" where
  "without_formats m = m\<lparr>mediaFormats := []\<rparr>"

lemma separated_words: "ws \<noteq> [] \<Longrightarrow> separated '' '' (w # ws) = w @ concat (map (\<lambda>u. CHR '' '' # u) ws)"
  by (induction ws arbitrary: w) (simp, case_tac ws, simp_all)

lemma media_line_read:
  assumes "line_view v" and "toString v = media_head prt m" and "mediaFormats m \<noteq> []"
  shows "\<exists>fs. SdpMediaLine v = Inr \<lparr>lineType = mediaType m, linePort = Some prt, linePortCount = 1,
    lineProtocol = mediaProtocol m, lineFormats = fs\<rparr>"
proof -
  let ?fs = "map (\<lambda>f. show_word (getFmt f)) (mediaFormats m)"
  let ?ws = "media_type_toString (mediaType m) # show_word prt # protocol_toString (mediaProtocol m) # ?fs"
  have "toString v = separated '' '' ?ws"
    using separated_words [of "[show_word prt, protocol_toString (mediaProtocol m)] @ ?fs" "media_type_toString (mediaType m)"]
    unfolding assms(2) by (simp add: media_head_def comp_def)
  moreover have ws: "\<forall>w \<in> set ?ws. word w" "?ws \<noteq> []"
    by (auto simp: word_show_word media_word protocol_word)
  ultimately obtain vs where vs: "buffer_split v (CHR '' '') = vs" "map toString vs = ?ws" "\<forall>u \<in> set vs. line_view u"
    using split_words [OF assms(1) _ ws] by simp
  then obtain t p q rest where four: "vs = t # p # q # rest" "map toString rest = ?fs"
    by (auto simp: map_eq_Cons_conv)
  then obtain f fs where rest: "rest = f # fs"
    using assms(3) by (cases rest) simp_all
  have read: "line_view t" "line_view p" "line_view q" "toString t = media_type_toString (mediaType m)"
    "toString p = show_word prt" "toString q = protocol_toString (mediaProtocol m)"
    using vs(2,3) by (simp_all add: four)
  have "\<forall>c \<in> set (toString p). \<not> (c = CHR ''/'' \<or> c = NUL)"
    using show_nat_digits [of "unat prt"] word_char(2) [OF word_show_word [of prt]]
    by (auto simp: read(5) show_word_def isdigit_def char_code_def)
  then have slash: "tokens (\<lambda>c. c = CHR ''/'' \<or> c = NUL) (toString p) = [show_word prt]"
    using tokens_last_word [of "toString p"] word_char(1) [OF word_show_word [of prt]] by (simp add: read(5))
  have "\<not> isdigit (CHR ''/'')" by (simp add: isdigit_def char_code_def)
  then obtain us where us: "buffer_split p (CHR ''/'') = us" "map toString us = [show_word prt]" "\<forall>u \<in> set us. line_view u"
    using split_line_view [OF read(2)] unfolding slash [symmetric] by metis
  then obtain u where "us = [u]"
    by (auto simp: map_eq_Cons_conv)
  then have u: "buffer_split p (CHR ''/'') = [u]" "toString u = show_word prt" "line_view u"
    using us by simp_all
  have "(of_nat (toUnsignedLongInteger u) :: u16) = prt"
    using unsigned_read [OF u(3), of "unat prt"] u(2) unat_small(1) [of prt] by (simp add: show_word_def)
  then show ?thesis
    using vs(1) media_read [OF read(1,4)] protocol_read [OF read(3,6)]
    by (simp add: SdpMediaLine_def four rest u(1))
qed

section \<open>The description\<close>

definition media_lines :: "sdp_media \<Rightarrow> string list" where
  "media_lines m = (case mediaPort m of None \<Rightarrow> [] | Some prt \<Rightarrow>
     (''m='' @ media_head prt m) # map attribute_toString (mediaAttributes m))"

definition printable :: "sdp \<Rightarrow> bool" where
  "printable s \<longleftrightarrow> sdpVersion s = ''0'' \<and> printable_origin (sdpOrigin s) \<and> CR \<notin> set (sdpSession s) \<and> LF \<notin> set (sdpSession s) \<and>
     printable_connection (sdpConnection s) \<and> (\<forall>a \<in> set (sdpAttributes s). printable_attribute a) \<and>
     (\<forall>m \<in> set (sdpMedia s). printable_media m) \<and> unat (streamCount s) = length (sdpMedia s)"

definition read_back :: "sdp \<Rightarrow> sdp" where
  "read_back s = s\<lparr>sdpMedia := map without_formats (sdpMedia s)\<rparr>"

definition sdp_lines :: "string \<Rightarrow> sdp \<Rightarrow> string list" where
  "sdp_lines origin s =
     [version_toString (sdpVersion s), origin, session_toString (sdpSession s), connection_toString (sdpConnection s),
      timing_toString (sdpTiming s)] @ map attribute_toString (sdpAttributes s) @ concat (map media_lines (sdpMedia s))"

abbreviation crlf_lines :: "string list \<Rightarrow> string" where
  "crlf_lines ls \<equiv> concat (map (\<lambda>l. l @ CRLF) ls)"

lemma crlf_prefix: "a @ concat (map (\<lambda>x. CRLF @ f x) xs) @ CRLF = a @ CRLF @ crlf_lines (map f xs)"
  by (induction xs arbitrary: a) simp_all

lemma media_toString_lines:
  assumes "printable_media m"
  shows "\<exists>t. media_toString m = Inr t \<and> t @ CRLF = crlf_lines (media_lines m)"
proof -
  obtain prt where "mediaPort m = Some prt"
    using assms by (auto simp: printable_media_def)
  then show ?thesis
    using crlf_prefix [of "''m='' @ media_head prt m" attribute_toString "mediaAttributes m"]
    by (simp add: media_toString_def media_lines_def media_head_def)
qed

lemma print_all_media:
  "\<forall>m \<in> set ms. printable_media m \<Longrightarrow>
     \<exists>ts. print_all media_toString ms = Inr ts \<and> concat (map (\<lambda>t. t @ CRLF) ts) = crlf_lines (concat (map media_lines ms))"
proof (induction ms)
  case (Cons m ms)
  then obtain ts where "print_all media_toString ms = Inr ts"
      "concat (map (\<lambda>t. t @ CRLF) ts) = crlf_lines (concat (map media_lines ms))"
    by auto
  moreover obtain t where "media_toString m = Inr t" "t @ CRLF = crlf_lines (media_lines m)"
    using media_toString_lines [of m] Cons.prems by auto
  ultimately show ?case by simp
qed simp

lemma sdp_toString_lines:
  assumes "printable s" and "origin_toString (sdpOrigin s) = Inr o1"
  shows "sdp_toString s = Inr (crlf_lines (sdp_lines o1 s))"
proof -
  obtain ts where "print_all media_toString (sdpMedia s) = Inr ts"
      "concat (map (\<lambda>t. t @ CRLF) ts) = crlf_lines (concat (map media_lines (sdpMedia s)))"
    using print_all_media [of "sdpMedia s"] assms(1) by (auto simp: printable_def)
  then show ?thesis
    using assms by (simp add: sdp_toString_def sdp_lines_def printable_def comp_def)
qed

section \<open>Reading the lines\<close>

lemma load_lines_append: "load_lines (Inr ()) (xs @ ys) s = bindO (load_lines (Inr ()) xs s) (load_lines (Inr ()) ys)"
  by (induction xs arbitrary: s) (simp_all add: bindO_def split: sum.split)

lemma load_line_value:
  assumes "line_view l" and "toString l = c # CHR ''='' # t" and "c \<noteq> CHR ''=''"
  obtains v where "line_view v" and "toString v = t" and "load_line (Inr ()) l s = load_value (Inr ()) (tolower c) v s"
proof -
  have "toString l = [c] @ CHR ''='' # t" "CHR ''='' \<notin> set [c]"
    using assms(2,3) by simp_all
  then obtain k v where "buffer_split_on_first l (CHR ''='') = [k, v]" "line_view v" "toString k = [c]" "toString v = t"
    using split_line_on_first [OF assms(1)] by metis
  then show thesis
    using that [of v] deref_buf [of k c "[]"] by (simp add: load_line_def)
qed

lemma lower_keys:
  "tolower (CHR ''o'') = CHR ''o''" "tolower (CHR ''v'') = CHR ''v''" "tolower (CHR ''s'') = CHR ''s''"
  "tolower (CHR ''c'') = CHR ''c''" "tolower (CHR ''t'') = CHR ''t''" "tolower (CHR ''m'') = CHR ''m''"
  "tolower (CHR ''a'') = CHR ''a''"
  by (simp_all add: ctype_defs)

lemma load_fixed_lines:
  assumes "line_view l"
  shows "toString l = version_toString x \<Longrightarrow> load_line (Inr ()) l s = Inr s"
    and "printable_origin o1 \<Longrightarrow> origin_toString o1 = Inr (toString l) \<Longrightarrow> load_line (Inr ()) l s = Inr (s\<lparr>sdpOrigin := o1\<rparr>)"
    and "toString l = session_toString n \<Longrightarrow> load_line (Inr ()) l s = Inr (s\<lparr>sdpSession := n\<rparr>)"
    and "printable_connection c \<Longrightarrow> toString l = connection_toString c \<Longrightarrow> load_line (Inr ()) l s = Inr (s\<lparr>sdpConnection := c\<rparr>)"
    and "toString l = timing_toString t \<Longrightarrow> load_line (Inr ()) l s = Inr (s\<lparr>sdpTiming := t\<rparr>)"
proof -
  have kv: "\<exists>v. line_view v \<and> toString v = t \<and> load_line (Inr ()) l s = load_value (Inr ()) (tolower c) v s"
    if "toString l = c # CHR ''='' # t" "c \<noteq> CHR ''=''" for c t
    using load_line_value [OF assms that] by metis
  show "load_line (Inr ()) l s = Inr s" if "toString l = version_toString x"
    using kv [of "CHR ''v''" x] that by (auto simp: version_toString_def load_value_def lower_keys)
  show "load_line (Inr ()) l s = Inr (s\<lparr>sdpOrigin := o1\<rparr>)" if o1: "printable_origin o1" "origin_toString o1 = Inr (toString l)"
  proof -
    obtain t where t: "toString l = CHR ''o'' # CHR ''='' # t"
    proof -
      obtain x where "Inr (''o='' @ x) = (Inr (toString l) :: string outcome)"
        using o1(2) unfolding origin_toString_def bindO_eq_Inr_iff by blast
      then show thesis using that [of x] by simp
    qed
    from kv [OF t] obtain v where v: "line_view v" "toString v = t" "load_line (Inr ()) l s = load_value (Inr ()) (tolower (CHR ''o'')) v s"
      by auto
    moreover have "SdpOrigin_of_line (SdpOriginLine v) = o1"
      by (rule origin_read [OF v(1) o1(1)]) (use o1(2) t v(2) in simp)
    ultimately show ?thesis by (simp add: load_value_def lower_keys)
  qed
  show "load_line (Inr ()) l s = Inr (s\<lparr>sdpSession := n\<rparr>)" if "toString l = session_toString n"
    using kv [of "CHR ''s''" n] that by (auto simp: session_toString_def load_value_def lower_keys SdpSession_def)
  show "load_line (Inr ()) l s = Inr (s\<lparr>sdpConnection := c\<rparr>)" if c: "printable_connection c" "toString l = connection_toString c"
  proof -
    obtain t where t: "toString l = CHR ''c'' # CHR ''='' # t"
      using c(2) by (simp add: connection_toString_def)
    from kv [OF t] obtain v where v: "line_view v" "toString v = t" "load_line (Inr ()) l s = load_value (Inr ()) (tolower (CHR ''c'')) v s"
      by auto
    moreover have "SdpConnectionLine v = Inr c"
      by (rule connection_read [OF v(1) c(1)]) (use c(2) t v(2) in simp)
    ultimately show ?thesis by (cases c) (simp add: load_value_def lower_keys SdpConnection_of_line_def)
  qed
  show "load_line (Inr ()) l s = Inr (s\<lparr>sdpTiming := t\<rparr>)" if t: "toString l = timing_toString t"
  proof -
    obtain u where u: "toString l = CHR ''t'' # CHR ''='' # u"
      using t by (simp add: timing_toString_def)
    from kv [OF u] obtain v where v: "line_view v" "toString v = u" "load_line (Inr ()) l s = load_value (Inr ()) (tolower (CHR ''t'')) v s"
      by auto
    moreover have "SdpTiming v = t"
      by (rule timing_read [OF v(1)]) (use t u v(2) in simp)
    ultimately show ?thesis by (simp add: load_value_def lower_keys)
  qed
qed

lemma load_attribute_line:
  assumes "line_view l" and "printable_attribute a" and "toString l = attribute_toString a"
  shows "load_line (Inr ()) l s = addAttribute_line (Inr ()) (ucast (streamCount s)) a s"
proof -
  obtain t where t: "toString l = CHR ''a'' # CHR ''='' # t"
    using assms(3) by (simp add: attribute_toString_def)
  obtain v where v: "line_view v" "toString v = t" "load_line (Inr ()) l s = load_value (Inr ()) (tolower (CHR ''a'')) v s"
    by (rule load_line_value [OF assms(1) t]) simp_all
  moreover have "SdpAttributeLine v = Inr a"
    by (rule attribute_read [OF v(1) assms(2)]) (use assms(3) t v(2) in simp)
  ultimately show ?thesis by (simp add: load_value_def lower_keys)
qed

lemma SdpAttribute_of_line_id [simp]: "SdpAttribute_of_line a = a"
  by (cases a) (simp add: SdpAttribute_of_line_def)

lemma load_common_attributes:
  assumes "\<forall>l \<in> set ls. line_view l" and "\<forall>a \<in> set as. printable_attribute a" and "map toString ls = map attribute_toString as"
    and "streamCount s = 0"
  shows "load_lines (Inr ()) ls s = Inr (s\<lparr>sdpAttributes := sdpAttributes s @ as\<rparr>)"
  using assms
proof (induction ls arbitrary: as s)
  case (Cons l ls)
  then obtain a as' where as: "as = a # as'" "toString l = attribute_toString a" "map toString ls = map attribute_toString as'"
    by (cases as) auto
  have "load_line (Inr ()) l s = Inr (s\<lparr>sdpAttributes := sdpAttributes s @ [a]\<rparr>)"
    using load_attribute_line [of l a s] Cons.prems(1,2,4) as(1,2) by (simp add: addAttribute_line_def)
  then show ?case
    using Cons.IH [of as' "s\<lparr>sdpAttributes := sdpAttributes s @ [a]\<rparr>"] Cons.prems(1,2,4) as(1,3) by simp
qed simp

text \<open>While the count is below 256, the last stream is the one its number addresses.\<close>

definition last_stream :: "sdp \<Rightarrow> bool" where
  "last_stream s \<longleftrightarrow> sdpMedia s \<noteq> [] \<and> unat (streamCount s) = length (sdpMedia s)"

lemma unat_u8_u16: "unat (ucast (w :: u8) :: u16) = unat w"
  by transfer simp

lemma last_stream_index:
  assumes "last_stream s"
  shows "unat ((ucast (streamCount s) :: u16) - 1) = length (sdpMedia s) - 1" and "(ucast (streamCount s) :: u16) \<noteq> 0"
proof -
  let ?w = "ucast (streamCount s) :: u16"
  have "unat ?w = unat (streamCount s)"
    by (rule unat_u8_u16)
  then have n: "unat ?w = length (sdpMedia s)" "length (sdpMedia s) \<noteq> 0"
    using assms by (simp_all add: last_stream_def)
  show "?w \<noteq> 0" using n by (metis unat_0)
  then show "unat (?w - 1) = length (sdpMedia s) - 1"
    using n(1) by (simp add: unat_minus_one)
qed

lemma update_last: "xs \<noteq> [] \<Longrightarrow> xs[length xs - 1 := m] = butlast xs @ [m]"
  by (cases xs rule: rev_cases) simp_all

lemma add_to_last_stream:
  assumes "last_stream s"
  shows "addAttribute_line (Inr ()) (ucast (streamCount s)) a s =
    Inr (s\<lparr>sdpMedia := butlast (sdpMedia s) @ [media_addAttribute a (last (sdpMedia s))]\<rparr>)"
proof -
  let ?i = "length (sdpMedia s) - 1"
  have "0 < length (sdpMedia s)" "unat (streamCount s) = length (sdpMedia s)" "sdpMedia s \<noteq> []"
    using assms by (simp_all add: last_stream_def)
  then have "?i < length (sdpMedia s)" "\<not> length (sdpMedia s) \<le> ?i" "unat (streamCount s) = length (sdpMedia s)"
      "sdpMedia s \<noteq> []"
    by linarith+
  moreover have "(sdpMedia s)[?i := m] = butlast (sdpMedia s) @ [m]" "sdpMedia s ! ?i = last (sdpMedia s)" for m
    using calculation(4) update_last last_conv_nth by metis+
  ultimately show ?thesis
    unfolding addAttribute_line_def at_stream_def Let_def last_stream_index(1) [OF assms]
    using last_stream_index(2) [OF assms] by (simp only: if_False if_True bindO_Inr SdpAttribute_of_line_id)
qed

lemma load_stream_attributes:
  assumes "\<forall>l \<in> set ls. line_view l" and "\<forall>a \<in> set as. printable_attribute a" and "map toString ls = map attribute_toString as"
    and "last_stream s"
  shows "load_lines (Inr ()) ls s = Inr (s\<lparr>sdpMedia := butlast (sdpMedia s) @
    [(last (sdpMedia s))\<lparr>mediaAttributes := mediaAttributes (last (sdpMedia s)) @ as\<rparr>]\<rparr>)"
  using assms
proof (induction ls arbitrary: as s)
  case Nil
  then show ?case by (simp add: last_stream_def)
next
  case (Cons l ls)
  then obtain a as' where as: "as = a # as'" "toString l = attribute_toString a" "map toString ls = map attribute_toString as'"
    by (cases as) auto
  let ?s = "s\<lparr>sdpMedia := butlast (sdpMedia s) @ [media_addAttribute a (last (sdpMedia s))]\<rparr>"
  have "load_line (Inr ()) l s = Inr ?s"
    using load_attribute_line [of l a s] Cons.prems(1,2) as(1,2) add_to_last_stream [OF Cons.prems(4)] by simp
  moreover have "last_stream ?s"
    using Cons.prems(4) by (simp add: last_stream_def)
  ultimately show ?case
    using Cons.IH [of as' ?s] Cons.prems(1,2) as(1,3) by (simp add: media_addAttribute_def)
qed

text \<open>A stream is its line and its attributes.\<close>

lemma length_below:
  assumes "unat (streamCount s) = length (sdpMedia s)" and "length (sdpMedia s) + 1 < 256"
  shows "unat (streamCount s + 1) = length (sdpMedia s) + 1"
  using assms unat_word_ariths(1) [of "streamCount s" 1] by simp

lemma load_media_line:
  assumes "line_view l" and "toString l = ''m='' @ media_head prt m" and "mediaFormats m \<noteq> []"
    and "mediaPort m = Some prt"
  shows "load_line (Inr ()) l s = Inr (s\<lparr>streamCount := streamCount s + 1,
    sdpMedia := sdpMedia s @ [(without_formats m)\<lparr>mediaAttributes := []\<rparr>]\<rparr>)"
proof -
  have "toString l = CHR ''m'' # CHR ''='' # media_head prt m" using assms(2) by simp
  then obtain v where v: "line_view v" "toString v = media_head prt m" "load_line (Inr ()) l s = load_value (Inr ()) (tolower (CHR ''m'')) v s"
    using load_line_value [OF assms(1), of "CHR ''m''" "media_head prt m"] by auto
  obtain fs where "SdpMediaLine v = Inr \<lparr>lineType = mediaType m, linePort = Some prt, linePortCount = 1,
      lineProtocol = mediaProtocol m, lineFormats = fs\<rparr>"
    using media_line_read [OF v(1,2) assms(3)] by blast
  then show ?thesis
    using v(3) assms(4) by (cases m) (simp add: load_value_def lower_keys addMediaStream_line_def SdpMedia_of_line_def
        media_line_toString_def initialised_def without_formats_def Let_def)
qed

lemma load_media:
  assumes "\<forall>l \<in> set ls. line_view l" and "printable_media m" and "map toString ls = media_lines m"
    and "unat (streamCount s) = length (sdpMedia s)" and "length (sdpMedia s) + 1 < 256"
  shows "load_lines (Inr ()) ls s = Inr (s\<lparr>streamCount := streamCount s + 1, sdpMedia := sdpMedia s @ [without_formats m]\<rparr>)"
proof -
  obtain prt where prt: "mediaPort m = Some prt"
    using assms(2) by (auto simp: printable_media_def)
  then obtain l ls' where ls: "ls = l # ls'" "toString l = ''m='' @ media_head prt m"
      "map toString ls' = map attribute_toString (mediaAttributes m)"
    using assms(3) by (auto simp: media_lines_def map_eq_Cons_conv)
  let ?s = "s\<lparr>streamCount := streamCount s + 1, sdpMedia := sdpMedia s @ [(without_formats m)\<lparr>mediaAttributes := []\<rparr>]\<rparr>"
  have "mediaFormats m \<noteq> []" "\<forall>a \<in> set (mediaAttributes m). printable_attribute a"
    using assms(2) by (simp_all add: printable_media_def)
  moreover have "last_stream ?s"
    using length_below [OF assms(4,5)] by (simp add: last_stream_def)
  ultimately show ?thesis
    using load_media_line [of l prt m s] load_stream_attributes [of ls' "mediaAttributes m" ?s] assms(1) ls prt
    by (simp add: without_formats_def)
qed

lemma load_all_media:
  assumes "\<forall>l \<in> set ls. line_view l" and "\<forall>m \<in> set ms. printable_media m" and "map toString ls = concat (map media_lines ms)"
    and "unat (streamCount s) = length (sdpMedia s)" and "length (sdpMedia s) + length ms < 256"
  shows "load_lines (Inr ()) ls s = Inr (s\<lparr>streamCount := of_nat (length (sdpMedia s) + length ms),
    sdpMedia := sdpMedia s @ map without_formats ms\<rparr>)"
  using assms
proof (induction ms arbitrary: ls s)
  case Nil
  then have "of_nat (length (sdpMedia s)) = streamCount s"
    by (metis of_nat_unat ucast_id)
  with Nil show ?case by simp
next
  case (Cons m ms)
  then obtain xs ys where ls: "ls = xs @ ys" "map toString xs = media_lines m"
      "map toString ys = concat (map media_lines ms)"
    by (auto simp: map_eq_append_conv)
  let ?s = "s\<lparr>streamCount := streamCount s + 1, sdpMedia := sdpMedia s @ [without_formats m]\<rparr>"
  have "load_lines (Inr ()) xs s = Inr ?s"
    using Cons.prems ls by (intro load_media) simp_all
  moreover have "load_lines (Inr ()) ys ?s = Inr (?s\<lparr>streamCount := of_nat (length (sdpMedia ?s) + length ms),
      sdpMedia := sdpMedia ?s @ map without_formats ms\<rparr>)"
    using Cons.prems ls length_below [of s] by (intro Cons.IH) simp_all
  ultimately show ?case
    by (simp add: ls(1) load_lines_append)
qed

text \<open>The printed lines are the lines the reader splits the text into.\<close>

lemma tokens_crlf:
  assumes "\<forall>l \<in> set ls. l \<noteq> [] \<and> CR \<notin> set l \<and> LF \<notin> set l"
  shows "tokens (\<lambda>c. c = CR \<or> c = LF) (crlf_lines ls) = ls"
  using assms
proof (induction ls)
  case (Cons l ls)
  then have "\<forall>c \<in> set l. \<not> (c = CR \<or> c = LF)" by auto
  then show ?case
    using Cons tokens_word [of l "\<lambda>c. c = CR \<or> c = LF" CR "LF # crlf_lines ls"] by simp
qed simp

definition one_line :: "string \<Rightarrow> bool" where
  "one_line l \<longleftrightarrow> l \<noteq> [] \<and> CR \<notin> set l \<and> LF \<notin> set l"

lemma one_line_word: "word w \<Longrightarrow> CR \<notin> set w \<and> LF \<notin> set w"
  using word_char by blast

lemma show_word_one_line [simp]: "CR \<notin> set (show_word w)" "LF \<notin> set (show_word w)"
  using one_line_word [OF word_show_word [of w]] by simp_all

lemma attribute_one_line: "printable_attribute a \<Longrightarrow> one_line (attribute_toString a)"
  using one_line_word [of "attrKey a"] one_line_word [of "attrValue a"]
  by (auto simp: printable_attribute_def attribute_toString_def one_line_def split: if_splits)

lemma media_head_one_line: "CR \<notin> set (media_head prt m)" "LF \<notin> set (media_head prt m)"
  using one_line_word [OF media_word] one_line_word [OF protocol_word]
  by (auto simp: media_head_def)

lemma media_one_line:
  "printable_media m \<Longrightarrow> \<forall>l \<in> set (media_lines m). one_line l"
  using attribute_one_line media_head_one_line
  by (auto simp: media_lines_def printable_media_def one_line_def split: option.splits)

lemma origin_one_line:
  assumes "printable_origin o1" and "origin_toString o1 = Inr t"
  shows "one_line t"
proof -
  have ws: "word (originUsername o1)" "word (originAddress o1)" "word (originNetType o1)"
    using assms(1) word_IN by (simp_all add: printable_origin_def)
  obtain version where "originSessionVersion o1 = Some version"
    using assms(1) by (auto simp: printable_origin_def)
  then have "t = ''o='' @ originUsername o1 @ '' '' @ show_word (originSessionId o1) @ '' '' @ show_word version @ '' '' @
      originNetType o1 @ '' '' @ addr_toString (originAddrType o1) @ '' '' @ originAddress o1"
    using assms(2) by (simp add: origin_toString_def)
  then show ?thesis
    using ws [THEN one_line_word] one_line_word [OF addr_word]
    by (simp add: one_line_def)
qed

lemma sdp_one_line:
  assumes "printable s" and "origin_toString (sdpOrigin s) = Inr o1"
  shows "\<forall>l \<in> set (sdp_lines o1 s). one_line l"
proof -
  have c: "word (connAddress (sdpConnection s))" "word (connNetType (sdpConnection s))"
    using assms(1) by (simp_all add: printable_def printable_connection_def)
  have "one_line (version_toString (sdpVersion s))" "one_line (session_toString (sdpSession s))"
    "one_line (connection_toString (sdpConnection s))" "one_line (timing_toString (sdpTiming s))"
    using assms(1) c [THEN one_line_word] one_line_word [OF addr_word]
    by (simp_all add: printable_def one_line_def version_toString_def session_toString_def connection_toString_def
        timing_toString_def)
  moreover have "one_line o1"
    using origin_one_line [of "sdpOrigin s" o1] assms by (simp add: printable_def)
  ultimately show ?thesis
    using assms(1) attribute_one_line media_one_line by (auto simp: sdp_lines_def printable_def)
qed

section \<open>Properties\<close>

text \<open>The views the reader is given are the printed lines, part by part.\<close>

lemma printed_lines_split:
  assumes "printable s" and "origin_toString (sdpOrigin s) = Inr o1"
    and "view_wf b" and "view_ended b" and "toString b = crlf_lines (sdp_lines o1 s)"
  obtains v o2 n c tm as ms where "buffer_split_lines b = [v, o2, n, c, tm] @ as @ ms"
    "\<forall>l \<in> set ([v, o2, n, c, tm] @ as @ ms). line_view l"
    "map toString [v, o2, n, c, tm] = [version_toString (sdpVersion s), o1, session_toString (sdpSession s),
      connection_toString (sdpConnection s), timing_toString (sdpTiming s)]"
    "map toString as = map attribute_toString (sdpAttributes s)"
    "map toString ms = concat (map media_lines (sdpMedia s))"
proof -
  have "tokens (\<lambda>c. c = CR \<or> c = LF) (crlf_lines (sdp_lines o1 s)) = sdp_lines o1 s"
    by (rule tokens_crlf [OF sdp_one_line [OF assms(1,2), unfolded one_line_def]])
  then have "map toString (buffer_split_lines b) = sdp_lines o1 s"
    by (simp only: buffer_split_lines_tokens [OF assms(3)] assms(5))
  moreover have "\<forall>l \<in> set (buffer_split_lines b). line_view l"
    using buffer_split_lines_wf [OF assms(3)] buffer_split_lines_ended [OF assms(3,4)] by (simp add: line_view_def)
  ultimately show thesis
    using that unfolding sdp_lines_def by (auto simp: map_eq_append_conv map_eq_Cons_conv)
qed

lemma load_printed_lines:
  assumes "printable s" and "origin_toString (sdpOrigin s) = Inr o1"
    and "\<forall>l \<in> set ([v, o2, n, c, tm] @ as @ ms). line_view l"
    and "map toString [v, o2, n, c, tm] = [version_toString (sdpVersion s), o1, session_toString (sdpSession s),
      connection_toString (sdpConnection s), timing_toString (sdpTiming s)]"
    and "map toString as = map attribute_toString (sdpAttributes s)"
    and "map toString ms = concat (map media_lines (sdpMedia s))"
  shows "load_lines (Inr ()) ([v, o2, n, c, tm] @ as @ ms) (new_sdp clock) = Inr (read_back s)"
proof -
  let ?s = "(new_sdp clock)\<lparr>sdpOrigin := sdpOrigin s, sdpSession := sdpSession s, sdpConnection := sdpConnection s,
    sdpTiming := sdpTiming s\<rparr>"
  have p: "printable_origin (sdpOrigin s)" "printable_connection (sdpConnection s)" "sdpVersion s = ''0''"
    "\<forall>a \<in> set (sdpAttributes s). printable_attribute a" "\<forall>m \<in> set (sdpMedia s). printable_media m"
    "unat (streamCount s) = length (sdpMedia s)"
    using assms(1) by (simp_all add: printable_def)
  have "load_lines (Inr ()) [v, o2, n, c, tm] (new_sdp clock) = Inr ?s"
    using assms(2-4) load_fixed_lines(1) [of v] load_fixed_lines(2) [of o2, OF _ p(1)] load_fixed_lines(3) [of n]
      load_fixed_lines(4) [of c, OF _ p(2)] load_fixed_lines(5) [of tm] by simp
  moreover have "load_lines (Inr ()) as ?s = Inr (?s\<lparr>sdpAttributes := sdpAttributes s\<rparr>)"
    using load_common_attributes [of as "sdpAttributes s" ?s] assms(3,5) p(4) by (simp add: new_sdp_def)
  moreover have "length (sdpMedia s) < 256"
    using p(6) unsigned_less [of "streamCount s", where ?'a = nat] by simp
  then have "load_lines (Inr ()) ms (?s\<lparr>sdpAttributes := sdpAttributes s\<rparr>) =
      Inr (?s\<lparr>sdpAttributes := sdpAttributes s, streamCount := of_nat (length (sdpMedia s)),
        sdpMedia := map without_formats (sdpMedia s)\<rparr>)"
    using load_all_media [of ms "sdpMedia s" "?s\<lparr>sdpAttributes := sdpAttributes s\<rparr>"] assms(3,6) p(5)
    by (simp add: new_sdp_def)
  moreover have "of_nat (length (sdpMedia s)) = streamCount s"
    using p(6) by (metis of_nat_unat ucast_id)
  ultimately have "load_lines (Inr ()) ([v, o2, n, c, tm] @ as @ ms) (new_sdp clock) =
      Inr (?s\<lparr>sdpAttributes := sdpAttributes s, streamCount := streamCount s, sdpMedia := map without_formats (sdpMedia s)\<rparr>)"
    by (simp only: load_lines_append bindO_Inr)
  also have "?s\<lparr>sdpAttributes := sdpAttributes s, streamCount := streamCount s, sdpMedia := map without_formats (sdpMedia s)\<rparr> =
      read_back s"
    using p(3) by (cases s) (simp add: new_sdp_def read_back_def)
  finally show ?thesis .
qed

lemma printed_sdp_read:
  assumes "printable s" and "sdp_toString s = Inr t" and "length t \<le> MaxSdpBodyLength"
  shows "Sdp (Inr ()) clock (t @ NUL # rest) (length t) = Inr (read_back s)"
proof -
  obtain o1 where o1: "origin_toString (sdpOrigin s) = Inr o1"
    using assms(2) by (auto simp: sdp_toString_def bindO_eq_Inr_iff)
  then have t: "t = crlf_lines (sdp_lines o1 s)"
    using sdp_toString_lines [OF assms(1) o1] assms(2) by simp
  let ?b = "view (t @ NUL # rest) (length t)"
  have "view_wf ?b" "view_ended ?b" "toString ?b = crlf_lines (sdp_lines o1 s)"
    by (simp_all add: view_ended_def toString_view isdigit_def char_code_def t [symmetric])
  from printed_lines_split [OF assms(1) o1 this]
  obtain v o2 n c tm as ms where ls: "buffer_split_lines ?b = [v, o2, n, c, tm] @ as @ ms"
      "\<forall>l \<in> set ([v, o2, n, c, tm] @ as @ ms). line_view l"
      "map toString [v, o2, n, c, tm] = [version_toString (sdpVersion s), o1, session_toString (sdpSession s),
        connection_toString (sdpConnection s), timing_toString (sdpTiming s)]"
      "map toString as = map attribute_toString (sdpAttributes s)"
      "map toString ms = concat (map media_lines (sdpMedia s))"
    by metis
  moreover have "(if length t < MaxSdpBodyLength then length t else MaxSdpBodyLength) = length t"
    using assms(3) by simp
  moreover have "length t \<le> length (t @ NUL # rest)" by simp
  ultimately show ?thesis
    unfolding Sdp_def Let_def by (simp only: if_True bindO_Inr load_printed_lines [OF assms(1) o1 ls(2-5)])
qed

text \<open>
  C9: Reading back a printed session description gives the same origin, session name, connection, times,
  attributes and streams, each stream with its type, port, protocol and attributes, for every
  description whose fields the text can carry; but every stream comes back without its payload formats.
  It does so once the log call the constructor starts with returns; the logger it calls is never set.
\<close>

theorem sdp_round_trip:
  assumes "printable s" and "sdp_toString s = Inr t" and "length t \<le> MaxSdpBodyLength"
  shows "Sdp nl clock (t @ NUL # rest) (length t) = bindO nl (\<lambda>_. Inr (read_back s))"
  using printed_sdp_read [OF assms] by (subst Sdp_nl) simp_all

definition sample_sdp :: sdp where
  "sample_sdp = \<lparr>streamCount = 1, sdpVersion = ''0'',
     sdpOrigin = \<lparr>originUsername = ''-'', originSessionId = 1001, originSessionVersion = Some 1000,
       originAddress = ''192.168.0.4'', originAddrType = IPV4, originNetType = ''IN''\<rparr>,
     sdpSession = ''-'', sdpConnection = SdpConnection ''192.168.0.4'', sdpTiming = SdpTiming_default, sdpAttributes = [],
     sdpMedia = [\<lparr>mediaType = Media_audio, mediaPort = Some 4000, mediaProtocol = Proto_rtp,
       mediaFormats = [SdpFormat 0, SdpFormat 101],
       mediaAttributes = [SdpAttribute_cstr ''rtpmap'' ''0'' (Some ''PCMU/8000''), SdpAttribute_named ''sendrecv'']\<rparr>]\<rparr>"

definition sample_text :: string where
  "sample_text = ''v=0'' @ CRLF @ ''o=- 1001 1000 IN IP4 192.168.0.4'' @ CRLF @ ''s=-'' @ CRLF @ ''c=IN IP4 192.168.0.4'' @ CRLF @
     ''t=0 0'' @ CRLF @ ''m=audio 4000 RTP/AVP 0 101'' @ CRLF @ ''a=rtpmap:0 PCMU/8000'' @ CRLF @ ''a=sendrecv'' @ CRLF"

lemma sample_sdp_printable: "printable sample_sdp"
  by (simp add: sample_sdp_def printable_def printable_origin_def printable_connection_def printable_media_def
      printable_attribute_def SdpConnection_def SdpAttribute_cstr_def SdpAttribute_named_def word_def isspace_def char_code_def)

lemma sample_sdp_text: "sdp_toString sample_sdp = Inr sample_text"
  by (simp add: sample_sdp_def sample_text_def sdp_toString_def origin_toString_def media_toString_def version_toString_def
      session_toString_def connection_toString_def timing_toString_def attribute_toString_def SdpConnection_def
      SdpTiming_default_def SdpAttribute_cstr_def SdpAttribute_named_def SdpFormat_def getFmt_def addr_toString_def
      media_type_toString_def protocol_toString_def show_word_def show_nat.simps digit_char_def char_of_def bit_0)

theorem sdp_round_trip_witness:
  "\<forall>nl. Sdp nl 0 (sample_text @ NUL # []) (length sample_text) = bindO nl (\<lambda>_. Inr (read_back sample_sdp))"
  by (rule allI, rule sdp_round_trip [OF sample_sdp_printable sample_sdp_text]) (simp add: sample_text_def MaxSdpBodyLength_def)

section \<open>Where reading leaves the arrays\<close>

definition words_of :: "string \<Rightarrow> string list" where
  "words_of t = tokens (\<lambda>c. c = CHR '' '' \<or> c = NUL) t"

definition line_value :: "string \<Rightarrow> string" where
  "line_value t = tl (dropWhile (\<lambda>c. c \<noteq> CHR ''='') t)"

text \<open>
  The fault of a line, if it has one: a connection line of fewer than three words and a full media line whose
  port is made of slashes leave an array, a media line of fewer than four words is printed with an unset port.
\<close>

definition line_fault :: "string \<Rightarrow> fault option" where
  "line_fault t =
     (let ws = words_of (line_value t)
      in if tolower (hd t) = CHR ''c'' \<and> length ws < 3 then Some OutOfBounds
         else if tolower (hd t) = CHR ''m'' \<and> length ws < 4 then Some Indeterminate
         else if tolower (hd t) = CHR ''m'' \<and> tokens (\<lambda>c. c = CHR ''/'' \<or> c = NUL) (ws ! 1) = [] then Some OutOfBounds
         else None)"

fun first_fault :: "string list \<Rightarrow> fault option" where
  "first_fault [] = None"
| "first_fault (t # ts) = (case line_fault t of Some e \<Rightarrow> Some e | None \<Rightarrow> first_fault ts)"

lemma load_line_by_value:
  assumes "line_view l" and "toString l \<noteq> []"
  obtains v where "load_line (Inr ()) l s = load_value (Inr ()) (tolower (hd (toString l))) v s" and "line_view v"
    and "toString v = line_value (toString l)"
proof -
  have first: "deref (buf l) = hd (toString l)"
    using assms(2) deref_buf by (metis list.collapse)
  show thesis
  proof (cases "CHR ''='' \<in> set (toString l)")
    case True
    then obtain t u where tu: "toString l = t @ CHR ''='' # u" "CHR ''='' \<notin> set t"
      using split_list_first by metis
    from split_line_on_first [OF assms(1) tu] obtain k v where
      kv: "buffer_split_on_first l (CHR ''='') = [k, v]" "line_view v" "toString v = u"
      by metis
    have "buf k = buf l"
      using kv(1) by (auto simp: buffer_split_on_first_def split: option.splits)
    moreover have "dropWhile (\<lambda>c. c \<noteq> CHR ''='') (t @ CHR ''='' # u) = CHR ''='' # u"
      using tu(2) by (induction t) auto
    then have "line_value (toString l) = u"
      by (simp add: tu(1) line_value_def)
    ultimately show thesis
      using that [of v] kv first by (simp add: load_line_def)
  next
    case False
    have "view_wf l" using assms(1) by (simp add: line_view_def)
    from buffer_split_on_first_none [OF this False]
    have "load_line (Inr ()) l s = load_value (Inr ()) (tolower (hd (toString l))) null_buffer s"
      by (simp add: load_line_def first)
    moreover have "line_value (toString l) = []"
    proof -
      have "dropWhile (\<lambda>c. c \<noteq> CHR ''='') (toString l) = []"
        using False by (auto simp: dropWhile_eq_Nil_conv)
      then show ?thesis unfolding line_value_def by (simp only: list.sel)
    qed
    ultimately show thesis
      using that [of null_buffer] by (simp add: line_view_def view_ended_def null_buffer_def toString_def view_wf_def)
  qed
qed

lemma words_of_view:
  assumes "line_view v"
  shows "map toString (buffer_split v (CHR '' '')) = words_of (toString v)"
    and "\<forall>u \<in> set (buffer_split v (CHR '' '')). line_view u"
proof -
  have "\<not> isdigit (CHR '' '')" by (simp add: isdigit_def char_code_def)
  from split_line_view [OF assms this]
  show "map toString (buffer_split v (CHR '' '')) = words_of (toString v)"
    "\<forall>u \<in> set (buffer_split v (CHR '' '')). line_view u"
    unfolding words_of_def by metis+
qed

lemma connection_line_cases:
  assumes "line_view v"
  shows "if length (words_of (toString v)) < 3 then SdpConnectionLine v = Inl OutOfBounds
    else \<exists>c. SdpConnectionLine v = Inr c"
  unfolding words_of_view(1) [OF assms, symmetric] length_map
  by (auto simp: SdpConnectionLine_def split: list.split)

lemma four_or_more: "3 < length xs \<Longrightarrow> \<exists>a b c d ys. xs = a # b # c # d # ys"
  by (cases xs; cases "tl xs"; cases "tl (tl xs)"; cases "tl (tl (tl xs))") auto

lemma media_line_cases:
  assumes "line_view v"
  shows "if length (words_of (toString v)) < 4 then \<exists>m. SdpMediaLine v = Inr m \<and> linePort m = None
    else if tokens (\<lambda>c. c = CHR ''/'' \<or> c = NUL) (words_of (toString v) ! 1) = [] then SdpMediaLine v = Inl OutOfBounds
    else \<exists>m prt. SdpMediaLine v = Inr m \<and> linePort m = Some prt"
proof (cases "3 < length (buffer_split v (CHR '' ''))")
  case True
  then obtain t p q f fs where vs: "buffer_split v (CHR '' '') = t # p # q # f # fs"
    using four_or_more [OF True] by blast
  have "view_wf p" using words_of_view(2) [OF assms] by (simp add: vs line_view_def)
  then have "map toString (buffer_split p (CHR ''/'')) = tokens (\<lambda>c. c = CHR ''/'' \<or> c = NUL) (toString p)"
    by (rule buffer_split_tokens)
  then have "buffer_split p (CHR ''/'') = [] \<longleftrightarrow> tokens (\<lambda>c. c = CHR ''/'' \<or> c = NUL) (toString p) = []"
    by (metis map_is_Nil_conv)
  then show ?thesis
    unfolding words_of_view(1) [OF assms, symmetric] by (auto simp: vs SdpMediaLine_def split: list.split)
next
  case False
  then have "\<exists>m. SdpMediaLine v = Inr m \<and> linePort m = None"
    by (auto simp: SdpMediaLine_def split: list.split)
  then show ?thesis
    using False unfolding words_of_view(1) [OF assms, symmetric] by simp
qed

lemma attribute_line_total: "\<exists>a. SdpAttributeLine v = Inr a"
proof -
  obtain c cs where "buffer_split_on_first (buffer_trim v NUL) (CHR '' '') = c # cs"
    using length_buffer_split_on_first [of "buffer_trim v NUL" "CHR '' ''"] by (cases "buffer_split_on_first (buffer_trim v NUL) (CHR '' '')") auto
  moreover obtain k w ws where "buffer_split_on_first c (CHR '':'') = k # w # ws"
    using length_buffer_split_on_first [of c "CHR '':''"]
    by (cases "buffer_split_on_first c (CHR '':'')") (auto simp: Suc_length_conv length_Suc_conv numeral_2_eq_2)
  ultimately show ?thesis by (simp add: SdpAttributeLine_def)
qed

text \<open>The 8-bit count is the number of streams modulo 256.\<close>

definition count_ok :: "sdp \<Rightarrow> bool" where
  "count_ok s \<longleftrightarrow> unat (streamCount s) = length (sdpMedia s) mod 256"

lemma at_stream_ok:
  assumes "count_ok s" and "\<And>m. \<exists>m'. f m = Inr m'"
  shows "\<exists>s'. at_stream (Inr ()) n f s = Inr s' \<and> count_ok s' \<and> length (sdpMedia s') = length (sdpMedia s)"
proof -
  obtain m' where "f (sdpMedia s ! unat (n - 1)) = Inr m'"
    using assms(2) by blast
  moreover have "unat (streamCount s) \<le> length (sdpMedia s)"
    using assms(1) by (simp add: count_ok_def)
  then have "unat (n - 1) \<ge> unat (streamCount s) \<or> unat (n - 1) < length (sdpMedia s)"
    by linarith
  ultimately show ?thesis
    using assms(1) by (auto simp: at_stream_def Let_def count_ok_def)
qed

lemma count_ok_add:
  "count_ok s \<Longrightarrow> count_ok (s\<lparr>streamCount := streamCount s + 1, sdpMedia := sdpMedia s @ [m]\<rparr>)"
  by (simp add: count_ok_def unat_word_ariths mod_simps)

definition is_media_line :: "string \<Rightarrow> bool" where
  "is_media_line t \<longleftrightarrow> tolower (hd t) = CHR ''m''"

lemma load_line_cases:
  assumes "line_view l" and "toString l \<noteq> []" and "count_ok s"
  shows "case line_fault (toString l) of Some e \<Rightarrow> load_line (Inr ()) l s = Inl e
    | None \<Rightarrow> \<exists>s'. load_line (Inr ()) l s = Inr s' \<and> count_ok s' \<and>
      length (sdpMedia s') = length (sdpMedia s) + (if is_media_line (toString l) then 1 else 0)"
proof -
  obtain v where v: "load_line (Inr ()) l s = load_value (Inr ()) (tolower (hd (toString l))) v s" "line_view v"
    "toString v = line_value (toString l)"
    by (rule load_line_by_value [OF assms(1,2)])
  let ?c = "tolower (hd (toString l))"
  obtain a where a: "SdpAttributeLine v = Inr a" using attribute_line_total by blast
  obtain s1 where s1: "at_stream (Inr ()) (ucast (streamCount s)) (\<lambda>m. Inr (media_addAttribute a m)) s = Inr s1"
      "count_ok s1" "length (sdpMedia s1) = length (sdpMedia s)"
    using at_stream_ok [OF assms(3), of "\<lambda>m. Inr (media_addAttribute a m)"] by blast
  consider (conn) "?c = CHR ''c''" | (media) "?c = CHR ''m''" | (attr) "?c = CHR ''a''"
    | (other) "?c \<noteq> CHR ''c''" "?c \<noteq> CHR ''m''" "?c \<noteq> CHR ''a''"
    by blast
  then show ?thesis
  proof cases
    case conn
    then show ?thesis
      using connection_line_cases [OF v(2)] assms(3)
      by (auto simp: v load_value_def line_fault_def is_media_line_def count_ok_def Let_def split: if_splits)
  next
    case media
    then show ?thesis
      using media_line_cases [OF v(2)] count_ok_add [OF assms(3)]
      by (auto simp: v load_value_def line_fault_def is_media_line_def addMediaStream_line_def media_line_toString_def
          initialised_def Let_def split: if_splits)
  next
    case attr
    then show ?thesis
      using s1 a assms(3) by (simp add: v load_value_def line_fault_def is_media_line_def addAttribute_line_def count_ok_def Let_def)
  next
    case other
    then show ?thesis
      using assms(3) by (simp add: v load_value_def line_fault_def is_media_line_def count_ok_def Let_def)
  qed
qed

lemma load_lines_cases:
  assumes "\<forall>l \<in> set ls. line_view l \<and> toString l \<noteq> []" and "count_ok s"
  shows "case first_fault (map toString ls) of Some e \<Rightarrow> load_lines (Inr ()) ls s = Inl e
    | None \<Rightarrow> \<exists>s'. load_lines (Inr ()) ls s = Inr s' \<and> count_ok s' \<and>
      length (sdpMedia s') = length (sdpMedia s) + length (filter is_media_line (map toString ls))"
  using assms
proof (induction ls arbitrary: s)
  case (Cons l ls)
  show ?case
  proof (cases "line_fault (toString l)")
    case (Some e)
    then show ?thesis using load_line_cases [of l s] Cons.prems by simp
  next
    case None
    then obtain s1 where "load_line (Inr ()) l s = Inr s1" "count_ok s1"
        "length (sdpMedia s1) = length (sdpMedia s) + (if is_media_line (toString l) then 1 else 0)"
      using load_line_cases [of l s] Cons.prems by auto
    then show ?thesis
      using Cons.IH [of s1] Cons.prems None by (auto split: option.splits if_splits)
  qed
qed simp



end
