(* ===== verification/MediaSessions.thy ===== *)
theory MediaSessions
  imports SdpText StdMap
begin

text \<open>
  Model of \<^verbatim>\<open>src/src/components/media/session/\<close>, \<^verbatim>\<open>resource/\<close> and \<^verbatim>\<open>data/\<close>: the manager that answers the
  session descriptions of calls with ports of its pool, and the sessions it keeps. The array of ports
  is a list whose first content is unknown (\<open>fresh\<close>), an index past its end is a fault. \<^verbatim>\<open>std::time\<close>
  is the argument \<open>clock\<close>. Opening a socket is entering its port into the list of open ports. A stream of an
  answer has no logger: \<open>nl\<close> is what its log calls do.
\<close>

section \<open>Sessions\<close>

record media_session =
  sessionId :: "u32 option"
  sessionOffer :: sdp
  sessionResponse :: sdp

text \<open>The three constructors: none of them takes over its argument or sets the id.\<close>

definition MediaSession :: "u64 \<Rightarrow> media_session" where
  "MediaSession clock = \<lparr>sessionId = None, sessionOffer = new_sdp clock, sessionResponse = new_sdp clock\<rparr>"

definition MediaSession_of_offer :: "u64 \<Rightarrow> sdp \<Rightarrow> media_session" where
  "MediaSession_of_offer clock ofr = MediaSession clock"

definition MediaSession_copy :: "u64 \<Rightarrow> media_session \<Rightarrow> media_session" where
  "MediaSession_copy clock other = MediaSession clock"

definition setSdpResponse :: "sdp \<Rightarrow> media_session \<Rightarrow> media_session" where
  "setSdpResponse s m = m\<lparr>sessionResponse := s\<rparr>"

definition getResponse :: "media_session \<Rightarrow> sdp" where
  "getResponse m = sessionResponse m"

definition getId :: "media_session \<Rightarrow> u32 outcome" where
  "getId m = initialised (sessionId m)"

section \<open>The manager\<close>

record rtp_port_data =
  rtpPort :: u16
  rtpActive :: bool

record media_manager =
  portPool :: "u16 list"
  nextReadyPortIndex :: u16
  nextOldPortIndex :: u16
  portAvailableCount :: u16
  portInUseCount :: u16
  portTotalCount :: u16
  callIdToSessionIdLookup :: "(string, u32) std_map"
  sessions :: "(u32, media_session) std_map"
  portData :: "rtp_port_data list"
  openPorts :: "u16 list"
  nextSessionId :: u32

definition CONFIG_LOCAL_IP_ADDRESS :: string where "CONFIG_LOCAL_IP_ADDRESS = ''192.168.0.4''"
definition CONFIG_RTP_PORT_MIN :: u16 where "CONFIG_RTP_PORT_MIN = 4000"
definition CONFIG_RTP_PORT_MAX :: u16 where "CONFIG_RTP_PORT_MAX = 6998"

text \<open>The loop of the constructor, and the constructor.\<close>

function fill_ports :: "nat \<Rightarrow> nat \<Rightarrow> u16 \<Rightarrow> u16 list \<Rightarrow> u16 list" where
  "fill_ports ports index prt pool =
     (if prt \<le> CONFIG_RTP_PORT_MAX \<and> index < ports
      then fill_ports ports (index + 1) (prt + 2) (pool[index := prt])
      else pool)"
  by pat_completeness auto
termination by (relation "measure (\<lambda>(ports, index, _, _). ports - index)") auto

declare fill_ports.simps [simp del]

definition MediaSessionManager :: "u16 list \<Rightarrow> media_manager" where
  "MediaSessionManager fresh =
     (let ports = drop_bit 1 (CONFIG_RTP_PORT_MAX - CONFIG_RTP_PORT_MIN)
      in \<lparr>portPool = fill_ports (unat ports) 0 CONFIG_RTP_PORT_MIN (take (unat ports) fresh),
          nextReadyPortIndex = 0, nextOldPortIndex = 0, portAvailableCount = ports, portInUseCount = 0,
          portTotalCount = ports, callIdToSessionIdLookup = [], sessions = [], portData = [], openPorts = [],
          nextSessionId = 1001\<rparr>)"

text \<open>
  \<^verbatim>\<open>initialise\<close> opens the sockets of the entries of a vector for which it only reserves storage: the vector
  stays empty, an entry behind its end is out of bounds. A port of 5060 would be skipped without being advanced.
\<close>

fun initialise_loop :: "nat \<Rightarrow> nat \<Rightarrow> u16 \<Rightarrow> media_manager \<Rightarrow> media_manager outcome" where
  "initialise_loop 0 i prt mgr = Inr mgr"
| "initialise_loop (Suc n) i prt mgr =
     (if prt = 5060 then initialise_loop n (i + 1) prt mgr
      else if i < length (portData mgr) then
        initialise_loop n (i + 1) (prt + 1)
          (mgr\<lparr>portData := (portData mgr)[i := \<lparr>rtpPort = prt, rtpActive = False\<rparr>], openPorts := openPorts mgr @ [prt]\<rparr>)
      else Inl OutOfBounds)"

definition initialise :: "u16 \<Rightarrow> media_manager \<Rightarrow> media_manager outcome" where
  "initialise maxPorts mgr = initialise_loop (unat maxPorts) 0 3999 mgr"

definition allocatePort :: "media_manager \<Rightarrow> (u16 \<times> media_manager) outcome" where
  "allocatePort mgr =
     (let i = nextReadyPortIndex mgr; j = i + 1
      in if unat i < length (portPool mgr) then
           Inr (portPool mgr ! unat i, mgr\<lparr>nextReadyPortIndex := (if j \<ge> portTotalCount mgr then 0 else j)\<rparr>)
         else Inl OutOfBounds)"

definition releasePort :: "u16 \<Rightarrow> media_manager \<Rightarrow> media_manager outcome" where
  "releasePort prt mgr =
     (let j = (if nextOldPortIndex mgr \<ge> portTotalCount mgr then 0 else nextOldPortIndex mgr)
      in if unat j < length (portPool mgr) then
           Inr (mgr\<lparr>nextOldPortIndex := j, portPool := (portPool mgr)[unat j := prt]\<rparr>)
         else Inl OutOfBounds)"

definition allocateSessionId :: "media_manager \<Rightarrow> u32 \<times> media_manager" where
  "allocateSessionId mgr = (nextSessionId mgr, mgr\<lparr>nextSessionId := nextSessionId mgr + 1\<rparr>)"

definition getSession :: "u32 \<Rightarrow> media_manager \<Rightarrow> media_session option" where
  "getSession n mgr = map_of (sessions mgr) n"

definition getSession_of_call :: "string \<Rightarrow> media_manager \<Rightarrow> media_session option" where
  "getSession_of_call callId mgr =
     (case map_of (callIdToSessionIdLookup mgr) callId of None \<Rightarrow> None | Some n \<Rightarrow> getSession n mgr)"

definition retrieveSession :: "u64 \<Rightarrow> u32 \<Rightarrow> media_manager \<Rightarrow> media_session" where
  "retrieveSession clock n mgr =
     (case getSession n mgr of Some s \<Rightarrow> MediaSession_copy clock s | None \<Rightarrow> MediaSession clock)"

text \<open>The stream put into the answer for one stream of the offer.\<close>

definition answer_stream :: "logging \<Rightarrow> u16 \<Rightarrow> sdp_media outcome" where
  "answer_stream nl prt =
     bindO (media_addFormat nl (SdpFormat (ucast (getFmtNumber Fmt_PCMU))) (SdpMedia Media_audio prt Proto_rtp)) (\<lambda>m.
     bindO (media_addAttribute_cstr nl ''rtpmap'' ''0'' (Some ''PCMU/8000'') m) (\<lambda>m.
     bindO (media_addFormat nl (SdpFormat (ucast (getFmtNumber Fmt_DTMF))) m) (\<lambda>m.
     bindO (media_addAttribute_cstr nl ''rtpmap'' ''101'' (Some ''telephone-event/8000'') m) (\<lambda>m.
     bindO (media_addAttribute_cstr nl ''fmtp'' ''101'' (Some ''0-15'') m) (\<lambda>m.
     media_addAttribute_cstr nl ''ptime'' ''20'' None m)))))"

fun answer_streams :: "logging \<Rightarrow> nat \<Rightarrow> sdp \<Rightarrow> media_manager \<Rightarrow> (sdp \<times> media_manager) outcome" where
  "answer_streams nl 0 ans mgr = Inr (ans, mgr)"
| "answer_streams nl (Suc n) ans mgr =
     bindO (allocatePort mgr) (\<lambda>(prt, mgr).
     bindO (answer_stream nl prt) (\<lambda>m. answer_streams nl n (snd (addMediaStream m ans)) mgr))"

text \<open>The offer is printed for the log, and so is the answer.\<close>

definition allocate :: "logging \<Rightarrow> string \<Rightarrow> sdp \<Rightarrow> sdp \<Rightarrow> media_manager \<Rightarrow> (u32 \<times> sdp \<times> media_manager) outcome" where
  "allocate nl callId ofr ans mgr =
     bindO (sdp_toString ofr) (\<lambda>_.
     case getSession_of_call callId mgr of
       Some s \<Rightarrow> bindO (getId s) (\<lambda>n. Inr (n, ans, mgr))
     | None \<Rightarrow>
         let ans = setOrigin (SdpOrigin_strings ''-'' ''mysessionId'' 1000 CONFIG_LOCAL_IP_ADDRESS) ans;
             ans = setConnection (SdpConnection CONFIG_LOCAL_IP_ADDRESS) ans
         in bindO (answer_streams nl (unat (streamCount ofr)) ans mgr) (\<lambda>(ans, mgr).
            bindO (sdp_toString ans) (\<lambda>_.
            let (n, mgr) = allocateSessionId mgr in Inr (n, setSessionId n ans, mgr))))"

definition release :: "u32 \<Rightarrow> media_manager \<Rightarrow> media_manager" where
  "release n mgr = (case getSession n mgr of Some _ \<Rightarrow> mgr | None \<Rightarrow> mgr)"

section \<open>Received packets\<close>

text \<open>The text made of an RTP header for the log, from the bytes of a packet; a byte is printed as a character.\<close>

definition byte_at :: "u8 list \<Rightarrow> nat \<Rightarrow> int outcome" where
  "byte_at p i = (if i < length p then Inr (uint (p ! i)) else Inl OutOfBounds)"

definition showRtpHeader :: "u8 list \<Rightarrow> string outcome" where
  "showRtpHeader p =
     bindO (byte_at p 0) (\<lambda>b1. bindO (byte_at p 1) (\<lambda>typ.
     bindO (byte_at p 2) (\<lambda>s0. bindO (byte_at p 3) (\<lambda>s1.
     bindO (byte_at p 4) (\<lambda>t0. bindO (byte_at p 5) (\<lambda>t1. bindO (byte_at p 6) (\<lambda>t2. bindO (byte_at p 7) (\<lambda>t3.
       Inr (''{'' @ '' name: '' @ quoted ''RTP Header'' @ '', '' @
         '' version: '' @ show_int (b1 div 64) @ '', '' @
         '' padding: '' @ quoted (if b1 div 32 mod 2 = 1 then ''true'' else ''false'') @ '', '' @
         '' extension: '' @ quoted (if b1 div 16 mod 2 = 1 then ''true'' else ''false'') @ '', '' @
         '' sourceIds: '' @ show_int (b1 mod 16) @ '', '' @
         '' marker: '' @ quoted (if typ div 128 = 1 then ''true'' else ''false'') @ '', '' @
         '' type: '' @ show_int (typ mod 128) @ '', '' @
         '' sequence: '' @ show_int (s1 + s0 * 256) @ '', '' @
         '' timestamp: '' @ quoted (show_int (to_int32 (t3 + t2 * 2 ^ 8 + t1 * 2 ^ 16 + t0 * 2 ^ 24)) @
           ''-'' @ [char_of t0] @ ''-'' @ [char_of t1] @ ''-'' @ [char_of t2] @ ''-'' @ [char_of t3]) @ ''}'')))))))))"

definition showRtcpHeader :: "u8 list \<Rightarrow> string outcome" where
  "showRtcpHeader p =
     bindO (byte_at p 0) (\<lambda>b1. bindO (byte_at p 1) (\<lambda>typ.
       Inr (''{'' @ '' name: '' @ quoted ''RTCP Header'' @ '', '' @
         '' version: '' @ show_int (b1 div 64) @ '', '' @
         '' padding: '' @ quoted (if b1 div 32 mod 2 = 1 then ''true'' else ''false'') @ '', '' @
         '' extension: '' @ quoted (if b1 div 16 mod 2 = 1 then ''true'' else ''false'') @ '', '' @
         '' sourceIds: '' @ show_int (b1 mod 16) @ '', '' @
         '' type: '' @ show_int (typ mod 128) @ '', '')))"

text \<open>\<open>packet\<close> is the receive buffer; an odd port is one for RTCP.\<close>

definition media_onUdpRecv :: "rtp_port_data \<Rightarrow> int \<Rightarrow> u8 list \<Rightarrow> string option outcome" where
  "media_onUdpRecv pd bytes_read packet =
     (if bytes_read > 0 then
        (if odd (unat (rtpPort pd)) then bindO (showRtcpHeader packet) (\<lambda>t. Inr (Some t))
         else bindO (showRtpHeader packet) (\<lambda>t. Inr (Some t)))
      else Inr None)"

section \<open>The resource manager\<close>

text \<open>
  It lists devices and counts resources; no allocation is kept. The counter has no first value.
\<close>

record resource_manager =
  deviceCount :: u16
  basePort :: u16
  availableDevices :: "u16 list"
  nextResourceId :: "u32 option"

definition ResourceManager :: "u16 \<Rightarrow> u16 \<Rightarrow> resource_manager" where
  "ResourceManager devs bp = \<lparr>deviceCount = devs, basePort = bp,
     availableDevices = map (\<lambda>i. bp + of_nat (i * 2)) [0..<unat devs], nextResourceId = None\<rparr>"

definition getNewResourceId :: "resource_manager \<Rightarrow> (u32 \<times> resource_manager) outcome" where
  "getNewResourceId r = bindO (initialised (nextResourceId r)) (\<lambda>n. Inr (n, r\<lparr>nextResourceId := Some (n + 1)\<rparr>))"

definition AllocateResource :: "resource_manager \<Rightarrow> (u32 option \<times> resource_manager) outcome" where
  "AllocateResource r = bindO (getNewResourceId r) (\<lambda>(_, r). Inr (None, r))"

definition ReleaseResource :: "u32 \<Rightarrow> resource_manager \<Rightarrow> resource_manager" where
  "ReleaseResource n r = r"

definition getAllocatedResource :: "u32 \<Rightarrow> resource_manager \<Rightarrow> u32 option" where
  "getAllocatedResource n r = None"

section \<open>The pool of ports\<close>

definition pool_port :: "nat \<Rightarrow> u16" where
  "pool_port i = 4000 + 2 * of_nat i"

lemma unat_pool_port: "i < 1500 \<Longrightarrow> unat (pool_port i) = 4000 + 2 * i"
  by (simp add: pool_port_def unat_word_ariths unat_of_nat)

lemma pool_port_in_range: "i < 1500 \<Longrightarrow> pool_port i \<le> CONFIG_RTP_PORT_MAX"
  by (simp add: word_le_nat_alt unat_pool_port CONFIG_RTP_PORT_MAX_def)

lemma pool_port_Suc: "pool_port i + 2 = pool_port (i + 1)"
  by (simp add: pool_port_def algebra_simps)

lemma fill_ports_result:
  "index \<le> ports \<Longrightarrow> ports \<le> 1499 \<Longrightarrow> ports \<le> length pool \<Longrightarrow> prt = pool_port index \<Longrightarrow>
     fill_ports ports index prt pool = take index pool @ map pool_port [index..<ports] @ drop ports pool"
proof (induction ports index prt pool rule: fill_ports.induct)
  case (1 ports index prt pool)
  show ?case
  proof (cases "index < ports")
    case True
    then have "prt \<le> CONFIG_RTP_PORT_MAX"
      using "1.prems" pool_port_in_range by simp
    with True "1.IH" "1.prems" have "fill_ports ports index prt pool =
        take (index + 1) (pool[index := prt]) @ map pool_port [index + 1..<ports] @ drop ports (pool[index := prt])"
      by (subst fill_ports.simps) (simp add: pool_port_Suc)
    also have "take (index + 1) (pool[index := prt]) = take index pool @ [prt]"
      using True "1.prems" by (simp add: take_Suc_conv_app_nth)
    finally show ?thesis
      using True "1.prems"(4) by (simp add: upt_conv_Cons)
  next
    case False
    with "1.prems" show ?thesis by (subst fill_ports.simps) simp
  qed
qed

definition pool_ok :: "media_manager \<Rightarrow> bool" where
  "pool_ok mgr \<longleftrightarrow> portPool mgr = map pool_port [0..<1499] \<and> portTotalCount mgr = 1499 \<and>
     unat (nextReadyPortIndex mgr) < 1499"

lemma new_manager_ports: "drop_bit (Suc 0) (CONFIG_RTP_PORT_MAX - CONFIG_RTP_PORT_MIN) = (1499 :: u16)"
  by (simp add: CONFIG_RTP_PORT_MAX_def CONFIG_RTP_PORT_MIN_def)

lemma new_manager_pool:
  assumes "1499 \<le> length fresh"
  shows "pool_ok (MediaSessionManager fresh)" and "nextReadyPortIndex (MediaSessionManager fresh) = 0"
proof -
  have "CONFIG_RTP_PORT_MIN = pool_port 0"
    by (simp add: pool_port_def CONFIG_RTP_PORT_MIN_def)
  with assms have "fill_ports 1499 0 CONFIG_RTP_PORT_MIN (take 1499 fresh) = map pool_port [0..<1499]"
    using fill_ports_result [of 0 1499 "take 1499 fresh" CONFIG_RTP_PORT_MIN] by simp
  then show "pool_ok (MediaSessionManager fresh)" and "nextReadyPortIndex (MediaSessionManager fresh) = 0"
    by (simp_all add: pool_ok_def MediaSessionManager_def new_manager_ports Let_def)
qed

lemma next_index:
  assumes "unat (w :: u16) < 1499"
  shows "unat (if w + 1 \<ge> 1499 then 0 else w + 1) = (unat w + 1) mod 1499"
proof (cases "unat w = 1498")
  case False
  with assms show ?thesis by (auto simp: word_le_nat_alt unat_word_ariths)
qed (simp add: word_le_nat_alt unat_word_ariths)

lemma pool_ok_index [simp]: "pool_ok mgr \<Longrightarrow> unat j < 1499 \<Longrightarrow> pool_ok (mgr\<lparr>nextReadyPortIndex := j\<rparr>)"
  by (simp add: pool_ok_def)

abbreviation ready :: "media_manager \<Rightarrow> nat" where
  "ready mgr \<equiv> unat (nextReadyPortIndex mgr)"

lemma allocatePort_next:
  assumes "pool_ok mgr"
  shows "\<exists>j. allocatePort mgr = Inr (pool_port (ready mgr), mgr\<lparr>nextReadyPortIndex := j\<rparr>) \<and>
    unat j = (ready mgr + 1) mod 1499"
proof -
  let ?j = "if nextReadyPortIndex mgr + 1 \<ge> 1499 then 0 else nextReadyPortIndex mgr + 1"
  have "allocatePort mgr = Inr (pool_port (ready mgr), mgr\<lparr>nextReadyPortIndex := ?j\<rparr>)"
    using assms by (simp add: pool_ok_def allocatePort_def Let_def)
  moreover have "unat ?j = (ready mgr + 1) mod 1499"
    using assms next_index by (simp only: pool_ok_def)
  ultimately show ?thesis by blast
qed

section \<open>The answers\<close>

definition ports_from :: "nat \<Rightarrow> nat \<Rightarrow> u16 list" where
  "ports_from i n = map (\<lambda>k. pool_port (k mod 1499)) [i..<i + n]"

definition answered_stream :: "u16 \<Rightarrow> sdp_media" where
  "answered_stream prt = \<lparr>mediaType = Media_audio, mediaPort = Some prt, mediaProtocol = Proto_rtp,
     mediaFormats = [SdpFormat 0, SdpFormat 101],
     mediaAttributes = [SdpAttribute_cstr ''rtpmap'' ''0'' (Some ''PCMU/8000''),
       SdpAttribute_cstr ''rtpmap'' ''101'' (Some ''telephone-event/8000''),
       SdpAttribute_cstr ''fmtp'' ''101'' (Some ''0-15''), SdpAttribute_cstr ''ptime'' ''20'' None]\<rparr>"

lemma answer_stream_result: "answer_stream nl prt = bindO nl (\<lambda>_. Inr (answered_stream prt))"
  by (cases nl) (simp_all add: answer_stream_def answered_stream_def media_addFormat_def hasFormat_def SdpMedia_def
      media_addAttribute_cstr_def SdpFormat_def getFmt_def getFmtNumber_def SdpFormatType_def setFmt_def
      initialised_def)

lemma length_ports_from [simp]: "length (ports_from i n) = n"
  by (simp add: ports_from_def)

lemma ports_from_mod [simp]: "ports_from (i mod 1499) n = ports_from i n"
  by (rule nth_equalityI) (simp_all add: ports_from_def mod_simps)

lemma ports_from_add: "ports_from i (m + n) = ports_from i m @ ports_from (i + m) n"
  using upt_add_eq_append [of i "i + m" n] by (simp add: ports_from_def add.assoc)

lemma ports_from_Suc: "i < 1499 \<Longrightarrow> ports_from i (Suc n) = pool_port i # ports_from (i + 1) n"
  using ports_from_add [of i 1 n] by (simp add: ports_from_def)

lemma answer_streams_result:
  assumes "pool_ok mgr"
  shows "\<exists>j. answer_streams (Inr ()) n ans mgr = Inr (ans\<lparr>streamCount := streamCount ans + of_nat n,
      sdpMedia := sdpMedia ans @ map answered_stream (ports_from (ready mgr) n)\<rparr>, mgr\<lparr>nextReadyPortIndex := j\<rparr>) \<and>
    unat j = (ready mgr + n) mod 1499"
  using assms
proof (induction n arbitrary: ans mgr)
  case 0
  then show ?case
    by (intro exI [of _ "nextReadyPortIndex mgr"]) (simp add: ports_from_def pool_ok_def)
next
  case (Suc n)
  obtain i where i: "allocatePort mgr = Inr (pool_port (ready mgr), mgr\<lparr>nextReadyPortIndex := i\<rparr>)"
      "unat i = (ready mgr + 1) mod 1499"
    using allocatePort_next [OF Suc.prems] by blast
  let ?mgr = "mgr\<lparr>nextReadyPortIndex := i\<rparr>"
  let ?ans = "snd (addMediaStream (answered_stream (pool_port (ready mgr))) ans)"
  have "pool_ok ?mgr"
    using Suc.prems i(2) by simp
  then obtain j where j: "answer_streams (Inr ()) n ?ans ?mgr = Inr (?ans\<lparr>streamCount := streamCount ?ans + of_nat n,
      sdpMedia := sdpMedia ?ans @ map answered_stream (ports_from (unat i) n)\<rparr>, mgr\<lparr>nextReadyPortIndex := j\<rparr>)"
      "unat j = (unat i + n) mod 1499"
    using Suc.IH [of ?mgr ?ans] by auto
  have "ready mgr < 1499"
    using Suc.prems by (simp add: pool_ok_def)
  then have ports: "map answered_stream (ports_from (ready mgr) (Suc n)) =
      answered_stream (pool_port (ready mgr)) # map answered_stream (ports_from (unat i) n)"
    by (simp only: ports_from_Suc i(2) ports_from_mod list.map)
  have "unat j = (ready mgr + Suc n) mod 1499"
    by (simp only: j(2) i(2)) (simp add: mod_simps)
  then show ?case
    using i(1) j(1) unfolding ports
    by (intro exI [of _ j]) (simp add: answer_stream_result addMediaStream_def Let_def algebra_simps)
qed

text \<open>What the manager answers: for a number of streams, from an index of the pool, for a session.\<close>

definition answer_for :: "nat \<Rightarrow> nat \<Rightarrow> u32 \<Rightarrow> sdp" where
  "answer_for n i sid = \<lparr>streamCount = of_nat n, sdpVersion = ''0'',
     sdpOrigin = \<lparr>originUsername = ''-'', originSessionId = ucast sid, originSessionVersion = Some 1000,
       originAddress = CONFIG_LOCAL_IP_ADDRESS, originAddrType = IPV4, originNetType = ''IN''\<rparr>,
     sdpSession = ''-'', sdpConnection = SdpConnection CONFIG_LOCAL_IP_ADDRESS, sdpTiming = SdpTiming_default,
     sdpAttributes = [], sdpMedia = map answered_stream (ports_from i n)\<rparr>"

lemma answered_stream_printable: "printable_media (answered_stream prt)"
  by (simp add: answered_stream_def printable_media_def printable_attribute_def SdpAttribute_cstr_def word_def
      isspace_def char_code_def)

lemma origin_setSessionId_cases:
  "origin_setSessionId n (SdpOrigin_strings u s v a) = \<lparr>originUsername = u, originSessionId = ucast n,
     originSessionVersion = Some v, originAddress = a, originAddrType = IPV4, originNetType = ''IN''\<rparr>"
  by (simp add: origin_setSessionId_def SdpOrigin_strings_def origin_setSessionId_string_def)

lemma allocate_result:
  assumes "pool_ok mgr" and "getSession_of_call callId mgr = None" and "sdp_toString ofr = Inr t"
  defines "n \<equiv> unat (streamCount ofr)"
  shows "\<exists>j. allocate (Inr ()) callId ofr (new_sdp clock) mgr = Inr (nextSessionId mgr, answer_for n (ready mgr) (nextSessionId mgr),
      mgr\<lparr>nextReadyPortIndex := j, nextSessionId := nextSessionId mgr + 1\<rparr>) \<and> unat j = (ready mgr + n) mod 1499"
proof -
  let ?o = "SdpOrigin_strings ''-'' ''mysessionId'' 1000 CONFIG_LOCAL_IP_ADDRESS"
  let ?a = "setConnection (SdpConnection CONFIG_LOCAL_IP_ADDRESS) (setOrigin ?o (new_sdp clock))"
  let ?b = "?a\<lparr>streamCount := of_nat n, sdpMedia := map answered_stream (ports_from (ready mgr) n)\<rparr>"
  obtain j where j: "answer_streams (Inr ()) n ?a mgr = Inr (?b, mgr\<lparr>nextReadyPortIndex := j\<rparr>)" "unat j = (ready mgr + n) mod 1499"
    using answer_streams_result [OF assms(1), of n ?a] by (auto simp: setConnection_def setOrigin_def new_sdp_def)
  have version: "originSessionVersion ?o = Some 1000"
    by (simp add: SdpOrigin_strings_def origin_setSessionId_string_def)
  then obtain o1 where "origin_toString ?o = Inr o1"
    by (simp add: origin_toString_def initialised_def)
  moreover have "printable ?b"
    using version answered_stream_printable unsigned_less [of "streamCount ofr", where ?'a = nat]
    by (auto simp: printable_def printable_origin_def printable_connection_def setConnection_def setOrigin_def new_sdp_def
      SdpConnection_def CONFIG_LOCAL_IP_ADDRESS_def word_def isspace_def char_code_def n_def SdpOrigin_strings_def
      origin_setSessionId_string_def)
  ultimately obtain t' where "sdp_toString ?b = Inr t'"
    using sdp_toString_lines [of ?b o1] by (simp add: setConnection_def setOrigin_def)
  moreover have "setSessionId (nextSessionId mgr) ?b = answer_for n (ready mgr) (nextSessionId mgr)"
    by (simp add: setSessionId_def setConnection_def setOrigin_def new_sdp_def answer_for_def origin_setSessionId_cases)
  ultimately have "allocate (Inr ()) callId ofr (new_sdp clock) mgr = Inr (nextSessionId mgr, answer_for n (ready mgr) (nextSessionId mgr),
      mgr\<lparr>nextReadyPortIndex := j, nextSessionId := nextSessionId mgr + 1\<rparr>)"
    using assms(2,3) j(1) by (simp add: allocate_def allocateSessionId_def Let_def n_def)
  with j(2) show ?thesis by blast
qed

section \<open>A run of calls\<close>

fun allocate_all :: "logging \<Rightarrow> u64 \<Rightarrow> (string \<times> sdp) list \<Rightarrow> media_manager \<Rightarrow>
    ((u32 \<times> sdp) list \<times> media_manager) outcome" where
  "allocate_all nl clock [] mgr = Inr ([], mgr)"
| "allocate_all nl clock ((callId, ofr) # calls) mgr =
     bindO (allocate nl callId ofr (new_sdp clock) mgr) (\<lambda>(n, ans, mgr).
     bindO (allocate_all nl clock calls mgr) (\<lambda>(answers, mgr). Inr ((n, ans) # answers, mgr)))"

definition announced_ports :: "sdp \<Rightarrow> u16 list" where
  "announced_ports s = map (\<lambda>m. case mediaPort m of None \<Rightarrow> 0 | Some prt \<Rightarrow> prt) (sdpMedia s)"

definition offered_streams :: "(string \<times> sdp) list \<Rightarrow> nat" where
  "offered_streams calls = sum_list (map (\<lambda>(_, ofr). unat (streamCount ofr)) calls)"

lemma announced_ports_answer [simp]: "announced_ports (answer_for n i sid) = ports_from i n"
  by (simp add: announced_ports_def answer_for_def answered_stream_def comp_def)

lemma allocate_all_result:
  assumes "pool_ok mgr" and "callIdToSessionIdLookup mgr = []"
    and "\<forall>(callId, ofr) \<in> set calls. \<exists>t. sdp_toString ofr = Inr t"
  shows "\<exists>answers mgr'. allocate_all (Inr ()) clock calls mgr = Inr (answers, mgr') \<and>
    map fst answers = map (\<lambda>k. nextSessionId mgr + of_nat k) [0..<length calls] \<and>
    concat (map (\<lambda>(_, ans). announced_ports ans) answers) = ports_from (ready mgr) (offered_streams calls) \<and>
    openPorts mgr' = openPorts mgr"
  using assms
proof (induction calls arbitrary: mgr)
  case Nil
  then show ?case by (simp add: ports_from_def offered_streams_def)
next
  case (Cons call calls)
  obtain callId ofr where call: "call = (callId, ofr)" by (cases call)
  obtain t where t: "sdp_toString ofr = Inr t"
    using Cons.prems(3) call by auto
  have none: "getSession_of_call callId mgr = None"
    using Cons.prems(2) by (simp add: getSession_of_call_def)
  let ?n = "unat (streamCount ofr)"
  obtain j where j: "allocate (Inr ()) callId ofr (new_sdp clock) mgr = Inr (nextSessionId mgr,
        answer_for ?n (ready mgr) (nextSessionId mgr), mgr\<lparr>nextReadyPortIndex := j, nextSessionId := nextSessionId mgr + 1\<rparr>)"
      "unat j = (ready mgr + ?n) mod 1499"
    using allocate_result [OF Cons.prems(1) none t] by blast
  let ?mgr = "mgr\<lparr>nextReadyPortIndex := j, nextSessionId := nextSessionId mgr + 1\<rparr>"
  have "pool_ok ?mgr"
    using Cons.prems(1) j(2) by (simp add: pool_ok_def)
  then obtain answers mgr' where ih: "allocate_all (Inr ()) clock calls ?mgr = Inr (answers, mgr')"
      "map fst answers = map (\<lambda>k. nextSessionId mgr + 1 + of_nat k) [0..<length calls]"
      "concat (map (\<lambda>(_, ans). announced_ports ans) answers) = ports_from (ready mgr + ?n) (offered_streams calls)"
      "openPorts mgr' = openPorts mgr"
    using Cons.IH [of ?mgr] Cons.prems(2,3) j(2) by auto
  have "map (\<lambda>k. nextSessionId mgr + of_nat k) [0..<Suc (length calls)] =
      nextSessionId mgr # map (\<lambda>k. nextSessionId mgr + 1 + of_nat k) [0..<length calls]"
    by (rule nth_equalityI) (simp_all add: nth_Cons' algebra_simps del: upt_Suc)
  moreover have "ports_from (ready mgr) (offered_streams (call # calls)) =
      ports_from (ready mgr) ?n @ ports_from (ready mgr + ?n) (offered_streams calls)"
    by (simp add: offered_streams_def call ports_from_add)
  ultimately show ?case
    using ih j(1) by (simp add: call del: upt_Suc)
qed

text \<open>The log calls of the streams: a call whose offer has no stream makes none.\<close>

definition stream_log :: "logging \<Rightarrow> nat \<Rightarrow> logging" where
  "stream_log nl n = (if n = 0 then Inr () else nl)"

lemma stream_log_add: "bindO (stream_log nl m) (\<lambda>_. bindO (stream_log nl n) f) = bindO (stream_log nl (m + n)) f"
  by (simp add: stream_log_def)

lemma answer_streams_log:
  assumes "pool_ok mgr"
  shows "answer_streams nl n ans mgr = bindO (stream_log nl n) (\<lambda>_. answer_streams (Inr ()) n ans mgr)"
proof (cases nl)
  case (Inl e)
  then show ?thesis
    using allocatePort_next [OF assms] by (cases n) (auto simp: stream_log_def answer_stream_result)
next
  case (Inr u)
  then show ?thesis by (cases u) (simp add: stream_log_def)
qed

lemma allocate_log:
  assumes "pool_ok mgr" and "getSession_of_call callId mgr = None" and "sdp_toString ofr = Inr t"
  shows "allocate nl callId ofr ans mgr = bindO (stream_log nl (unat (streamCount ofr))) (\<lambda>_. allocate (Inr ()) callId ofr ans mgr)"
  using assms by (simp add: allocate_def answer_streams_log [of _ nl] bindO_assoc Let_def)

lemma allocate_all_log:
  assumes "pool_ok mgr" and "callIdToSessionIdLookup mgr = []"
    and "\<forall>(callId, ofr) \<in> set calls. \<exists>t. sdp_toString ofr = Inr t"
  shows "allocate_all nl clock calls mgr = bindO (stream_log nl (offered_streams calls)) (\<lambda>_. allocate_all (Inr ()) clock calls mgr)"
  using assms
proof (induction calls arbitrary: mgr)
  case Nil
  then show ?case by (simp add: offered_streams_def stream_log_def)
next
  case (Cons call calls)
  obtain callId ofr where call: "call = (callId, ofr)" by (cases call)
  obtain t where t: "sdp_toString ofr = Inr t"
    using Cons.prems(3) call by auto
  have none: "getSession_of_call callId mgr = None"
    using Cons.prems(2) by (simp add: getSession_of_call_def)
  obtain j where j: "allocate (Inr ()) callId ofr (new_sdp clock) mgr = Inr (nextSessionId mgr,
        answer_for (unat (streamCount ofr)) (ready mgr) (nextSessionId mgr), mgr\<lparr>nextReadyPortIndex := j, nextSessionId := nextSessionId mgr + 1\<rparr>)"
      "unat j = (ready mgr + unat (streamCount ofr)) mod 1499"
    using allocate_result [OF Cons.prems(1) none t] by blast
  let ?mgr = "mgr\<lparr>nextReadyPortIndex := j, nextSessionId := nextSessionId mgr + 1\<rparr>"
  have "pool_ok ?mgr"
    using Cons.prems(1) j(2) by (simp add: pool_ok_def)
  then have "allocate_all nl clock calls ?mgr = bindO (stream_log nl (offered_streams calls)) (\<lambda>_. allocate_all (Inr ()) clock calls ?mgr)"
    using Cons.IH Cons.prems(2,3) by simp
  moreover have "offered_streams (call # calls) = unat (streamCount ofr) + offered_streams calls"
    by (simp add: offered_streams_def call)
  ultimately show ?case
    using j(1) by (simp add: call allocate_log [OF Cons.prems(1) none t, of nl] bindO_assoc stream_log_add)
qed

section \<open>Open ports\<close>

text \<open>No entry is ever added to the vector of sockets.\<close>

lemma initialise_faults: "portData mgr = [] \<Longrightarrow> 0 < maxPorts \<Longrightarrow> initialise maxPorts mgr = Inl OutOfBounds"
proof -
  assume "portData mgr = []" "0 < maxPorts"
  moreover from this obtain n where "unat maxPorts = Suc n"
    by (metis gr0_implies_Suc unat_gt_0 word_neq_0_conv)
  ultimately show ?thesis by (simp add: initialise_def)
qed

section \<open>Properties\<close>

text \<open>
  C19: Whatever calls the manager is asked to allocate, in any order and with any call ids, the
  k-th stream of all answers is given the k-th port of a cycle of 1499 ports, so that no two of 1499
  consecutive streams share a port, and the sessions get consecutive ids from 1001; a call id that
  comes again gets a new session. The first stream logs through a logger that is not there: if that faults,
  so does the run, unless no call offers a stream. None of the ports has an open socket: \<^verbatim>\<open>initialise\<close>, which
  is to open them, leaves the bounds of its empty vector with its first access.
\<close>

theorem media_calls_cycle_through_ports:
  assumes "1499 \<le> length fresh" and "\<forall>(callId, ofr) \<in> set calls. \<exists>t. sdp_toString ofr = Inr t"
  shows "\<exists>answers mgr. allocate_all nl clock calls (MediaSessionManager fresh) =
      bindO (if offered_streams calls = 0 then Inr () else nl) (\<lambda>_. Inr (answers, mgr)) \<and>
    map fst answers = map (\<lambda>k. 1001 + of_nat k) [0..<length calls] \<and>
    concat (map (\<lambda>(_, ans). announced_ports ans) answers) = map (\<lambda>k. 4000 + 2 * of_nat (k mod 1499)) [0..<offered_streams calls] \<and>
    openPorts mgr = [] \<and> initialise 100 (MediaSessionManager fresh) = Inl OutOfBounds"
proof -
  let ?new = "MediaSessionManager fresh"
  have new: "nextSessionId ?new = 1001" "callIdToSessionIdLookup ?new = []" "openPorts ?new = []" "portData ?new = []"
    by (simp_all add: MediaSessionManager_def Let_def)
  note pool = new_manager_pool [OF assms(1)]
  obtain answers mgr where "allocate_all (Inr ()) clock calls ?new = Inr (answers, mgr)"
      "map fst answers = map (\<lambda>k. 1001 + of_nat k) [0..<length calls]"
      "concat (map (\<lambda>(_, ans). announced_ports ans) answers) = ports_from 0 (offered_streams calls)" "openPorts mgr = []"
    using allocate_all_result [OF pool(1) new(2) assms(2), of clock] new pool(2) by auto
  then show ?thesis
    using allocate_all_log [OF pool(1) new(2) assms(2), of nl clock] initialise_faults [OF new(4), of 100]
    by (intro exI [of _ answers] exI [of _ mgr]) (simp add: stream_log_def ports_from_def pool_port_def)
qed

theorem media_calls_cycle_through_ports_witness:
  "\<forall>nl. \<exists>answers mgr. allocate_all nl 0 [(''a@b'', sample_sdp), (''a@b'', sample_sdp)] (MediaSessionManager (replicate 1499 0)) =
      bindO nl (\<lambda>_. Inr (answers, mgr)) \<and>
    map fst answers = [1001, 1002] \<and> concat (map (\<lambda>(_, ans). announced_ports ans) answers) = [4000, 4002]" (is "\<forall>nl. ?P nl")
proof (rule allI)
  fix nl :: logging
  let ?calls = "[(''a@b'', sample_sdp), (''a@b'', sample_sdp)]"
  have "\<forall>(callId, ofr) \<in> set ?calls. \<exists>t. sdp_toString ofr = Inr t"
    using sample_sdp_text by simp
  moreover have "offered_streams ?calls = 2"
    by (simp add: offered_streams_def sample_sdp_def)
  moreover have "[0..<2] = [0, 1 :: nat]" "length ?calls = 2"
    by (simp_all add: upt_rec)
  ultimately show "?P nl"
    using media_calls_cycle_through_ports [of "replicate 1499 0" ?calls nl 0] by auto
qed

end
