(* ===== verification/MediaService.thy ===== *)
theory MediaService
  imports MediaMessages MediaSessions
begin

text \<open>
  Model of \<^verbatim>\<open>src/src/applications/media.cpp\<close>: the handler of the media process, on the messages of
  \<^verbatim>\<open>MediaMessages\<close> and the manager of \<^verbatim>\<open>MediaSessions\<close>. What is written to a stream is appended to the
  texts sent. \<open>clock\<close> gives the times of the two descriptions made for one request. \<^verbatim>\<open>main\<close> calls
  \<^verbatim>\<open>initialise(100)\<close> before it serves, whose first access leaves an empty vector (\<open>initialise_faults\<close>); the
  theorems about the service start from a manager with its pool of ports (\<open>pool_ok\<close>) and none opened.
\<close>

section \<open>The handler\<close>

record media_service =
  manager :: media_manager
  sent :: "string list"

definition PostResponse :: "json_writer \<Rightarrow> media_message \<Rightarrow> media_service \<Rightarrow> media_service" where
  "PostResponse writer m s = s\<lparr>sent := sent s @ [toJson writer m]\<rparr>"

text \<open>A response is made for the ids of the request, and posted.\<close>

definition respond :: "logging \<Rightarrow> json_writer \<Rightarrow> media_base \<Rightarrow> media_response \<Rightarrow> media_service \<Rightarrow> media_service outcome" where
  "respond nl writer b r s =
     bindO (MediaResponse_object nl (mediaDialogueId b) (mediaCallbackId b) 0 ''OK'' r) (\<lambda>m.
       Inr (PostResponse writer m s))"

definition handle_allocate :: "logging \<Rightarrow> json_writer \<Rightarrow> u64 \<times> u64 \<Rightarrow> media_base \<Rightarrow> string \<Rightarrow> string \<Rightarrow>
    media_service \<Rightarrow> media_service outcome" where
  "handle_allocate nl writer clock b callId rawOffer s =
     bindO (Sdp nl (fst clock) (rawOffer @ [NUL]) (length rawOffer)) (\<lambda>ofr.
     bindO (allocate nl callId ofr (new_sdp (snd clock)) (manager s)) (\<lambda>(n, ans, mgr).
     bindO (sdp_toString ans) (\<lambda>t.
       respond nl writer b (MediaAllocateResponse n t) (s\<lparr>manager := mgr\<rparr>))))"

definition mediaRequestHandler :: "logging \<Rightarrow> json_writer \<Rightarrow> u64 \<times> u64 \<Rightarrow> media_message \<Rightarrow> media_service \<Rightarrow>
    media_service outcome" where
  "mediaRequestHandler nl writer clock m s =
     (case m of
        MediaResponse _ _ _ _ \<Rightarrow> Inl BadCast
      | MediaRequest b r \<Rightarrow>
         (case r of
            MediaRegisterRequest _ \<Rightarrow> respond nl writer b MediaRegisterResponse s
          | MediaAllocateRequest callId rawOffer \<Rightarrow> handle_allocate nl writer clock b callId rawOffer s
          | MediaReleaseRequest i _ \<Rightarrow>
              respond nl writer b (MediaReleaseResponse i) (s\<lparr>manager := release i (manager s)\<rparr>)
          | MediaRecordStartRequest i f \<Rightarrow>
              let _ = retrieveSession (fst clock) i (manager s)
              in respond nl writer b (MediaRecordStartResponse i (c_str f) ''temporary-system-reference'') s
          | MediaRecordStopRequest i \<Rightarrow>
              respond nl writer b
                (MediaRecordStopResponse i ''TBC-GetTheFileName-MediaEngine'' ''temporary-system-reference'') s))"

text \<open>The process: what is read from the stream goes to the handler.\<close>

definition media_process :: "logging \<Rightarrow> json_reader \<Rightarrow> json_writer \<Rightarrow> u64 \<times> u64 \<Rightarrow> read_event \<Rightarrow> media_service \<Rightarrow>
    media_service outcome" where
  "media_process nl reader writer clock ev s =
     MediaServer_on_read nl reader (mediaRequestHandler nl writer clock) (\<lambda>s. s) ev s"

section \<open>An offer is answered\<close>

lemma answer_for_printable: "n < 256 \<Longrightarrow> printable (answer_for n i sid)"
  using answered_stream_printable
  by (auto simp: printable_def answer_for_def printable_origin_def printable_connection_def SdpConnection_def
      CONFIG_LOCAL_IP_ADDRESS_def word_def isspace_def char_code_def unat_of_nat)

lemma answer_for_text:
  assumes "n < 256"
  shows "\<exists>t. sdp_toString (answer_for n i sid) = Inr t"
proof -
  have "\<exists>o1. origin_toString (sdpOrigin (answer_for n i sid)) = Inr o1"
    by (simp add: answer_for_def origin_toString_def initialised_def)
  then show ?thesis
    using sdp_toString_lines [OF answer_for_printable [OF assms]] by blast
qed

lemma unat_streamCount_less: "unat (streamCount s) < 256"
  using unsigned_less [of "streamCount s", where ?'a = nat] by simp

lemma respond_eq:
  "respond nl writer b r s = bindO nl (\<lambda>_. Inr (PostResponse writer (MediaResponse b 0 ''OK'' r) s))"
  by (cases nl) (simp_all add: respond_def MediaResponse_object_def MediaMessage_def)

lemma handle_allocate_nl:
  "handle_allocate nl writer clock b callId rawOffer s = bindO nl (\<lambda>_. handle_allocate (Inr ()) writer clock b callId rawOffer s)"
  by (cases nl) (simp_all add: handle_allocate_def Sdp_nl [of _ _ "Inl _"])

lemma allocate_request_answered:
  assumes "pool_ok (manager s)" and "callIdToSessionIdLookup (manager s) = []"
    and "Sdp (Inr ()) (fst clock) (rawOffer @ [NUL]) (length rawOffer) = Inr ofr" and "sdp_toString ofr = Inr t"
  obtains j ans where "handle_allocate nl writer clock b callId rawOffer s = bindO nl (\<lambda>_. Inr (PostResponse writer
      (MediaResponse b 0 ''OK'' (MediaAllocateResponse (nextSessionId (manager s)) ans))
      (s\<lparr>manager := (manager s)\<lparr>nextReadyPortIndex := j, nextSessionId := nextSessionId (manager s) + 1\<rparr>\<rparr>)))"
    and "unat j = (ready (manager s) + unat (streamCount ofr)) mod 1499"
    and "sdp_toString (answer_for (unat (streamCount ofr)) (ready (manager s)) (nextSessionId (manager s))) = Inr ans"
proof -
  let ?n = "unat (streamCount ofr)" and ?mgr = "manager s"
  have "getSession_of_call callId ?mgr = None"
    using assms(2) by (simp add: getSession_of_call_def)
  from allocate_result [OF assms(1) this assms(4)] obtain j where
    "allocate (Inr ()) callId ofr (new_sdp (snd clock)) ?mgr = Inr (nextSessionId ?mgr,
       answer_for ?n (ready ?mgr) (nextSessionId ?mgr), ?mgr\<lparr>nextReadyPortIndex := j, nextSessionId := nextSessionId ?mgr + 1\<rparr>)"
    "unat j = (ready ?mgr + ?n) mod 1499"
    by blast
  moreover obtain ans where "sdp_toString (answer_for ?n (ready ?mgr) (nextSessionId ?mgr)) = Inr ans"
    using answer_for_text [OF unat_streamCount_less] by blast
  ultimately show thesis
    using that assms(3) handle_allocate_nl [of nl writer clock b callId rawOffer s]
    by (simp add: handle_allocate_def [of "Inr ()"] respond_eq)
qed

context json_codec begin

lemma request_reaches_handler:
  assumes "fits_int (mediaDialogueId b)"
  shows "media_process nl reader writer clock
      (ReadBytes (toJson writer (MediaRequest b (MediaAllocateRequest callId rawOffer)))) s
    = handle_allocate nl writer clock b callId rawOffer s"
proof -
  have "int_fields_fit (MediaRequest b (MediaAllocateRequest callId rawOffer))"
    using assms by (simp add: int_fields_fit_def)
  from built_message [OF this, of nl] show ?thesis
    using handle_allocate_nl [of nl writer clock b callId rawOffer s]
    by (cases nl) (simp_all add: media_process_def MediaServer_on_read_def getType_def mediaRequestHandler_def)
qed

end

text \<open>
  C8: An allocation request with a session description of any number of streams, as it arrives from the
  connection, is answered with one message: same dialogue and callback, code 0, the next session id, and a
  session description that reads back (when it fits the 4096 bytes a reader takes) as one audio stream
  on the next port of the cycle for every stream of the offer. If the log calls through loggers that are
  not there fault, the first of them, in the constructor of the request, is all that happens.
\<close>

theorem media_offer_is_answered:
  assumes "fits_int (mediaDialogueId b)"
    and "pool_ok (manager s)" and "callIdToSessionIdLookup (manager s) = []"
    and "Sdp (Inr ()) (fst clock) (rawOffer @ [NUL]) (length rawOffer) = Inr ofr" and "sdp_toString ofr = Inr t"
  shows "\<exists>s' ans. media_process nl (json_read to_double slack) fast_write clock
      (ReadBytes (toJson fast_write (MediaRequest b (MediaAllocateRequest callId rawOffer)))) s = bindO nl (\<lambda>_. Inr s') \<and>
    sent s' = sent s @ [toJson fast_write (MediaResponse b 0 ''OK'' (MediaAllocateResponse (nextSessionId (manager s)) ans))] \<and>
    pool_ok (manager s') \<and> callIdToSessionIdLookup (manager s') = [] \<and>
    ready (manager s') = (ready (manager s) + unat (streamCount ofr)) mod 1499 \<and>
    (length ans \<le> MaxSdpBodyLength \<longrightarrow> (\<exists>d. Sdp (Inr ()) now (ans @ [NUL]) (length ans) = Inr d \<and>
       announced_ports d = ports_from (ready (manager s)) (unat (streamCount ofr)) \<and>
       (\<forall>m \<in> set (sdpMedia d). mediaType m = Media_audio \<and> mediaProtocol m = Proto_rtp)))"
proof -
  let ?n = "unat (streamCount ofr)" and ?r = "MediaRequest b (MediaAllocateRequest callId rawOffer)"
  let ?a = "answer_for ?n (ready (manager s)) (nextSessionId (manager s))"
  obtain j ans where h: "handle_allocate nl fast_write clock b callId rawOffer s = bindO nl (\<lambda>_. Inr (PostResponse fast_write
      (MediaResponse b 0 ''OK'' (MediaAllocateResponse (nextSessionId (manager s)) ans))
      (s\<lparr>manager := (manager s)\<lparr>nextReadyPortIndex := j, nextSessionId := nextSessionId (manager s) + 1\<rparr>\<rparr>)))"
      "unat j = (ready (manager s) + ?n) mod 1499" "sdp_toString ?a = Inr ans"
    using allocate_request_answered [OF assms(2-5)] by blast
  have "media_process nl (json_read to_double slack) fast_write clock (ReadBytes (toJson fast_write ?r)) s
      = handle_allocate nl fast_write clock b callId rawOffer s"
    by (rule jsoncpp.request_reaches_handler [OF assms(1)])
  moreover have "Sdp (Inr ()) now (ans @ [NUL]) (length ans) = Inr (read_back ?a)" if "length ans \<le> MaxSdpBodyLength"
    using printed_sdp_read [OF answer_for_printable [OF unat_streamCount_less] h(3) that, of now "[]"] by simp
  moreover have "announced_ports (read_back ?a) = announced_ports ?a"
    by (simp add: announced_ports_def read_back_def without_formats_def comp_def)
  moreover have "\<forall>m \<in> set (sdpMedia (read_back ?a)). mediaType m = Media_audio \<and> mediaProtocol m = Proto_rtp"
    by (auto simp: read_back_def answer_for_def answered_stream_def without_formats_def)
  ultimately show ?thesis
    using h assms(2,3)
    by (intro exI [of _ "PostResponse fast_write (MediaResponse b 0 ''OK'' (MediaAllocateResponse (nextSessionId (manager s)) ans))
        (s\<lparr>manager := (manager s)\<lparr>nextReadyPortIndex := j, nextSessionId := nextSessionId (manager s) + 1\<rparr>\<rparr>)"] exI [of _ ans])
      (auto simp: PostResponse_def pool_ok_def)
qed

definition example_allocate :: media_message where
  "example_allocate = MediaRequest (media_ids 7 3) (MediaAllocateRequest [] sample_text)"

definition example_service :: media_service where
  "example_service = \<lparr>manager = MediaSessionManager (replicate 1499 0), sent = []\<rparr>"

lemma sample_offer:
  "Sdp (Inr ()) 0 (sample_text @ [NUL]) (length sample_text) = Inr (read_back sample_sdp)"
  "\<exists>t. sdp_toString (read_back sample_sdp) = Inr t" "unat (streamCount (read_back sample_sdp)) = 1"
  using printed_sdp_read [OF sample_sdp_printable sample_sdp_text, of 0 "[]"]
  by (simp_all add: sample_text_def MaxSdpBodyLength_def read_back_def sample_sdp_def sdp_toString_def origin_toString_def
      media_toString_def without_formats_def initialised_def)

lemma example_service_fields:
  "pool_ok (manager example_service)" "ready (manager example_service) = 0"
  "callIdToSessionIdLookup (manager example_service) = []" "sent example_service = []"
  "nextSessionId (manager example_service) = 1001"
  using new_manager_pool [of "replicate 1499 0"]
  by (simp_all add: example_service_def) (simp_all add: MediaSessionManager_def Let_def)

theorem media_offer_is_answered_witness:
  "\<forall>nl. \<exists>s' ans. media_process nl (json_read (\<lambda>_. None) (\<lambda>_. [])) fast_write (0, 0)
      (ReadBytes (toJson fast_write example_allocate)) example_service = bindO nl (\<lambda>_. Inr s') \<and>
    sent s' = [toJson fast_write (MediaResponse (media_ids 7 3) 0 ''OK'' (MediaAllocateResponse 1001 ans))] \<and> ready (manager s') = 1" (is "\<forall>nl. ?P nl")
proof (rule allI)
  fix nl :: logging
  show "?P nl"
    using sample_offer media_offer_is_answered [of "media_ids 7 3" example_service "(0, 0)" sample_text
      "read_back sample_sdp" _ nl "\<lambda>_. None" "\<lambda>_. []" "[]" 0]
    by (fastforce simp: fits_int_def example_allocate_def example_service_fields)
qed

text \<open>
  An allocation request with an empty session description (the call came without one) makes the media
  process read a variable that was never set, once its loggers are there: the version of the origin it
  prints for its log.
\<close>

theorem empty_offer_reads_indeterminate:
  assumes "fits_int (mediaDialogueId b)"
  shows "media_process nl (json_read to_double slack) fast_write clock
      (ReadBytes (toJson fast_write (MediaRequest b (MediaAllocateRequest callId [])))) s = bindO nl (\<lambda>_. Inl Indeterminate)"
proof -
  have "tokens (\<lambda>c. c = CR \<or> c = LF) [] = []"
    by simp
  then have "buffer_split_lines (view [NUL] 0) = []"
    using buffer_split_lines_tokens [of "view [NUL] 0"] by (simp add: toString_view)
  then have "Sdp (Inr ()) (fst clock) [NUL] 0 = Inr (new_sdp (fst clock))"
    by (simp add: Sdp_def Let_def MaxSdpBodyLength_def)
  moreover have "allocate nl callId (new_sdp (fst clock)) ans mgr = Inl Indeterminate" for nl ans mgr
    by (simp add: allocate_def sdp_toString_def new_sdp_def SdpOrigin_now_def origin_toString_def initialised_def)
  ultimately have "handle_allocate (Inr ()) fast_write clock b callId [] s = Inl Indeterminate"
    by (simp add: handle_allocate_def)
  then show ?thesis
    by (simp add: jsoncpp.request_reaches_handler [OF assms] handle_allocate_nl [of nl])
qed

theorem empty_offer_reads_indeterminate_witness:
  "media_process nl (json_read (\<lambda>_. None) (\<lambda>_. [])) fast_write (0, 0)
     (ReadBytes (toJson fast_write (MediaRequest (media_ids 7 3) (MediaAllocateRequest [] [])))) example_service =
   bindO nl (\<lambda>_. Inl Indeterminate)"
  by (rule empty_offer_reads_indeterminate) (simp add: fits_int_def)

end
