(* ===== verification/CallSetup.thy ===== *)
theory CallSetup
  imports Core MediaService
begin

text \<open>
  The components together: an INVITE on the wire, the notification to the controller, its answer, the
  allocation by the media process and the response to the INVITE. Each stage is a lemma about one
  process and the text it reads; the texts are those the previous stage wrote.
\<close>

section \<open>The announced call\<close>

lemma announced_channel:
  assumes "interface_inv i'" and "announced m i i'"
  shows "retrieveDialogueByChannel (lastChannelId (dialogueManager i) + 1) (dialogueManager i') = Some (length (current i))"
proof -
  have "retrieveDialogue (header_text ''CALL-ID'' m) (dialogueManager i') = Some (length (current i))"
    using assms(2) by (simp add: announced_def Let_def)
  moreover have "channel_of (dialogueManager i') (length (current i)) = lastChannelId (dialogueManager i) + 1"
    using assms(2) by (simp add: announced_def Let_def channel_of_def fresh_dialogue_def)
  moreover have "manager_inv (dialogueManager i')"
    using assms(1) by (simp add: interface_inv_def)
  ultimately show ?thesis
    using dm.found_agree by metis
qed

lemma announced_offer:
  assumes "interface_inv i'" and "announced m i i'"
  shows "getMediaOffer (Inr ()) (lastChannelId (dialogueManager i) + 1) i' = Inr (getBody Body_SDP m)"
  using announced_channel [OF assms] assms(2)
  by (simp add: getMediaOffer_def announced_def Let_def dialogue_of_def dialogue_at_def fresh_dialogue_def SipTransaction_def)

lemma announced_answer:
  assumes "interface_inv i'" and "announced m i i'" and "complete_request m"
  shows "answerCall (Inr ()) (lastChannelId (dialogueManager i) + 1) tag contactField sdp i' =
    Inr (0, i'\<lparr>actions := actions i' @ [reply_action (buildAnswerResponse (Inr ()) ''temporary-response-tag'' sdp) m]\<rparr>)"
proof -
  let ?a = "length (messages (dialogueManager i))" and ?build = "buildAnswerResponse (Inr ()) ''temporary-response-tag'' sdp"
  have m: "?a < length (messages (dialogueManager i'))" "messages (dialogueManager i') ! ?a = m"
    using assms(2) by (simp_all add: announced_def Let_def)
  obtain resp where resp: "?build m = Inr (resp, m)"
    using complete_builds(3) [OF assms(3)] by blast
  obtain adr prt tr via where via: "getRemoteAddress m = Inr (adr, m)" "getRemotePort m = Inr (prt, m)"
      "getTransportType m = Inr (tr, m)"
    using complete_via [OF assms(3)] by metis
  have "ask ?a ?build i' = Inr (resp, i')" "ask ?a getRemoteAddress i' = Inr (adr, i')"
      "ask ?a getRemotePort i' = Inr (prt, i')" "ask ?a getTransportType i' = Inr (tr, i')"
    using ask_unchanged [OF m(1)] m(2) resp via by metis+
  moreover have "current i' ! length (current i) =
      (fresh_dialogue (lastChannelId (dialogueManager i) + 1) ?a m)\<lparr>dialogueState := INCOMING\<rparr>"
      "length (current i) < length (current i')"
    using assms(2) by (simp_all add: announced_def Let_def)
  ultimately show ?thesis
    using announced_channel [OF assms(1,2)]
    by (simp add: answerCall_def dialogue_of_def dialogue_at_def fresh_dialogue_def SipTransaction_def sendMessage_def
        reply_action_def resp via)
qed

lemma events_of_reply [simp]: "events_of (reply_action build m # acts) = events_of acts"
proof -
  have "\<exists>adr prt tr resp. reply_action build m = Send adr prt tr resp"
    by (auto simp: reply_action_def split: sum.split prod.split)
  then show ?thesis by auto
qed

section \<open>The stages\<close>

text \<open>The controller is told of the call.\<close>

lemma call_is_notified:
  assumes "onUdpRecv (Inr ()) fresh dest bytes_read mem (sip c) = Some (Inr i')" and "announced m (sip c) i'"
    and "controlStream c = Some st"
  obtains t where "core_datagram (Inr ()) writer fresh dest bytes_read mem c =
      Some (Inr (c\<lparr>sip := i', controlSent := controlSent c @ [(st, t)]\<rparr>))"
    and "notification_toJson writer (incoming_notification (lastChannelId (dialogueManager (sip c)) + 1)
      (header_text ''CALL-ID'' m) ''temporary-response-tag'' (header_text ''TO'' m) (header_text ''FROM'' m) (headers_of m)) = Inr t"
proof -
  let ?n = "incoming_notification (lastChannelId (dialogueManager (sip c)) + 1)
      (header_text ''CALL-ID'' m) ''temporary-response-tag'' (header_text ''TO'' m) (header_text ''FROM'' m) (headers_of m)"
  obtain t where t: "notification_toJson writer ?n = Inr t"
      "notify writer ?n (c\<lparr>sip := i'\<rparr>) = Inr (c\<lparr>sip := i', controlSent := controlSent c @ [(st, t)]\<rparr>)"
    using notify_sends [of "c\<lparr>sip := i'\<rparr>" st writer ?n] assms(3) by auto
  have "after_sip writer i' c = Inr (c\<lparr>sip := i', controlSent := controlSent c @ [(st, t)]\<rparr>)"
    using assms(2) t(2) by (simp add: after_sip_def announced_def Let_def sipEventHandler_def fresh_dialogue_def)
  then show thesis
    using that t(1) assms(1) by (simp add: core_datagram_def)
qed

text \<open>The answer of the controller becomes a request with the offer of the call.\<close>

lemma answer_is_requested:
  assumes "interface_inv (sip c)" and "announced m i (sip c)" and "mediaConnected c"
    and "control_build_request reader bytes = Inr (Some (CallAnswerRequest d ch tag contact))"
    and "word_of_int ch = lastChannelId (dialogueManager i) + 1"
  shows "core_control (Inr ()) reader writer st (ReadBytes bytes) c =
    Inr (c\<lparr>controlStream := Some st, mediaSent := mediaSent c @ [toJson writer
      (MediaRequest (media_ids d (word_of_int ch)) (MediaAllocateRequest [] (getBody Body_SDP m)))]\<rparr>)"
  using announced_offer [OF assms(1,2)] assms(3-5)
  by (simp add: core_control_def Control_on_read_def controlRequestHandler_def answer_request_def request_getChannelId_def
      request_getCallId_def PostRequest_def MediaRequest_object_def MediaMessage_def)

context json_codec begin

text \<open>The answer of the media process becomes the response to the INVITE.\<close>

lemma answer_is_sent:
  assumes "interface_inv (sip c)" and "announced m i (sip c)" and "complete_request m" and "fits_int d"
    and "cb = lastChannelId (dialogueManager i) + 1"
  shows "core_media (Inr ()) reader writer
      (ReadBytes (toJson writer (MediaResponse (media_ids d cb) 0 ''OK'' (MediaAllocateResponse n ans)))) c =
    Inr (c\<lparr>theresourceId := n, sip := (sip c)\<lparr>actions := actions (sip c) @
      [reply_action (buildAnswerResponse (Inr ()) ''temporary-response-tag'' ans) m]\<rparr>\<rparr>)"
proof -
  have "int_fields_fit (MediaResponse (media_ids d cb) 0 ''OK'' (MediaAllocateResponse n ans))"
    using assms(4) by (simp add: int_fields_fit_def fits_int_def)
  from built_message [OF this] show ?thesis
    using announced_answer [OF assms(1-3)] assms(5)
    by (simp add: core_media_def MediaClient_on_read_def getType_def mediaResponseHandler_def)
qed

end

section \<open>A call is set up\<close>

text \<open>
  C1: A call is set up. A reachable core process with a controller and the media process connected receives
  an INVITE with a session description for a call it does not know; the controller answers the channel it
  was told; the media process reads the request of the core and the core its response. With loggers for the
  objects that have none in the code (\<open>nl = Inr ()\<close>), and a media process with a pool of ports, no step
  faults, and each process hands exactly one text to the next: the controller reads an incoming call with the
  channel, call id, To and From of the INVITE, the media process gets the session description of the
  INVITE, and the actions of the core towards SIP are the 100 Trying reply, the new-call event and the
  200 OK with the session description that opens one port for every stream offered.
\<close>

theorem call_is_set_up:
  assumes loggers: "nl = Inr ()" and core: "core_reachable nl reader fast_write c" "controlStream c = Some st" "mediaConnected c"
      "length (current (sip c)) + 2 < 2 ^ 32"
    and parser: "\<not> processingMessage (udpParser (sip c))" "receivedContentLength (udpParser (sip c)) = 0"
      "map_of (dataBodies (parserData (udpParser (sip c)))) Body_SDP = None"
    and hs: "\<forall>h \<in> set (start # rest). wire_ok h" and inv: "map toupper (whName start) = ''INVITE''"
    and sent: "\<forall>k \<in> set announced_names. last_value (map header_of rest) k \<noteq> []"
    and via: "usual_via (last_value (map header_of rest) ''VIA'')" "\<forall>h \<in> set rest. via_ok (header_of h)"
    and clen: "last_value (map header_of rest) ''CONTENT-LENGTH'' = show_nat (length body)"
    and ctype: "last_value (map header_of rest) ''CONTENT-TYPE'' \<noteq> []"
      "content_type_of (buffer_of_string (last_value (map header_of rest) ''CONTENT-TYPE'')) = Body_SDP"
    and body: "body \<noteq> []" "NUL \<notin> set body" "\<not> contains message_delimiter body"
    and size: "length (wire_block (start # rest) @ body) \<le> 4096"
    and mem: "length fresh = 4097" "length udp_buf = 4096"
    and unknown: "retrieveDialogue (last_value (map header_of rest) ''CALL-ID'') (dialogueManager (sip c)) = None"
    and answer: "control_build_request reader bytes = Inr (Some (CallAnswerRequest d ch tag contact))"
      "word_of_int ch = lastChannelId (dialogueManager (sip c)) + 1" "fits_int d"
    and media: "pool_ok (manager s)" "callIdToSessionIdLookup (manager s) = []"
      "Sdp nl (fst clock) (body @ [NUL]) (length body) = Inr ofr" "sdp_toString ofr = Inr t"
    and json: "reader = json_read to_double slack"
  shows "\<exists>c1 c2 c3 s' notif doc x request response ans m.
    core_datagram nl fast_write fresh udp_buf (int (length (wire_block (start # rest) @ body))) (wire_block (start # rest) @ body) c
      = Some (Inr c1) \<and> controlSent c1 = controlSent c @ [(st, notif)] \<and>
    reader (c_str notif) = Inr (Some doc) \<and> members doc ''method'' = Some (JString ''callIncoming'') \<and>
    members doc ''channelId'' = Some (JInt (int_of_channel (word_of_int ch))) \<and> members doc ''data'' = Some x \<and>
    members x ''callId'' = Some (JString (c_str (last_value (map header_of rest) ''CALL-ID''))) \<and>
    members x ''to'' = Some (JString (c_str (last_value (map header_of rest) ''TO''))) \<and>
    members x ''from'' = Some (JString (c_str (last_value (map header_of rest) ''FROM''))) \<and>
    core_control nl reader fast_write st (ReadBytes bytes) c1 = Inr c2 \<and> mediaSent c2 = mediaSent c1 @ [request] \<and>
    media_process nl reader fast_write clock (ReadBytes request) s = Inr s' \<and> sent s' = sent s @ [response] \<and>
    core_media nl reader fast_write (ReadBytes response) c2 = Inr c3 \<and>
    getBody Body_SDP m = body \<and>
    sdp_toString (answer_for (unat (streamCount ofr)) (ready (manager s)) (nextSessionId (manager s))) = Inr ans \<and>
    actions (sip c3) = actions (sip c) @
      [reply_action (buildTryingResponse nl ''temporary-response-tag'') m,
       Event (CallNewCallEvent (word_of_int ch) (last_value (map header_of rest) ''CALL-ID'') ''temporary-response-tag''
         (last_value (map header_of rest) ''TO'') (last_value (map header_of rest) ''FROM'') (headers_of m) (msgBodies m)),
       reply_action (buildAnswerResponse nl ''temporary-response-tag'' ans) m] \<and>
    theresourceId c3 = nextSessionId (manager s)"
proof -
  note core = core [unfolded loggers] and media = media [unfolded loggers]
  let ?mem = "wire_block (start # rest) @ body" and ?v = "last_value (map header_of rest)"
  let ?ch = "lastChannelId (dialogueManager (sip c)) + 1" and ?tag = "''temporary-response-tag''"
  obtain i' m where invite: "onUdpRecv (Inr ()) fresh udp_buf (int (length ?mem)) ?mem (sip c) = Some (Inr i')"
    and ann: "announced m (sip c) i'" and m: "complete_request m" "getBody Body_SDP m = body"
    and fields: "\<And>k. header_text k m = ?v k"
    using invite_datagram [where nl = "Inr ()", OF parser hs inv sent via clen ctype body size mem unknown] by auto
  have "channel_left i'"
    using core(4) ann by (simp add: channel_left_def announced_def Let_def)
  then have "sip_reachable (Inr ()) i'"
    using udp_keeps_reachable [OF _ _ mem invite] core_reachable_inv [OF core(1)] by (simp add: core_inv_def)
  then have inv': "interface_inv i'" by (rule reachable_inv)
  obtain notif where notif: "core_datagram (Inr ()) fast_write fresh udp_buf (int (length ?mem)) ?mem c =
      Some (Inr (c\<lparr>sip := i', controlSent := controlSent c @ [(st, notif)]\<rparr>))"
    "notification_toJson fast_write (incoming_notification ?ch (?v ''CALL-ID'') ?tag (?v ''TO'') (?v ''FROM'') (headers_of m)) = Inr notif"
    by (rule call_is_notified [OF invite ann core(2), unfolded fields]) blast
  let ?c1 = "c\<lparr>sip := i', controlSent := controlSent c @ [(st, notif)]\<rparr>"
  obtain doc x where doc: "reader (c_str notif) = Inr (Some doc)" "members doc ''method'' = Some (JString ''callIncoming'')"
      "members doc ''channelId'' = Some (JInt (int_of_channel ?ch))" "members doc ''data'' = Some x"
      "members x ''callId'' = Some (JString (c_str (?v ''CALL-ID'')))" "members x ''to'' = Some (JString (c_str (?v ''TO'')))"
      "members x ''from'' = Some (JString (c_str (?v ''FROM'')))"
    using jsoncpp.incoming_read_back [OF _ _ notif(2) [unfolded incoming_notification_def], where to_double = to_double and slack = slack]
    unfolding json by (auto simp: fits_int_def)
  let ?b = "media_ids d (word_of_int ch)"
  let ?c2 = "?c1\<lparr>controlStream := Some st, mediaSent := mediaSent c @
      [toJson fast_write (MediaRequest ?b (MediaAllocateRequest [] body))]\<rparr>"
  have c2: "core_control (Inr ()) reader fast_write st (ReadBytes bytes) ?c1 = Inr ?c2"
    using answer_is_requested [OF _ _ _ answer(1,2), of ?c1 m fast_write st] inv' ann core(3) m(2) by simp
  obtain j ans where h: "handle_allocate (Inr ()) fast_write clock ?b [] body s = Inr (PostResponse fast_write
      (MediaResponse ?b 0 ''OK'' (MediaAllocateResponse (nextSessionId (manager s)) ans))
      (s\<lparr>manager := (manager s)\<lparr>nextReadyPortIndex := j, nextSessionId := nextSessionId (manager s) + 1\<rparr>\<rparr>))"
    and ans: "sdp_toString (answer_for (unat (streamCount ofr)) (ready (manager s)) (nextSessionId (manager s))) = Inr ans"
    using allocate_request_answered [where nl = "Inr ()", OF media] unfolding bindO_Inr by blast
  have "fits_int (mediaDialogueId ?b)"
    using answer(3) by simp
  note h = jsoncpp.request_reaches_handler [OF this, of "Inr ()" to_double slack clock "[]" body s, folded json, unfolded h]
  let ?response = "toJson fast_write (MediaResponse ?b 0 ''OK'' (MediaAllocateResponse (nextSessionId (manager s)) ans))"
  let ?c3 = "?c2\<lparr>theresourceId := nextSessionId (manager s),
      sip := i'\<lparr>actions := actions i' @ [reply_action (buildAnswerResponse (Inr ()) ?tag ans) m]\<rparr>\<rparr>"
  have c3: "core_media (Inr ()) reader fast_write (ReadBytes ?response) ?c2 = Inr ?c3"
    using jsoncpp.answer_is_sent [of ?c2 m "sip c" d "word_of_int ch" to_double slack "nextSessionId (manager s)" ans]
      inv' ann m(1) answer(2,3) by (simp add: json)
  have acts: "actions i' = actions (sip c) @ [reply_action (buildTryingResponse (Inr ()) ?tag) m,
       Event (CallNewCallEvent ?ch (?v ''CALL-ID'') ?tag (?v ''TO'') (?v ''FROM'') (headers_of m) (msgBodies m))]"
    using ann by (simp add: announced_def Let_def fresh_dialogue_def fields)
  show ?thesis
    unfolding loggers
    by (rule exI [of _ ?c1], rule exI [of _ ?c2], rule exI [of _ ?c3], intro exI conjI,
        rule notif(1), simp, rule doc(1), rule doc(2), simp only: answer(2), rule doc(3), rule doc(4), rule doc(5),
        rule doc(6), rule doc(7), rule c2, simp, rule h, simp add: PostResponse_def, rule c3, rule m(2), rule ans,
        simp add: acts answer(2), simp)
qed

section \<open>An example\<close>

definition request_document :: "string \<Rightarrow> int \<Rightarrow> (string \<times> json) list \<Rightarrow> json" where
  "request_document mth d x = json_object [(''type'', JString ''request''), (''method'', JString mth),
     (''dialogueId'', JInt d), (''data'', json_object x JNull)] JNull"

abbreviation example_reader :: json_reader where
  "example_reader \<equiv> json_read (\<lambda>_. None) (\<lambda>_. [])"

lemma request_is_read:
  assumes "json_ok 1000 doc"
  shows "control_build_request (json_read to_double slack) (fast_write doc) = request_of_json doc"
  using jsoncpp.reads_back [OF assms] by (simp add: control_build_request_def)

lemma example_requests:
  "control_build_request example_reader (fast_write (request_document ''login'' 7 [])) = Inr (Some (LoginRequest 7))"
  "control_build_request example_reader (fast_write (request_document ''answerCall'' 7 [(''channelId'', JInt 1)])) =
     Inr (Some (CallAnswerRequest 7 1 ''tag-not-set'' []))"
proof -
  have "json_ok (Suc (Suc (Suc 0))) (request_document ''login'' 7 [])"
      "json_ok (Suc (Suc (Suc 0))) (request_document ''answerCall'' 7 [(''channelId'', JInt 1)])"
    by (simp_all add: request_document_def fits_int_def)
  then have ok: "json_ok 1000 (request_document ''login'' 7 [])"
      "json_ok 1000 (request_document ''answerCall'' 7 [(''channelId'', JInt 1)])"
    by (auto elim: json_ok_mono)
  have c: "c_str ''request'' = ''request''" "c_str ''login'' = ''login''" "c_str ''answerCall'' = ''answerCall''"
      "c_str ''tag-not-set'' = ''tag-not-set''" "c_str [] = []"
    by (simp_all add: c_str_def)
  show "control_build_request example_reader (fast_write (request_document ''login'' 7 [])) = Inr (Some (LoginRequest 7))"
    unfolding request_is_read [OF ok(1)] by (simp add: request_of_json_def request_document_def member_defs c fits_int_def)
  show "control_build_request example_reader (fast_write (request_document ''answerCall'' 7 [(''channelId'', JInt 1)])) =
     Inr (Some (CallAnswerRequest 7 1 ''tag-not-set'' []))"
    unfolding request_is_read [OF ok(2)]
    by (simp add: request_of_json_def request_document_def member_defs CallAnswerRequest_of_def c fits_int_def)
qed

text \<open>The process after it connected to the media process and a controller logged in.\<close>

lemma example_core:
  obtains c where "core_reachable (Inr ()) example_reader fast_write c" and "sip c = new_sip_interface"
    and "controlStream c = Some 1" and "mediaConnected c"
proof -
  let ?c1 = "new_core\<lparr>mediaConnected := True, mediaSent := [toJson fast_write (MediaRequest (media_ids 0 1) (MediaRegisterRequest ''systemIdentifier''))]\<rparr>"
  have 1: "core_reachable (Inr ()) example_reader fast_write ?c1"
  proof (rule core_reachable.step [OF core_reachable.start core_step.connect])
    show "media_on_connect (Inr ()) fast_write 0 new_core = Inr ?c1"
      by (simp add: media_on_connect_def registration_def MediaRequest_object_def MediaMessage_def PostRequest_def new_core_def)
  qed
  obtain out where out: "notify fast_write (LoginNotification 0 ''OK'' 0) (?c1\<lparr>controlStream := Some 1\<rparr>) =
      Inr (?c1\<lparr>controlStream := Some 1, controlSent := out\<rparr>)"
    using notify_total by blast
  have "core_control (Inr ()) example_reader fast_write 1 (ReadBytes (fast_write (request_document ''login'' 7 []))) ?c1 =
      Inr (?c1\<lparr>controlStream := Some 1, controlSent := out\<rparr>)"
    using out by (simp add: core_control_def Control_on_read_def example_requests controlRequestHandler_def)
  then have "core_reachable (Inr ()) example_reader fast_write (?c1\<lparr>controlStream := Some 1, controlSent := out\<rparr>)"
    by (rule core_reachable.step [OF 1 core_step.control])
  then show thesis
    by (rule that) (simp_all add: new_core_def)
qed

definition offer_wire :: "wire_header list" where
  "offer_wire = butlast sample_invite @ [\<lparr>whName = ''Content-Length'', whSep = '': '', whValue = ''135''\<rparr>]"

lemma offer_wire_ok: "\<forall>h \<in> set (sample_start # offer_wire). wire_ok h"
  using sample_invite_ok by (auto simp: offer_wire_def wire_ok_def isValidHeaderFieldNameChar_def ctype_defs dest: in_set_butlastD)

lemma offer_wire_values:
  "last_value (map header_of offer_wire) ''CALL-ID'' = ''77@x''"
  "last_value (map header_of offer_wire) ''FROM'' = ''<sip:a@x>;tag=1''"
  "last_value (map header_of offer_wire) ''TO'' = ''<sip:b@y>''"
  "last_value (map header_of offer_wire) ''CSEQ'' = ''1 INVITE''"
  "last_value (map header_of offer_wire) ''VIA'' = ''SIP/2.0/UDP 10.0.0.1:5061;branch=z9hG4bK1''"
  "last_value (map header_of offer_wire) ''CONTENT-LENGTH'' = show_nat (length sample_text)"
  "last_value (map header_of offer_wire) ''CONTENT-TYPE'' = ''application/sdp''"
  by (simp_all add: offer_wire_def sample_invite_def sample_wire_def header_eval sample_text_def show_nat.simps digit_char_def)

lemma offer_wire_via: "\<forall>h \<in> set offer_wire. via_ok (header_of h)"
proof -
  have "via_ok (header_of \<lparr>whName = ''Content-Length'', whSep = '': '', whValue = ''135''\<rparr>)"
    by (simp add: via_ok_def header_eval)
  then show ?thesis
    using sample_invite_via by (auto simp: offer_wire_def dest: in_set_butlastD)
qed

lemma offer_wire_size: "length (wire_block (sample_start # offer_wire) @ sample_text) \<le> 4096"
  by (simp add: offer_wire_def sample_invite_def sample_start_def sample_wire_def wire_block_def wire_line_def sample_text_def)

lemma offer_body: "sample_text \<noteq> []" "NUL \<notin> set sample_text" "\<not> contains message_delimiter sample_text"
proof -
  have "contains message_delimiter s \<longleftrightarrow> sublist message_delimiter s" for s
    by (simp add: contains_def sublist_def)
  then show "\<not> contains message_delimiter sample_text"
    by (simp add: sample_text_def message_delimiter_def sublist_Cons_right)
qed (simp_all add: sample_text_def)

lemma offer_wire_sent: "\<forall>k \<in> set announced_names. last_value (map header_of offer_wire) k \<noteq> []"
  by (simp add: announced_names_def offer_wire_values)

lemma example_parser:
  assumes "sip c = new_sip_interface"
  shows "\<not> processingMessage (udpParser (sip c))" and "receivedContentLength (udpParser (sip c)) = 0"
    and "map_of (dataBodies (parserData (udpParser (sip c)))) Body_SDP = None"
    and "retrieveDialogue call (dialogueManager (sip c)) = None" and "lastChannelId (dialogueManager (sip c)) = 0"
    and "current (sip c) = []" and "actions (sip c) = []"
  using assms by (simp_all add: new_sip_interface_def new_sip_parser_def new_dialogue_manager_def retrieveDialogue_def)

theorem call_is_set_up_witness:
  "\<exists>c c1 c2 c3 s' notif request response ans m.
    core_datagram (Inr ()) fast_write (replicate 4097 NUL) (replicate 4096 NUL)
      (int (length (wire_block (sample_start # offer_wire) @ sample_text))) (wire_block (sample_start # offer_wire) @ sample_text) c
      = Some (Inr c1) \<and> controlSent c1 = controlSent c @ [(1, notif)] \<and>
    core_control (Inr ()) example_reader fast_write 1
      (ReadBytes (fast_write (request_document ''answerCall'' 7 [(''channelId'', JInt 1)]))) c1 = Inr c2 \<and>
    mediaSent c2 = mediaSent c1 @ [request] \<and>
    media_process (Inr ()) example_reader fast_write (0, 0) (ReadBytes request) example_service = Inr s' \<and> sent s' = [response] \<and>
    core_media (Inr ()) example_reader fast_write (ReadBytes response) c2 = Inr c3 \<and> getBody Body_SDP m = sample_text \<and>
    sdp_toString (answer_for 1 0 1001) = Inr ans \<and>
    actions (sip c3) =
      [reply_action (buildTryingResponse (Inr ()) ''temporary-response-tag'') m,
       Event (CallNewCallEvent 1 ''77@x'' ''temporary-response-tag'' ''<sip:b@y>'' ''<sip:a@x>;tag=1'' (headers_of m) (msgBodies m)),
       reply_action (buildAnswerResponse (Inr ()) ''temporary-response-tag'' ans) m]"
proof -
  obtain c where c: "core_reachable (Inr ()) example_reader fast_write c" "sip c = new_sip_interface" "controlStream c = Some 1" "mediaConnected c"
    by (rule example_core)
  note fresh = example_parser [OF c(2)]
  obtain t where t: "sdp_toString (read_back sample_sdp) = Inr t"
    using sample_offer(2) by blast
  have small: "length (current (sip c)) + 2 < 2 ^ 32"
    by (simp add: fresh)
  have ch: "word_of_int 1 = lastChannelId (dialogueManager (sip c)) + 1" "fits_int 7"
    by (simp_all add: fresh fits_int_def)
  have via: "usual_via (last_value (map header_of offer_wire) ''VIA'')"
    unfolding offer_wire_values by (rule sample_via_usual)
  have ctype: "last_value (map header_of offer_wire) ''CONTENT-TYPE'' \<noteq> []"
      "content_type_of (buffer_of_string (last_value (map header_of offer_wire) ''CONTENT-TYPE'')) = Body_SDP"
    unfolding offer_wire_values using sample_content_type by simp_all
  have mem: "length (replicate 4097 NUL) = 4097" "length (replicate 4096 NUL) = 4096"
    by simp_all
  have offer: "Sdp (Inr ()) (fst (0, 0)) (sample_text @ [NUL]) (length sample_text) = Inr (read_back sample_sdp)"
    using sample_offer(1) by simp
  note main = call_is_set_up [OF refl c(1,3,4) small fresh(1-3) offer_wire_ok sample_wire_values(1) offer_wire_sent via offer_wire_via
      offer_wire_values(6) ctype offer_body offer_wire_size mem fresh(4) example_requests(2) ch
      example_service_fields(1,3) offer t refl]
  show ?thesis
    using main unfolding offer_wire_values fresh example_service_fields sample_offer(3)
    by (simp only: append_Nil of_int_1) metis
qed

text \<open>
  C5: In every reachable state of the core process, whatever datagrams, controller messages and media
  messages it received, the events handled for a channel are a run of the call protocol that ends in the
  state of its dialogue.
\<close>

theorem core_calls_follow_protocol:
  assumes "core_reachable nl reader writer c" and "x \<in> set (current (sip c))"
  shows "run_protocol NONE (channel_events (dialogueChannelId x) (actions (sip c))) = Some (dialogueState x)"
proof -
  have "interface_inv (sip c)"
    using core_reachable_inv [OF assms(1)] unfolding core_inv_def by (blast intro: reachable_inv)
  then show ?thesis
    using assms(2) by (auto simp: interface_inv_def calls_inv_def follows_protocol_def)
qed

theorem core_calls_follow_protocol_witness:
  "\<exists>c x. core_reachable (Inr ()) example_reader fast_write c \<and> current (sip c) = [x] \<and>
    run_protocol NONE (channel_events (dialogueChannelId x) (actions (sip c))) = Some INCOMING"
proof -
  obtain c where c: "core_reachable (Inr ()) example_reader fast_write c" "sip c = new_sip_interface"
    by (rule example_core)
  let ?mem = "wire_block (sample_start # sample_invite) @ ''v=0''"
  obtain i' x where i': "onUdpRecv (Inr ()) (replicate 4097 NUL) (replicate 4096 NUL) (int (length ?mem)) ?mem new_sip_interface = Some (Inr i')"
      "current i' = [x]" "dialogueState x = INCOMING"
    using sample_invite_received by blast
  obtain out where out: "after_sip fast_write i' c = Inr (c\<lparr>sip := i', controlSent := out\<rparr>)"
    using after_sip_total by blast
  let ?c = "c\<lparr>sip := i', controlSent := out\<rparr>"
  have "core_datagram (Inr ()) fast_write (replicate 4097 NUL) (replicate 4096 NUL) (int (length ?mem)) ?mem c = Some (Inr ?c)"
    using i'(1) out c(2) by (simp add: core_datagram_def del: length_append)
  then have "core_reachable (Inr ()) example_reader fast_write ?c"
    by (rule core_reachable.step [OF c(1) core_step.datagram [rotated 2]]) (simp_all add: channel_left_def i'(2))
  from this core_calls_follow_protocol [OF this, of x] show ?thesis
    using i' by (intro exI [of _ ?c] exI [of _ x]) simp
qed

section \<open>Without loggers\<close>

lemma unlogged_message: "build_message (Inl e) reader s \<noteq> Inr (Some m)"
  by (auto simp: build_message_def message_of_json_def build_response_def build_request_def of_data_defs some_of_def
      bindO_eq_Inr_iff split: option.splits if_splits)

lemma unlogged_interface: "sip_reachable (Inl e) i \<Longrightarrow> current i = [] \<and> actions i = []"
proof (induction rule: sip_reachable.induct)
  case start
  then show ?case by (simp add: new_sip_interface_def new_dialogue_manager_def)
next
  case (step i i')
  from step.hyps(2) show ?case
    using step.IH by cases (auto simp: operations_nl [of "Inl e"] onTcpConnection_def Let_def split: if_splits)
qed

lemma notify_media: "notify writer n c = Inr c' \<Longrightarrow> mediaConnected c' = mediaConnected c \<and> mediaSent c' = mediaSent c"
  using notify_total [of writer n c] by auto

lemma unlogged_control:
  assumes "core_control (Inl e) reader writer st ev c = Inr c'" and "\<not> mediaConnected c"
  shows "\<not> mediaConnected c' \<and> mediaSent c' = mediaSent c"
proof -
  have "\<not> mediaConnected c' \<and> mediaSent c' = mediaSent c"
    if "controlRequestHandler (Inl e) writer r st c = Inr c'" for r
    using that assms(2)
    by (cases r) (auto simp: controlRequestHandler_def answer_request_def record_request_def MediaRequest_object_def
        MediaMessage_def bindO_eq_Inr_iff Let_def split: if_splits dest!: notify_media)
  then show ?thesis
    using assms by (auto simp: core_control_def Control_on_read_def bindO_eq_Inr_iff split: read_event.splits option.splits)
qed

lemma unlogged_media:
  "core_media (Inl e) reader writer ev c = Inr c' \<Longrightarrow> c' = c"
  "media_process (Inl e) reader writer clock ev s = Inr s' \<Longrightarrow> s' = s"
  by (auto simp: core_media_def MediaClient_on_read_def media_process_def MediaServer_on_read_def bindO_eq_Inr_iff
      unlogged_message split: read_event.splits option.splits)

lemma unlogged_step:
  assumes "core_step (Inl e) reader writer c c'" and "\<not> mediaConnected c"
  shows "\<not> mediaConnected c' \<and> mediaSent c' = mediaSent c"
  using assms(1)
proof cases
  case (datagram fresh dest bytes_read mem)
  then obtain i where "after_sip writer i c = Inr c'"
    by (auto simp: core_datagram_def bindO_eq_Inr_iff split: option.splits)
  then show ?thesis
    using after_sip_total [of writer i c] assms(2) by auto
next
  case (control stream ev)
  then show ?thesis using unlogged_control assms(2) by blast
next
  case (media ev)
  then show ?thesis using unlogged_media(1) assms(2) by blast
next
  case (connect status)
  then show ?thesis
    using assms(2) by (auto simp: media_on_connect_def registration_def MediaRequest_object_def MediaMessage_def split: if_splits)
qed



end
